(* ===== verification/Prelude.thy ===== *)
theory Prelude
  imports Complex_Main "HOL-Library.List_Lexorder" "HOL-Library.Char_ord" "HOL-Library.Multiset"
begin

text \<open>
  What every component theory shares: the JavaScript values the web client computes with
  (numbers with NaN and the infinities, objects used as ordered dictionaries, strings), the
  errors a handler can end in, and the generic lemmas on lists that several components use.

  Numbers. A JavaScript number is a double. The finite ones are modelled by exact rationals
  (rounding and the sign of zero are left out), NaN and the two infinities are kept, with
  their comparisons: every comparison with NaN is false. Millisecond timestamps and list
  indices never leave the integers the doubles represent exactly and are modelled by
  \<open>int\<close> and \<open>nat\<close> in the theories that use them.
\<close>

named_theorems js_num "evaluation rules of the number operations"
named_theorems frame "facts that an operation leaves a part of the state alone"

subsection \<open>Failures\<close>

text \<open>
  \<open>TypeError\<close> is the exception of a property access on an undefined value, \<open>ReferenceError\<close> that
  of a variable that does not exist, \<open>RangeError\<close> that of a date that is none, \<open>NoReturn\<close> the
  outcome of a recursion or loop whose fuel ran out (in the browser: a stack overflow or a
  page that hangs). A result is a sum with the failure on the left.
\<close>

datatype js_fail = TypeError | ReferenceError | RangeError | NoReturn

type_synonym 'a result = "js_fail + 'a"

fun and_then :: "'a result \<Rightarrow> ('a \<Rightarrow> 'b result) \<Rightarrow> 'b result" where
  "and_then (Inl e) f = Inl e"
| "and_then (Inr x) f = f x"

lemma and_then_Inr_iff: "and_then r f = Inr y \<longleftrightarrow> (\<exists>x. r = Inr x \<and> f x = Inr y)"
  by (cases r) auto

lemma and_then_Inl_iff:
  "and_then r f = Inl e \<longleftrightarrow> r = Inl e \<or> (\<exists>x. r = Inr x \<and> f x = Inl e)"
  by (cases r) auto

fun map_result :: "('a \<Rightarrow> 'b result) \<Rightarrow> 'a list \<Rightarrow> 'b list result" where
  "map_result f [] = Inr []"
| "map_result f (x # xs) =
     and_then (f x) (\<lambda>y. and_then (map_result f xs) (\<lambda>ys. Inr (y # ys)))"

lemma map_result_cong [fundef_cong]:
  "xs = ys \<Longrightarrow> (\<And>x. x \<in> set ys \<Longrightarrow> f x = g x) \<Longrightarrow> map_result f xs = map_result g ys"
  by (induction ys arbitrary: xs) auto

lemma map_result_length: "map_result f xs = Inr ys \<Longrightarrow> length ys = length xs"
  by (induction xs arbitrary: ys) (auto simp: and_then_Inr_iff)

lemma map_result_nth:
  "map_result f xs = Inr ys \<Longrightarrow> i < length xs \<Longrightarrow> f (xs ! i) = Inr (ys ! i)"
  by (induction xs arbitrary: ys i) (auto simp: and_then_Inr_iff nth_Cons split: nat.splits)

lemma map_result_ok: "(\<And>x. x \<in> set xs \<Longrightarrow> f x = Inr (g x)) \<Longrightarrow> map_result f xs = Inr (map g xs)"
  by (induction xs) auto

lemma map_result_Inr_iff: "(\<exists>ys. map_result f xs = Inr ys) \<longleftrightarrow> (\<forall>x \<in> set xs. \<exists>y. f x = Inr y)"
proof (induction xs)
  case (Cons x xs)
  then show ?case by (auto simp: and_then_Inr_iff)
qed simp

subsection \<open>Numbers\<close>

datatype jsnum = Fin rat | NaN | PInf | NInf

fun js_add :: "jsnum \<Rightarrow> jsnum \<Rightarrow> jsnum" where
  "js_add (Fin a) (Fin b) = Fin (a + b)"
| "js_add NaN _ = NaN"
| "js_add _ NaN = NaN"
| "js_add PInf NInf = NaN"
| "js_add NInf PInf = NaN"
| "js_add PInf _ = PInf"
| "js_add _ PInf = PInf"
| "js_add NInf _ = NInf"
| "js_add _ NInf = NInf"

fun js_neg :: "jsnum \<Rightarrow> jsnum" where
  "js_neg (Fin a) = Fin (- a)"
| "js_neg NaN = NaN"
| "js_neg PInf = NInf"
| "js_neg NInf = PInf"

fun js_sign :: "jsnum \<Rightarrow> rat" where
  "js_sign (Fin a) = (if a < 0 then -1 else if a = 0 then 0 else 1)"
| "js_sign NaN = 0"
| "js_sign PInf = 1"
| "js_sign NInf = -1"

definition js_inf :: "rat \<Rightarrow> jsnum" where
  "js_inf s = (if s < 0 then NInf else if s = 0 then NaN else PInf)"

fun js_mul :: "jsnum \<Rightarrow> jsnum \<Rightarrow> jsnum" where
  "js_mul (Fin a) (Fin b) = Fin (a * b)"
| "js_mul NaN _ = NaN"
| "js_mul _ NaN = NaN"
| "js_mul x y = js_inf (js_sign x * js_sign y)"

fun js_div :: "jsnum \<Rightarrow> jsnum \<Rightarrow> jsnum" where
  "js_div (Fin a) (Fin b) = (if b = 0 then js_inf (js_sign (Fin a)) else Fin (a / b))"
| "js_div NaN _ = NaN"
| "js_div _ NaN = NaN"
| "js_div (Fin a) _ = Fin 0"
| "js_div x (Fin b) = js_inf (js_sign x * (if b < 0 then -1 else 1))"
| "js_div _ _ = NaN"

fun js_less :: "jsnum \<Rightarrow> jsnum \<Rightarrow> bool" where
  "js_less (Fin a) (Fin b) = (a < b)"
| "js_less NaN _ = False"
| "js_less _ NaN = False"
| "js_less NInf y = (y \<noteq> NInf)"
| "js_less _ PInf = True"
| "js_less _ _ = False"

text \<open>The operators of the source are written with Isabelle's own, on the type \<open>jsnum\<close>.\<close>

instantiation jsnum :: "{zero, plus, minus, times, inverse, uminus, ord}"
begin

definition zero_jsnum_def [js_num]: "0 = Fin 0"

definition plus_jsnum_def [js_num]: "x + y = js_add x y"

definition uminus_jsnum_def [js_num]: "- x = js_neg x"

definition minus_jsnum_def [js_num]: "x - y = js_add x (js_neg y)"

definition times_jsnum_def [js_num]: "x * y = js_mul x y"

definition divide_jsnum_def [js_num]: "x div y = js_div x y"

definition inverse_jsnum_def [js_num]: "inverse x = js_div (Fin 1) x"

definition less_jsnum_def [js_num]: "x < y = js_less x y"

definition less_eq_jsnum_def [js_num]: "x \<le> y = (x \<noteq> NaN \<and> (js_less x y \<or> x = y))"

instance ..

end

lemma js_fin [simp]:
  "Fin a + Fin b = Fin (a + b)" "Fin a - Fin b = Fin (a - b)" "Fin a * Fin b = Fin (a * b)"
  "- Fin a = Fin (- a)" "b \<noteq> 0 \<Longrightarrow> Fin a / Fin b = Fin (a / b)"
  "Fin a < Fin b \<longleftrightarrow> a < b" "Fin a \<le> Fin b \<longleftrightarrow> a \<le> b"
  by (auto simp: js_num)

lemma js_nan [simp]:
  "NaN + x = NaN" "x + NaN = NaN" "NaN - x = NaN" "x - NaN = NaN" "NaN * x = NaN" "x * NaN = NaN"
  "NaN / x = NaN" "x / NaN = NaN" "\<not> NaN < x" "\<not> x < NaN" "\<not> NaN \<le> x" "\<not> x \<le> NaN"
  by (cases x; simp add: js_num)+

lemma js_zero_div_zero [simp]: "Fin 0 / Fin 0 = NaN"
  by (simp add: js_num js_inf_def)

text \<open>\<open>Math.max\<close> and \<open>Math.min\<close> return NaN as soon as one argument is NaN.\<close>

definition js_max :: "jsnum \<Rightarrow> jsnum \<Rightarrow> jsnum" where
  "js_max x y = (if x = NaN \<or> y = NaN then NaN else if x < y then y else x)"

definition js_min :: "jsnum \<Rightarrow> jsnum \<Rightarrow> jsnum" where
  "js_min x y = (if x = NaN \<or> y = NaN then NaN else if y < x then y else x)"

definition js_abs :: "jsnum \<Rightarrow> jsnum" where
  "js_abs x = (if x < Fin 0 then - x else x)"

lemma js_max_Fin [simp]: "js_max (Fin a) (Fin b) = Fin (max a b)"
  by (simp add: js_max_def max_def)

lemma js_min_Fin [simp]: "js_min (Fin a) (Fin b) = Fin (min a b)"
  by (simp add: js_min_def min_def)

lemma js_abs_Fin [simp]: "js_abs (Fin a) = Fin \<bar>a\<bar>"
  by (simp add: js_abs_def)

lemma js_max_NaN [simp]: "js_max NaN x = NaN" "js_max x NaN = NaN"
  by (simp_all add: js_max_def)

text \<open>A number is falsy when it is 0 or NaN.\<close>

fun js_truthy :: "jsnum \<Rightarrow> bool" where
  "js_truthy (Fin a) = (a \<noteq> 0)"
| "js_truthy NaN = False"
| "js_truthy _ = True"

fun is_fin :: "jsnum \<Rightarrow> bool" where
  "is_fin (Fin a) = True"
| "is_fin _ = False"

fun fin_val :: "jsnum \<Rightarrow> rat" where
  "fin_val (Fin a) = a"
| "fin_val _ = 0"

lemma is_fin_conv: "is_fin x \<longleftrightarrow> (\<exists>a. x = Fin a)"
  by (cases x) auto

lemma Fin_fin_val: "is_fin x \<Longrightarrow> Fin (fin_val x) = x"
  by (cases x) auto

subsection \<open>Objects used as dictionaries\<close>

text \<open>
  A JavaScript object whose keys are data is an association list in insertion order, the order
  in which \<open>for (key in obj)\<close> visits it (keys that read as array indices would come first;
  job names do not). Assignment keeps the place of an existing key.
\<close>

type_synonym 'v jsobj = "(string \<times> 'v) list"

fun obj_set :: "string \<Rightarrow> 'v \<Rightarrow> 'v jsobj \<Rightarrow> 'v jsobj" where
  "obj_set k v [] = [(k, v)]"
| "obj_set k v ((k', v') # m) = (if k = k' then (k, v) # m else (k', v') # obj_set k v m)"

definition obj_get :: "'v jsobj \<Rightarrow> string \<Rightarrow> 'v option" where
  "obj_get m k = map_of m k"

definition obj_keys :: "'v jsobj \<Rightarrow> string list" where
  "obj_keys m = map fst m"

lemma obj_get_set [simp]: "obj_get (obj_set k v m) k' = (if k' = k then Some v else obj_get m k')"
  by (induction k v m rule: obj_set.induct) (auto simp: obj_get_def)

lemma obj_get_Nil [simp]: "obj_get [] k = None"
  by (simp add: obj_get_def)

lemma set_keys_obj_set: "set (obj_keys (obj_set k v m)) = insert k (set (obj_keys m))"
  by (induction k v m rule: obj_set.induct) (auto simp: obj_keys_def)

lemma distinct_obj_set: "distinct (obj_keys m) \<Longrightarrow> distinct (obj_keys (obj_set k v m))"
proof (induction k v m rule: obj_set.induct)
  case (2 k v k' v' m)
  then show ?case using set_keys_obj_set[of k v m] by (auto simp: obj_keys_def)
qed (auto simp: obj_keys_def)

lemma values_obj_set: "snd ` set (obj_set k v m) \<subseteq> insert v (snd ` set m)"
  by (induction k v m rule: obj_set.induct) auto

lemma obj_get_Some_in: "obj_get m k = Some v \<Longrightarrow> (k, v) \<in> set m"
  by (simp add: obj_get_def map_of_SomeD)

lemma obj_get_None_iff: "obj_get m k = None \<longleftrightarrow> k \<notin> set (obj_keys m)"
  by (simp add: obj_get_def obj_keys_def map_of_eq_None_iff)

lemma obj_get_distinct: "distinct (obj_keys m) \<Longrightarrow> (k, v) \<in> set m \<Longrightarrow> obj_get m k = Some v"
  by (simp add: obj_get_def obj_keys_def)

lemma obj_values_get:
  "distinct (obj_keys m) \<Longrightarrow> v \<in> set (map snd m) \<longleftrightarrow> (\<exists>k. obj_get m k = Some v)"
proof -
  assume d: "distinct (obj_keys m)"
  have "v \<in> set (map snd m) \<longleftrightarrow> (\<exists>k. (k, v) \<in> set m)" by force
  then show ?thesis using obj_get_distinct[OF d] obj_get_Some_in by metis
qed

subsection \<open>Lists\<close>

lemma list_update_map_upd:
  "i < length xs \<Longrightarrow> map f (xs[i := x]) = (map f xs)[i := f x]"
  by (simp add: map_update)

definition upd_at :: "nat \<Rightarrow> ('a \<Rightarrow> 'a) \<Rightarrow> 'a list \<Rightarrow> 'a list" where
  "upd_at i f xs = (if i < length xs then xs[i := f (xs ! i)] else xs)"

lemma length_upd_at [simp]: "length (upd_at i f xs) = length xs"
  by (simp add: upd_at_def)

lemma nth_upd_at:
  "j < length xs \<Longrightarrow> upd_at i f xs ! j = (if j = i then f (xs ! j) else xs ! j)"
  by (auto simp: upd_at_def nth_list_update)

lemma map_upd_at: "(\<And>x. g (f x) = g x) \<Longrightarrow> map g (upd_at i f xs) = map g xs"
  by (rule nth_equalityI) (auto simp: nth_upd_at)

lemma foldl_invariant:
  "P s \<Longrightarrow> (\<And>s x. x \<in> set xs \<Longrightarrow> P s \<Longrightarrow> P (f s x)) \<Longrightarrow> P (foldl f s xs)"
  by (induction xs arbitrary: s) auto

end
