(* ===== verification/JsString.thy ===== *)
theory JsString
  imports Prelude
begin

text \<open>
  The string operations of the language that the client uses: white space and \<open>trim\<close>, the
  split of an attribute into its words, the conversion of numbers to text and back
  (\<open>"" + n\<close>, \<open>parseInt\<close>), \<open>indexOf\<close>, \<open>lastIndexOf\<close>, \<open>substring\<close> and the
  change of case. A \<open>char\<close> stands for one code unit below 256.
\<close>

subsection \<open>White space and words\<close>

text \<open>The class \<open>\s\<close> of a regular expression, and what \<open>trim\<close> removes.\<close>

definition js_ws :: "char \<Rightarrow> bool" where
  "js_ws c \<longleftrightarrow> c \<in> {CHR '' '', CHR 0x09, CHR 0x0A, CHR 0x0B, CHR 0x0C, CHR 0x0D, CHR 0xA0}"

lemma js_ws_space [simp]: "js_ws (CHR '' '')"
  by (simp add: js_ws_def)

definition trim :: "string \<Rightarrow> string" where
  "trim s = rev (dropWhile js_ws (rev (dropWhile js_ws s)))"

text \<open>\<open>toks\<close> cuts at every white-space character, \<open>words\<close> drops the empty pieces.\<close>

fun toks :: "string \<Rightarrow> string list" where
  "toks [] = [[]]"
| "toks (c # s) = (if js_ws c then [] # toks s else (c # hd (toks s)) # tl (toks s))"

definition words :: "string \<Rightarrow> string list" where
  "words s = filter (\<lambda>t. t \<noteq> []) (toks s)"

definition is_word :: "string \<Rightarrow> bool" where
  "is_word w \<longleftrightarrow> w \<noteq> [] \<and> list_all (\<lambda>c. \<not> js_ws c) w"

lemma toks_nonempty [simp]: "toks s \<noteq> []"
  by (induction s) auto

lemma toks_append_ws: "js_ws c \<Longrightarrow> toks (a @ c # b) = toks a @ toks b"
  by (induction a) auto

lemma words_append_ws: "js_ws c \<Longrightarrow> words (a @ c # b) = words a @ words b"
  by (simp add: words_def toks_append_ws)

lemma words_Nil [simp]: "words [] = []"
  by (simp add: words_def)

lemma words_ws_Cons [simp]: "js_ws c \<Longrightarrow> words (c # s) = words s"
  by (simp add: words_def)

lemma toks_word: "list_all (\<lambda>c. \<not> js_ws c) w \<Longrightarrow> toks w = [w]"
  by (induction w) auto

lemma words_word: "is_word w \<Longrightarrow> words w = [w]"
  by (simp add: is_word_def words_def toks_word)

lemma words_dropWhile: "words (dropWhile js_ws s) = words s"
  by (induction s) auto

lemma words_snoc_ws: "js_ws c \<Longrightarrow> words (s @ [c]) = words s"
  using words_append_ws[of c s "[]"] by simp

lemma words_dropWhile_end: "words (rev (dropWhile js_ws (rev s))) = words s"
  by (induction s rule: rev_induct) (auto simp: words_snoc_ws)

lemma words_trim [simp]: "words (trim s) = words s"
  by (simp add: trim_def words_dropWhile words_dropWhile_end)

lemma toks_are_words: "t \<in> set (toks s) \<Longrightarrow> list_all (\<lambda>c. \<not> js_ws c) t"
proof (induction s arbitrary: t)
  case (Cons c s)
  have "hd (toks s) \<in> set (toks s)" "set (tl (toks s)) \<subseteq> set (toks s)"
    by (simp_all add: list.set_sel(2) subsetI)
  with Cons show ?case by (auto split: if_splits)
qed simp

lemma words_are_words: "w \<in> set (words s) \<Longrightarrow> is_word w"
  by (auto simp: words_def is_word_def dest: toks_are_words)

subsection \<open>Numbers as text\<close>

definition digit_char :: "nat \<Rightarrow> char" where
  "digit_char d = char_of (48 + d)"

definition char_code :: "char \<Rightarrow> nat" where
  "char_code c = of_char c"

definition is_digit :: "char \<Rightarrow> bool" where
  "is_digit c \<longleftrightarrow> 48 \<le> char_code c \<and> char_code c \<le> 57"

definition digit_val :: "char \<Rightarrow> nat" where
  "digit_val c = char_code c - 48"

lemma digit_char_code: "d < 10 \<Longrightarrow> char_code (digit_char d) = 48 + d"
  by (simp add: char_code_def digit_char_def)

lemma is_digit_char [simp]: "d < 10 \<Longrightarrow> is_digit (digit_char d)"
  by (simp add: is_digit_def digit_char_code)

lemma digit_val_char [simp]: "d < 10 \<Longrightarrow> digit_val (digit_char d) = d"
  by (simp add: digit_val_def digit_char_code)

fun show_nat :: "nat \<Rightarrow> string" where
  "show_nat n = (if n < 10 then [digit_char n] else show_nat (n div 10) @ [digit_char (n mod 10)])"

declare show_nat.simps [simp del]

definition show_int :: "int \<Rightarrow> string" where
  "show_int i = (if i < 0 then CHR ''-'' # show_nat (nat (- i)) else show_nat (nat i))"

definition digits_value :: "string \<Rightarrow> nat" where
  "digits_value s = foldl (\<lambda>a c. 10 * a + digit_val c) 0 s"

lemma show_nat_digits: "list_all is_digit (show_nat n)"
proof (induction n rule: show_nat.induct)
  case (1 n)
  then show ?case by (subst show_nat.simps) auto
qed

lemma show_nat_nonempty [simp]: "show_nat n \<noteq> []"
  by (subst show_nat.simps) simp

lemma digits_value_show [simp]: "digits_value (show_nat n) = n"
proof (induction n rule: show_nat.induct)
  case (1 n)
  then show ?case
    by (subst show_nat.simps) (auto simp: digits_value_def)
qed

lemma show_nat_inj: "show_nat m = show_nat n \<Longrightarrow> m = n"
  by (metis digits_value_show)

lemma show_nat_length: "n < 10 ^ Suc k \<Longrightarrow> length (show_nat n) \<le> Suc k"
proof (induction k arbitrary: n)
  case 0
  then show ?case by (subst show_nat.simps) simp
next
  case (Suc k)
  then have "n div 10 < 10 ^ Suc k" by (simp add: less_mult_imp_div_less)
  from Suc.IH[OF this] show ?case by (subst show_nat.simps) simp
qed

text \<open>
  \<open>parseInt(str)\<close>: skip white space, an optional sign, then the longest run of digits, or
  of hexadecimal digits after \<open>0x\<close>; NaN when that run is empty.
\<close>

definition hex_val :: "char \<Rightarrow> nat option" where
  "hex_val c = (let n = char_code c in
     if 48 \<le> n \<and> n \<le> 57 then Some (n - 48)
     else if 65 \<le> n \<and> n \<le> 70 then Some (n - 55)
     else if 97 \<le> n \<and> n \<le> 102 then Some (n - 87) else None)"

fun parse_digits :: "string \<Rightarrow> jsnum" where
  "parse_digits s = (if s = [] then NaN else Fin (of_nat (digits_value s)))"

definition parse_unsigned :: "string \<Rightarrow> jsnum" where
  "parse_unsigned s =
     (if take 2 s = ''0x'' \<or> take 2 s = ''0X''
      then let h = takeWhile (\<lambda>c. hex_val c \<noteq> None) (drop 2 s)
           in if h = [] then NaN
              else Fin (of_nat (foldl (\<lambda>a c. 16 * a + the (hex_val c)) 0 h))
      else parse_digits (takeWhile is_digit s))"

definition parseInt :: "string \<Rightarrow> jsnum" where
  "parseInt s =
     (case dropWhile js_ws s of
        [] \<Rightarrow> NaN
      | c # r \<Rightarrow> if c = CHR ''-'' then - parse_unsigned r
                 else if c = CHR ''+'' then parse_unsigned r
                 else parse_unsigned (c # r))"

lemma is_digit_special:
  "is_digit c \<Longrightarrow> \<not> js_ws c \<and> c \<noteq> CHR ''-'' \<and> c \<noteq> CHR ''+'' \<and> c \<noteq> CHR ''x'' \<and> c \<noteq> CHR ''X''"
  by (auto simp: is_digit_def js_ws_def char_code_def)

lemma takeWhile_digits:
  "list_all is_digit ds \<Longrightarrow> (r = [] \<or> \<not> is_digit (hd r)) \<Longrightarrow> takeWhile is_digit (ds @ r) = ds"
  by (induction ds) (auto simp: takeWhile_eq_Nil_iff)

text \<open>Parsing reads back the number that was printed, whatever follows it (but a digit or an x).\<close>

lemma parseInt_show_nat:
  assumes "r = [] \<or> \<not> is_digit (hd r) \<and> hd r \<notin> {CHR ''x'', CHR ''X''}"
  shows "parseInt (show_nat n @ r) = Fin (of_nat n)"
proof -
  obtain c ds where s: "show_nat n = c # ds" by (cases "show_nat n") auto
  have dig: "list_all is_digit (c # ds)" using show_nat_digits[of n] s by simp
  have c: "is_digit c" using dig by simp
  have nox: "\<not> (take 2 (c # ds @ r) = ''0x'' \<or> take 2 (c # ds @ r) = ''0X'')"
    using dig assms is_digit_special
    by (cases ds; cases r) auto
  have tw: "takeWhile is_digit (c # ds @ r) = c # ds"
    using takeWhile_digits[OF dig, of r] assms c by auto
  have "parse_unsigned (c # ds @ r) = Fin (of_nat (digits_value (c # ds)))"
    unfolding parse_unsigned_def if_not_P[OF nox] tw by simp
  moreover have "digits_value (c # ds) = n" using s by (metis digits_value_show)
  ultimately show ?thesis
    using is_digit_special[OF c] s by (simp add: parseInt_def)
qed

subsection \<open>Case and searching\<close>

definition to_upper :: "string \<Rightarrow> string" where
  "to_upper s = map (\<lambda>c. if 97 \<le> char_code c \<and> char_code c \<le> 122 then char_of (char_code c - 32) else c) s"

definition to_lower :: "string \<Rightarrow> string" where
  "to_lower s = map (\<lambda>c. if 65 \<le> char_code c \<and> char_code c \<le> 90 then char_of (char_code c + 32) else c) s"

text \<open>\<open>indexOf\<close>: the first position at which the pattern occurs, None for -1.\<close>

fun indexOf :: "string \<Rightarrow> string \<Rightarrow> nat option" where
  "indexOf [] p = (if p = [] then Some 0 else None)"
| "indexOf (c # s) p =
     (if take (length p) (c # s) = p then Some 0 else map_option Suc (indexOf s p))"

definition substring :: "string \<Rightarrow> nat \<Rightarrow> nat \<Rightarrow> string" where
  "substring s i j = take (j - i) (drop i s)"

lemma indexOf_Some: "indexOf s p = Some i \<Longrightarrow> take (length p) (drop i s) = p"
  by (induction s p arbitrary: i rule: indexOf.induct) (auto split: if_splits)

lemma indexOf_None: "indexOf s p = None \<Longrightarrow> s \<noteq> a @ p @ b"
proof (induction s p arbitrary: a rule: indexOf.induct)
  case (2 c s p)
  then show ?case by (cases a) (auto split: if_splits)
qed (auto split: if_splits)

lemma indexOf_iff: "indexOf s p \<noteq> None \<longleftrightarrow> (\<exists>a b. s = a @ p @ b)"
proof
  assume "indexOf s p \<noteq> None"
  then obtain i where "indexOf s p = Some i" by auto
  then have "s = take i s @ p @ drop (length p) (drop i s)"
    by (metis indexOf_Some append_take_drop_id)
  then show "\<exists>a b. s = a @ p @ b" by blast
qed (metis indexOf_None)

lemma indexOf_first: "indexOf s p = Some i \<Longrightarrow> j < i \<Longrightarrow> take (length p) (drop j s) \<noteq> p"
proof (induction s p arbitrary: i j rule: indexOf.induct)
  case (2 c s p)
  then show ?case by (cases j) (auto split: if_splits)
qed (auto split: if_splits)

lemma indexOf_bound: "indexOf s p = Some i \<Longrightarrow> i + length p \<le> length s"
proof (induction s p arbitrary: i rule: indexOf.induct)
  case (2 c s p)
  show ?case
  proof (cases "take (length p) (c # s) = p")
    case True
    then have "length p \<le> length (c # s)" by (metis length_take min.cobounded1)
    with True 2 show ?thesis by simp
  next
    case False
    with 2 show ?thesis by auto
  qed
qed (auto split: if_splits)

subsection \<open>Pieces\<close>

text \<open>\<open>split\<close> at a character; the pieces between, the empty ones too.\<close>

fun split_on :: "char \<Rightarrow> string \<Rightarrow> string list" where
  "split_on d [] = [[]]"
| "split_on d (c # s) = (if c = d then [] # split_on d s else (c # hd (split_on d s)) # tl (split_on d s))"

lemma split_on_nonempty [simp]: "split_on d s \<noteq> []"
  by (induction s) auto

lemma split_on_none: "d \<notin> set s \<Longrightarrow> split_on d s = [s]"
  by (induction s) auto

lemma split_on_append: "d \<notin> set a \<Longrightarrow> split_on d (a @ d # b) = a # split_on d b"
  by (induction a) auto

text \<open>\<open>join\<close>, the other way.\<close>

fun join :: "string \<Rightarrow> string list \<Rightarrow> string" where
  "join d [] = []"
| "join d [s] = s"
| "join d (s # s' # ss) = s @ d @ join d (s' # ss)"

lemma split_join: "xs \<noteq> [] \<Longrightarrow> \<forall>x \<in> set xs. d \<notin> set x \<Longrightarrow> split_on d (join [d] xs) = xs"
proof (induction xs rule: induct_list012)
  case (3 x y zs)
  then have "split_on d (x @ d # join [d] (y # zs)) = x # split_on d (join [d] (y # zs))" by (intro split_on_append) simp
  with 3 show ?case by simp
qed (simp_all add: split_on_none)

lemma join_inj:
  assumes "join [d] xs = join [d] ys" "xs \<noteq> []" "ys \<noteq> []" "\<forall>x \<in> set xs \<union> set ys. d \<notin> set x"
  shows "xs = ys"
proof -
  have "xs = split_on d (join [d] xs)" using assms(2,4) by (intro split_join[symmetric]) auto
  also have "\<dots> = ys" unfolding assms(1) using assms(3,4) by (intro split_join) auto
  finally show ?thesis .
qed

end
