(* ===== verification/ClassAttr.thy ===== *)
theory ClassAttr
  imports JsString
begin

text \<open>
  \<open>util/common.js\<close> and the class helpers of \<open>util/svgutils.js\<close>: \<open>hasClass\<close>,
  \<open>addClass\<close> and \<open>removeClass\<close> on the \<open>class\<close> attribute of an SVG element (jQuery's own
  do not work on SVG), with the regular expression \<open>(\s|^)name(\s|$)\<close>, \<open>sizeStrToBytes\<close>,
  and the tables of \<open>util/job-status.js\<close>. An attribute is an optional string, None when the
  element has none. Names are taken literally: the client passes status and state names only,
  which hold no character that is special in a regular expression.

  The locale \<open>class_ops\<close> is the interface the views rely on to paint a status. It is
  interpreted here on both files' helpers and in the theory of the page on jQuery's.
\<close>

subsection \<open>The regular expression\<close>

text \<open>\<open>name(\s|$)\<close> at the head of \<open>s\<close>: what follows the match.\<close>

definition name_at :: "string \<Rightarrow> string \<Rightarrow> string option" where
  "name_at n s =
     (if take (length n) s = n
      then (case drop (length n) s of
              [] \<Rightarrow> Some []
            | c # r \<Rightarrow> if js_ws c then Some r else None)
      else None)"

text \<open>
  The leftmost match of the whole expression: the text before and after it. The flag says that
  the search is at the start of the attribute, where \<open>^\<close> matches.
\<close>

fun find_name :: "string \<Rightarrow> bool \<Rightarrow> string \<Rightarrow> (string \<times> string) option" where
  "find_name n start [] =
     (if start then map_option (\<lambda>r. ([], r)) (name_at n []) else None)"
| "find_name n start (c # s) =
     (case (if js_ws c then name_at n s else None) of
        Some r \<Rightarrow> Some ([], r)
      | None \<Rightarrow>
          (case (if start then name_at n (c # s) else None) of
             Some r \<Rightarrow> Some ([], r)
           | None \<Rightarrow> map_option (\<lambda>(b, r). (c # b, r)) (find_name n False s)))"

subsection \<open>The helpers of common.js and svgutils.js\<close>

definition hasClass :: "string option \<Rightarrow> string \<Rightarrow> bool" where
  "hasClass el n = (case el of None \<Rightarrow> False | Some s \<Rightarrow> find_name n True s \<noteq> None)"

text \<open>
  The \<open>addClass\<close> of \<open>common.js\<close> appends with \<open>+=\<close>, so that an element without the
  attribute gets the text \<open>null\<close> in front.
\<close>

definition common_addClass :: "string option \<Rightarrow> string \<Rightarrow> string option" where
  "common_addClass el n =
     (if \<not> hasClass el n
      then Some (case el of
                   None \<Rightarrow> ''null'' @ n
                 | Some s \<Rightarrow> s @ (if s \<noteq> [] then '' '' @ n else n))
      else el)"

definition svg_addClass :: "string option \<Rightarrow> string \<Rightarrow> string option" where
  "svg_addClass el n =
     (if \<not> hasClass el n
      then Some (case el of
                   None \<Rightarrow> n
                 | Some s \<Rightarrow> if s \<noteq> [] then s @ '' '' @ n else n)
      else el)"

definition removeClass :: "string option \<Rightarrow> string \<Rightarrow> string option" where
  "removeClass el n =
     (if hasClass el n
      then (case el of
              None \<Rightarrow> None
            | Some s \<Rightarrow>
                (case find_name n True s of
                   None \<Rightarrow> Some (trim s)
                 | Some (b, r) \<Rightarrow> Some (trim (b @ '' '' @ r))))
      else el)"

subsection \<open>What the expression finds\<close>

text \<open>The words of the attribute, the abstraction all the helpers are specified against.\<close>

definition class_words :: "string option \<Rightarrow> string list" where
  "class_words el = (case el of None \<Rightarrow> [] | Some s \<Rightarrow> words s)"

lemma toks_take_word:
  assumes "list_all (\<lambda>c. \<not> js_ws c) n"
  shows "toks (n @ s) = (n @ hd (toks s)) # tl (toks s)"
  using assms by (induction n) auto

lemma name_at_Some:
  assumes w: "is_word n" and m: "name_at n s = Some r"
  shows "hd (toks s) = n" "filter (\<lambda>t. t \<noteq> []) (tl (toks s)) = words r"
proof -
  have s: "s = n @ drop (length n) s" and nw: "list_all (\<lambda>c. \<not> js_ws c) n"
    using w m by (auto simp: name_at_def is_word_def split: if_splits)
      (metis append_take_drop_id)
  have "toks s = (n @ hd (toks (drop (length n) s))) # tl (toks (drop (length n) s))"
    by (subst s) (rule toks_take_word[OF nw])
  with m show "hd (toks s) = n" "filter (\<lambda>t. t \<noteq> []) (tl (toks s)) = words r"
    by (auto simp: name_at_def words_def split: if_splits list.splits)
qed

lemma name_at_None:
  assumes w: "is_word n" and m: "name_at n s = None"
  shows "hd (toks s) \<noteq> n"
proof
  assume h: "hd (toks s) = n"
  have pre: "\<exists>r. s = hd (toks s) @ r \<and> (r = [] \<or> js_ws (hd r))" for s
  proof (induction s)
    case (Cons c s)
    then show ?case by (cases "js_ws c") auto
  qed simp
  from pre[of s] h obtain r where "s = n @ r" "r = [] \<or> js_ws (hd r)" by auto
  with m show False by (cases r) (auto simp: name_at_def)
qed

lemma find_name_inner:
  assumes "is_word n"
  shows "case find_name n False s of
      None \<Rightarrow> n \<notin> set (tl (toks s))
    | Some (b, r) \<Rightarrow> hd (toks s) = hd (toks b) \<and> n \<notin> set (tl (toks b)) \<and>
        filter (\<lambda>t. t \<noteq> []) (tl (toks s)) = filter (\<lambda>t. t \<noteq> []) (tl (toks b)) @ n # words r"
proof (induction s)
  case (Cons c s)
  have ne: "n \<noteq> []" using assms by (simp add: is_word_def)
  show ?case
  proof (cases "js_ws c \<and> name_at n s \<noteq> None")
    case True
    then obtain r where "js_ws c" and r: "name_at n s = Some r" by auto
    moreover from name_at_Some[OF assms r] ne
    have "filter (\<lambda>t. t \<noteq> []) (toks s) = n # words r" by (cases "toks s") auto
    ultimately show ?thesis by simp
  next
    case False
    have hd_ne: "js_ws c \<Longrightarrow> hd (toks s) \<noteq> n"
      using False name_at_None[OF assms, of s] by auto
    show ?thesis
    proof (cases "find_name n False s")
      case None
      with False Cons.IH hd_ne show ?thesis
        by (cases "toks s") auto
    next
      case (Some br)
      obtain b r where br: "br = (b, r)" by (cases br)
      from Cons.IH Some br have ih: "hd (toks s) = hd (toks b)" "n \<notin> set (tl (toks b))"
        "filter (\<lambda>t. t \<noteq> []) (tl (toks s)) = filter (\<lambda>t. t \<noteq> []) (tl (toks b)) @ n # words r"
        by auto
      show ?thesis
      proof (cases "js_ws c")
        case True
        with False have f: "find_name n False (c # s) = Some (c # b, r)" using Some br by auto
        obtain h ts tb where tk: "toks s = h # ts" "toks b = h # tb"
          using ih(1) by (cases "toks s"; cases "toks b") auto
        have "n \<notin> set (toks b)" using hd_ne[OF True] ih(2) tk by simp
        moreover have "filter (\<lambda>t. t \<noteq> []) (toks s) = filter (\<lambda>t. t \<noteq> []) (toks b) @ n # words r"
          using ih(3) tk by simp
        ultimately show ?thesis using True f by simp
      next
        case False
        with Some br ih show ?thesis by simp
      qed
    qed
  qed
qed simp

lemma find_name_start:
  assumes "is_word n"
  shows "case find_name n True s of
      None \<Rightarrow> n \<notin> set (words s)
    | Some (b, r) \<Rightarrow> words s = words b @ n # words r \<and> n \<notin> set (words b)"
proof -
  have ne: "n \<noteq> []" using assms by (simp add: is_word_def)
  have words_t: "words t = (if hd (toks t) = [] then [] else [hd (toks t)]) @
      filter (\<lambda>u. u \<noteq> []) (tl (toks t))" for t
    unfolding words_def by (cases "toks t") auto
  show ?thesis
  proof (cases "name_at n s")
    case (Some r)
    note na = name_at_Some[OF assms Some]
    have first: "words s = n # words r" using words_t[of s] na ne by simp
    show ?thesis
    proof (cases s)
      case Nil
      with Some ne show ?thesis by (simp add: name_at_def)
    next
      case (Cons c t)
      have "\<not> js_ws c"
        using Some Cons assms by (cases n) (auto simp: name_at_def is_word_def split: if_splits)
      with Some Cons first show ?thesis by simp
    qed
  next
    case None
    have hd_ne: "hd (toks s) \<noteq> n" by (rule name_at_None[OF assms None])
    have eq: "find_name n True s = find_name n False s"
      using None by (cases s) (auto split: option.splits)
    note inner = find_name_inner[OF assms, of s]
    show ?thesis
    proof (cases "find_name n False s")
      case None
      with inner hd_ne eq show ?thesis by (auto simp: words_t[of s] split: if_splits)
    next
      case (Some br)
      obtain b r where "br = (b, r)" by (cases br)
      with inner hd_ne eq Some show ?thesis
        by (auto simp: words_t[of s] words_t[of b] split: if_splits)
    qed
  qed
qed

lemma hasClass_iff: "is_word n \<Longrightarrow> hasClass el n \<longleftrightarrow> n \<in> set (class_words el)"
proof (cases el)
  case (Some s)
  assume "is_word n"
  from find_name_start[OF this, of s] Some show ?thesis
    by (cases "find_name n True s") (auto simp: hasClass_def class_words_def)
qed (simp add: hasClass_def class_words_def)

lemma class_words_removeClass:
  assumes "is_word n"
  shows "class_words (removeClass el n) = remove1 n (class_words el)"
proof (cases "hasClass el n")
  case True
  then obtain s br where s: "el = Some s" and f: "find_name n True s = Some br"
    by (auto simp: hasClass_def split: option.splits)
  obtain b r where br: "br = (b, r)" by (cases br)
  from find_name_start[OF assms, of s] f br
  have "words s = words b @ n # words r" "n \<notin> set (words b)" by auto
  moreover have "words (b @ '' '' @ r) = words b @ words r" by (simp add: words_append_ws)
  ultimately show ?thesis
    using True s f br by (simp add: removeClass_def class_words_def remove1_append)
next
  case False
  with hasClass_iff[OF assms, of el] show ?thesis
    by (simp add: removeClass_def remove1_idem)
qed

lemma words_add:
  "is_word n \<Longrightarrow> words (if s \<noteq> [] then s @ '' '' @ n else n) = words s @ [n]"
  "is_word n \<Longrightarrow> words (s @ (if s \<noteq> [] then '' '' @ n else n)) = words s @ [n]"
  using words_append_ws[of "CHR '' ''" s n] by (auto simp: words_word)

lemma class_words_svg_addClass:
  "is_word n \<Longrightarrow>
   class_words (svg_addClass el n) =
     (if n \<in> set (class_words el) then class_words el else class_words el @ [n])"
  unfolding svg_addClass_def
  by (cases el) (simp_all only: hasClass_iff, simp_all add: class_words_def words_word words_add del: append_Cons)

lemma class_words_common_addClass:
  "is_word n \<Longrightarrow> el \<noteq> None \<Longrightarrow>
   class_words (common_addClass el n) =
     (if n \<in> set (class_words el) then class_words el else class_words el @ [n])"
  unfolding common_addClass_def
  by (cases el) (simp_all only: hasClass_iff, simp_all add: class_words_def words_word words_add del: append_Cons)

subsection \<open>The status names\<close>

definition statusList :: "string list" where
  "statusList = [''FAILED'', ''FAILED_FINISHING'', ''SUCCEEDED'', ''RUNNING'', ''WAITING'',
     ''KILLED'', ''DISABLED'', ''READY'', ''CANCELLED'', ''UNKNOWN'', ''PAUSED'', ''SKIPPED'',
     ''QUEUED'']"

definition statusStringMap :: "string jsobj" where
  "statusStringMap = [(''QUEUED'', ''Queued''), (''SKIPPED'', ''Skipped''),
     (''PREPARING'', ''Preparing''), (''FAILED'', ''Failed''), (''SUCCEEDED'', ''Success''),
     (''FAILED_FINISHING'', ''Running w/Failure''), (''RUNNING'', ''Running''),
     (''WAITING'', ''Waiting''), (''KILLED'', ''Killed''), (''CANCELLED'', ''Cancelled''),
     (''DISABLED'', ''Disabled''), (''READY'', ''Ready''), (''UNKNOWN'', ''Unknown''),
     (''PAUSED'', ''Paused'')]"

lemma statusList_words: "list_all is_word statusList"
  by (simp add: statusList_def is_word_def js_ws_def)

lemma statusList_distinct: "distinct statusList"
  by (simp add: statusList_def)

lemma statusList_labelled: "set statusList \<subseteq> set (obj_keys statusStringMap)"
  by (simp add: statusList_def statusStringMap_def obj_keys_def)

lemma preparing_not_listed: "''PREPARING'' \<notin> set statusList"
  by (simp add: statusList_def)

text \<open>The loop \<open>for (j...) removeClass(e, statusList[j])\<close>, for any of the class helpers.\<close>

definition remove_statuses :: "('e \<Rightarrow> string \<Rightarrow> 'e) \<Rightarrow> 'e \<Rightarrow> 'e" where
  "remove_statuses rem e = foldl rem e statusList"

subsection \<open>The interface of the class helpers\<close>

locale class_ops =
  fixes tokens :: "'e \<Rightarrow> string list"
    and has :: "'e \<Rightarrow> string \<Rightarrow> bool"
    and add :: "'e \<Rightarrow> string \<Rightarrow> 'e"
    and rem :: "'e \<Rightarrow> string \<Rightarrow> 'e"
    and good :: "'e \<Rightarrow> bool"
  assumes has_iff: "good e \<Longrightarrow> is_word n \<Longrightarrow> has e n \<longleftrightarrow> n \<in> set (tokens e)"
    and tokens_add: "good e \<Longrightarrow> is_word n \<Longrightarrow> set (tokens (add e n)) = insert n (set (tokens e))"
    and tokens_rem: "good e \<Longrightarrow> is_word n \<Longrightarrow> set (tokens (rem e n)) = set (tokens e) - {n}"
    and good_add: "good e \<Longrightarrow> is_word n \<Longrightarrow> good (add e n)"
    and good_rem: "good e \<Longrightarrow> is_word n \<Longrightarrow> good (rem e n)"
begin

lemma removes:
  "good e \<Longrightarrow> list_all is_word ns \<Longrightarrow>
   good (foldl rem e ns) \<and> set (tokens (foldl rem e ns)) = set (tokens e) - set ns"
  by (induction ns arbitrary: e) (auto simp: good_rem tokens_rem)

text \<open>After the loop no status of the list is left and every other class is as before.\<close>

lemma statuses_removed:
  "good e \<Longrightarrow> good (remove_statuses rem e) \<and>
   set (tokens (remove_statuses rem e)) = set (tokens e) - set statusList"
  unfolding remove_statuses_def by (rule removes[OF _ statusList_words])

text \<open>Painting a status: the loop, then \<open>addClass\<close> of the new one.\<close>

lemma painted:
  "good e \<Longrightarrow> is_word st \<Longrightarrow>
   set (tokens (add (remove_statuses rem e) st)) = insert st (set (tokens e) - set statusList)"
  by (simp add: statuses_removed tokens_add)

lemma painted_good: "good e \<Longrightarrow> is_word st \<Longrightarrow> good (add (remove_statuses rem e) st)"
  by (simp add: statuses_removed good_add)

lemma painted_listed:
  "good e \<Longrightarrow> st \<in> set statusList \<Longrightarrow>
   set (tokens (add (remove_statuses rem e) st)) \<inter> set statusList = {st}"
  using painted[of e st] statusList_words by (auto simp: list_all_iff)

end

definition svg_good :: "string option \<Rightarrow> bool" where
  "svg_good el \<longleftrightarrow> distinct (class_words el)"

definition common_good :: "string option \<Rightarrow> bool" where
  "common_good el \<longleftrightarrow> el \<noteq> None \<and> distinct (class_words el)"

lemma removeClass_not_None: "el \<noteq> None \<Longrightarrow> removeClass el n \<noteq> None"
  by (auto simp: removeClass_def hasClass_def split: option.splits)

interpretation svg_cls: class_ops class_words hasClass svg_addClass removeClass svg_good
  by unfold_locales
    (auto simp: svg_good_def hasClass_iff class_words_svg_addClass class_words_removeClass)

interpretation common_cls: class_ops class_words hasClass common_addClass removeClass common_good
  by unfold_locales
    (auto simp: common_good_def hasClass_iff class_words_common_addClass class_words_removeClass
       removeClass_not_None, auto simp: common_addClass_def)

subsection \<open>Sizes\<close>

definition char_is_number :: "char \<Rightarrow> bool" where
  "char_is_number c \<longleftrightarrow> is_digit c \<or> js_ws c"

text \<open>\<open>isNaN\<close> of a one-character string: \<open>Number\<close> reads a digit, and white space as 0.\<close>

definition sizeStrToBytes :: "string \<Rightarrow> jsnum" where
  "sizeStrToBytes str =
     (if length str = 0 then Fin 0
      else let unit = last str in
        if char_is_number unit then parseInt str
        else let val = parseInt (substring str 0 (length str - 1));
                 unit = to_upper [unit]
             in if unit = ''M'' then val * Fin 1048576
                else if unit = ''G'' then val * Fin 1073741824
                else val)"

lemma sizeStrToBytes_plain: "sizeStrToBytes (show_nat n) = Fin (of_nat n)"
proof -
  have "last (show_nat n) \<in> set (show_nat n)" by simp
  then have "is_digit (last (show_nat n))"
    using show_nat_digits[of n] by (auto simp: list_all_iff)
  with parseInt_show_nat[of "[]" n] show ?thesis
    by (simp add: sizeStrToBytes_def char_is_number_def)
qed

text \<open>
  A decimal size with a unit letter is read as that many mebibytes or gibibytes (either case),
  and any other unit letter leaves the number as it is.
\<close>

theorem sizeStrToBytes_unit:
  assumes "\<not> char_is_number u"
  shows "sizeStrToBytes (show_nat n @ [u]) =
    Fin (of_nat n * (if to_upper [u] = ''M'' then 2 ^ 20 else if to_upper [u] = ''G'' then 2 ^ 30 else 1))"
  using assms parseInt_show_nat[of "[]" n]
  by (simp add: sizeStrToBytes_def substring_def Let_def)

lemma sizeStrToBytes_unit_witness:
  "sizeStrToBytes ''64m'' = Fin (64 * 2 ^ 20) \<and> sizeStrToBytes ''3G'' = Fin (3 * 2 ^ 30)"
proof -
  have 1: "\<not> char_is_number (CHR ''m'')" "\<not> char_is_number (CHR ''G'')"
    by (simp_all add: char_is_number_def is_digit_def char_code_def js_ws_def)
  have "show_nat 64 = ''64''" "show_nat 3 = ''3''" "to_upper ''m'' = ''M''" "to_upper ''G'' = ''G''"
    by code_simp+
  then show ?thesis
    using sizeStrToBytes_unit[OF 1(1), of 64] sizeStrToBytes_unit[OF 1(2), of 3]
    by simp
qed

end
