(* ===== verification/Page.thy ===== *)
theory Page
  imports ClassAttr
begin

text \<open>
  What the views read and write of the page through jQuery. An element is named by the selector the
  source uses for it; its state is its class list, whether it is displayed, its text, its form value
  and its attributes. Requests, dialogs and navigation are collected as a list of effects, in the
  order in which the code causes them; an answer of the server is an argument of its handler.
\<close>

record page =
  pg_class :: "string \<Rightarrow> string list"
  pg_shown :: "string \<Rightarrow> bool"
  pg_text :: "string \<Rightarrow> string"
  pg_val :: "string \<Rightarrow> string"
  pg_attr :: "string \<Rightarrow> string \<Rightarrow> string option"

datatype effect =
  Get string "(string \<times> string) list"
| Post string "(string \<times> string) list"
| Redirect string
| OpenWindow string
| Reload
| Alert string
| Trigger string
| Modal string
| CloseModal string
| Dialog string string
| Timer int string
| Call string "string list"

definition blank_page :: page where
  "blank_page = \<lparr>pg_class = (\<lambda>_. []), pg_shown = (\<lambda>_. True), pg_text = (\<lambda>_. []), pg_val = (\<lambda>_. []),
     pg_attr = (\<lambda>_ _. None)\<rparr>"

definition jq_addClass :: "string \<Rightarrow> string \<Rightarrow> page \<Rightarrow> page" where
  "jq_addClass el c p =
     p\<lparr>pg_class := (pg_class p)(el := (if c \<in> set (pg_class p el) then pg_class p el else pg_class p el @ [c]))\<rparr>"

definition jq_removeClass :: "string \<Rightarrow> string \<Rightarrow> page \<Rightarrow> page" where
  "jq_removeClass el c p = p\<lparr>pg_class := (pg_class p)(el := filter (\<lambda>d. d \<noteq> c) (pg_class p el))\<rparr>"

definition jq_hasClass :: "string \<Rightarrow> string \<Rightarrow> page \<Rightarrow> bool" where
  "jq_hasClass el c p \<longleftrightarrow> c \<in> set (pg_class p el)"

definition show_el :: "string \<Rightarrow> page \<Rightarrow> page" where
  "show_el el p = p\<lparr>pg_shown := (pg_shown p)(el := True)\<rparr>"

definition hide_el :: "string \<Rightarrow> page \<Rightarrow> page" where
  "hide_el el p = p\<lparr>pg_shown := (pg_shown p)(el := False)\<rparr>"

definition set_text :: "string \<Rightarrow> string \<Rightarrow> page \<Rightarrow> page" where
  "set_text el s p = p\<lparr>pg_text := (pg_text p)(el := s)\<rparr>"

definition set_val :: "string \<Rightarrow> string \<Rightarrow> page \<Rightarrow> page" where
  "set_val el s p = p\<lparr>pg_val := (pg_val p)(el := s)\<rparr>"

text \<open>\<open>attr(name, value)\<close>; with the value null, None, the attribute is removed.\<close>

definition set_attr :: "string \<Rightarrow> string \<Rightarrow> string option \<Rightarrow> page \<Rightarrow> page" where
  "set_attr el a v p = p\<lparr>pg_attr := (pg_attr p)(el := (pg_attr p el)(a := v))\<rparr>"

definition is_checked :: "string \<Rightarrow> page \<Rightarrow> bool" where
  "is_checked el p \<longleftrightarrow> pg_attr p el ''checked'' \<noteq> None"

lemmas page_ops = jq_addClass_def jq_removeClass_def jq_hasClass_def show_el_def hide_el_def set_text_def
  set_val_def set_attr_def

lemma page_frame [simp, frame]:
  "pg_shown (jq_addClass e c p) = pg_shown p" "pg_shown (jq_removeClass e c p) = pg_shown p"
  "pg_shown (set_text e s p) = pg_shown p" "pg_shown (set_val e s p) = pg_shown p"
  "pg_shown (set_attr e a v p) = pg_shown p" "pg_shown (show_el e p) = (pg_shown p)(e := True)"
  "pg_shown (hide_el e p) = (pg_shown p)(e := False)"
  "pg_class (set_text e s p) = pg_class p" "pg_class (set_val e s p) = pg_class p"
  "pg_class (set_attr e a v p) = pg_class p" "pg_class (show_el e p) = pg_class p"
  "pg_class (hide_el e p) = pg_class p"
  "pg_text (jq_addClass e c p) = pg_text p" "pg_text (jq_removeClass e c p) = pg_text p"
  "pg_text (show_el e p) = pg_text p" "pg_text (hide_el e p) = pg_text p"
  "pg_text (set_val e s p) = pg_text p" "pg_text (set_attr e a v p) = pg_text p"
  "pg_text (set_text e s p) = (pg_text p)(e := s)"
  "pg_val (jq_addClass e c p) = pg_val p" "pg_val (jq_removeClass e c p) = pg_val p"
  "pg_val (set_text e s p) = pg_val p" "pg_val (set_val e s p) = (pg_val p)(e := s)"
  "pg_val (set_attr e a v p) = pg_val p" "pg_val (show_el e p) = pg_val p" "pg_val (hide_el e p) = pg_val p"
  "pg_attr (jq_addClass e c p) = pg_attr p" "pg_attr (jq_removeClass e c p) = pg_attr p"
  "pg_attr (set_text e s p) = pg_attr p" "pg_attr (set_val e s p) = pg_attr p"
  "pg_attr (show_el e p) = pg_attr p" "pg_attr (hide_el e p) = pg_attr p"
  by (simp_all add: page_ops)

lemma class_add [simp]:
  "set (pg_class (jq_addClass e c p) e') = (if e' = e then insert c (set (pg_class p e)) else set (pg_class p e'))"
  by (auto simp: jq_addClass_def)

lemma class_remove [simp]:
  "set (pg_class (jq_removeClass e c p) e') = (if e' = e then set (pg_class p e) - {c} else set (pg_class p e'))"
  by (auto simp: jq_removeClass_def)

text \<open>jQuery's class methods keep the contract of the hand-written ones.\<close>

interpretation jq_cls: class_ops "\<lambda>p. pg_class p el" "\<lambda>p c. jq_hasClass el c p" "\<lambda>p c. jq_addClass el c p"
  "\<lambda>p c. jq_removeClass el c p" "\<lambda>_. True" for el
  by unfold_locales (simp_all add: jq_hasClass_def)

subsection \<open>Tabs and groups of elements\<close>

text \<open>
  The shape of every tab handler: the link of the chosen tab becomes the only active one of its
  group, and its panel the only one displayed.
\<close>

definition only_active :: "string list \<Rightarrow> page \<Rightarrow> string \<Rightarrow> bool" where
  "only_active links p l \<longleftrightarrow> (\<forall>k \<in> set links. ''active'' \<in> set (pg_class p k) \<longleftrightarrow> k = l)"

definition only_shown :: "string list \<Rightarrow> page \<Rightarrow> string \<Rightarrow> bool" where
  "only_shown panels p l \<longleftrightarrow> (\<forall>k \<in> set panels. pg_shown p k \<longleftrightarrow> k = l)"

subsection \<open>Sequences, globals and requests\<close>

definition seq :: "('s \<Rightarrow> 's) list \<Rightarrow> 's \<Rightarrow> 's" where
  "seq fs s = foldl (\<lambda>s f. f s) s fs"

lemma seq_simps [simp]: "seq [] s = s" "seq (f # fs) s = seq fs (f s)"
  by (simp_all add: seq_def)

text \<open>The global variables that the page templates set.\<close>

record env =
  contextURL :: string
  projectName :: string
  projectId :: string
  flowId :: string
  execId :: string
  jobId :: string

text \<open>A property of an answer that may be missing, as an \<open>if\<close> sees it.\<close>

definition truthy :: "string option \<Rightarrow> bool" where
  "truthy s \<longleftrightarrow> s \<noteq> None \<and> s \<noteq> Some []"

definition text_of :: "string option \<Rightarrow> string" where
  "text_of s = (case s of None \<Rightarrow> ''undefined'' | Some t \<Rightarrow> t)"

end
