(* ===== verification/LocalTime.thy ===== *)
theory LocalTime
  imports JsString
begin

text \<open>
  Timestamps and local time. A timestamp is an \<open>int\<close> of milliseconds. What the browser's \<open>Date\<close>
  knows about the local time zone is a record of functions, a parameter of every definition that
  asks for local time; \<open>zone off\<close> is the calendar of a zone with a fixed offset.
\<close>

record calendar =
  midnight :: "int \<Rightarrow> int"
  year_of :: "int \<Rightarrow> int"
  month_of :: "int \<Rightarrow> int"
  date_of :: "int \<Rightarrow> int"
  weekday_of :: "int \<Rightarrow> int"
  hours_of :: "int \<Rightarrow> int"
  minutes_of :: "int \<Rightarrow> int"
  seconds_of :: "int \<Rightarrow> int"

abbreviation day_ms :: int where
  "day_ms \<equiv> 86400000"

abbreviation hour_ms :: int where
  "hour_ms \<equiv> 3600000"

text \<open>Year, month (0 to 11) and day of the month of a day number, counted from 1 January 1970.\<close>

definition civil :: "int \<Rightarrow> int \<times> int \<times> int" where
  "civil n =
     (let z = n + 719468; era = z div 146097; doe = z mod 146097;
          yoe = (doe - doe div 1460 + doe div 36524 - doe div 146096) div 365;
          doy = doe - (365 * yoe + yoe div 4 - yoe div 100);
          mp = (5 * doy + 2) div 153;
          d = doy - (153 * mp + 2) div 5 + 1;
          m = (if mp < 10 then mp + 2 else mp - 10)
      in (yoe + era * 400 + (if m \<le> 1 then 1 else 0), m, d))"

definition zone :: "int \<Rightarrow> calendar" where
  "zone off =
     \<lparr>midnight = (\<lambda>t. t - (t + off) mod day_ms),
      year_of = (\<lambda>t. fst (civil ((t + off) div day_ms))),
      month_of = (\<lambda>t. fst (snd (civil ((t + off) div day_ms)))),
      date_of = (\<lambda>t. snd (snd (civil ((t + off) div day_ms)))),
      weekday_of = (\<lambda>t. ((t + off) div day_ms + 4) mod 7),
      hours_of = (\<lambda>t. (t + off) mod day_ms div hour_ms),
      minutes_of = (\<lambda>t. (t + off) mod hour_ms div 60000),
      seconds_of = (\<lambda>t. (t + off) mod 60000 div 1000)\<rparr>"

text \<open>29 February 2012, 12:34:56 in a zone two hours east of Greenwich.\<close>

lemma zone_example:
  "let t = 1330511696000 - 2 * hour_ms; c = zone (2 * hour_ms) in
   (year_of c t, month_of c t, date_of c t, weekday_of c t, hours_of c t, minutes_of c t, seconds_of c t) =
   (2012, 1, 29, 3, 10, 34, 56)"
  by code_simp

end
