(* ===== verification/Dates.thy ===== *)
theory Dates
  imports LocalTime
begin

text \<open>
  \<open>util/date.js\<close>: durations and dates as text, reading a duration back, and the order of date texts.
\<close>

subsection \<open>Durations\<close>

text \<open>\<open>toFixed\<close>: rounded to \<open>k\<close> decimals, halves upwards.\<close>

definition toFixed :: "nat \<Rightarrow> rat \<Rightarrow> string" where
  "toFixed k q =
     (let n = \<lfloor>\<bar>q\<bar> * 10 ^ k + 1 / 2\<rfloor>; frac = show_nat (nat (n mod 10 ^ k)) in
      (if q < 0 then ''-'' else []) @ show_int (n div 10 ^ k) @
      (if k = 0 then [] else ''.'' @ replicate (k - length frac) (CHR ''0'') @ frac))"

definition formatDuration :: "int \<Rightarrow> nat \<Rightarrow> string" where
  "formatDuration diff millisecSig =
     (let seconds = diff div 1000 in
      if seconds < 60 then
        (if millisecSig \<noteq> 0 then toFixed millisecSig (of_int diff / 1000) @ '' s''
         else show_int seconds @ '' sec'')
      else
        (let mins = seconds div 60; seconds = seconds mod 60 in
         if mins < 60 then show_int mins @ ''m '' @ show_int seconds @ ''s''
         else
           (let hours = mins div 60; mins = mins mod 60 in
            if hours < 24 then show_int hours @ ''h '' @ show_int mins @ ''m '' @ show_int seconds @ ''s''
            else
              (let days = hours div 24; hours = hours mod 24 in
               show_int days @ ''d '' @ show_int hours @ ''h '' @ show_int mins @ ''m''))))"

text \<open>A time that is missing is None; 0 counts as missing for the start.\<close>

definition getDuration :: "int option \<Rightarrow> int option \<Rightarrow> string" where
  "getDuration startMs endMs =
     (case startMs of
        None \<Rightarrow> ''-''
      | Some s \<Rightarrow>
          if s = 0 then ''-''
          else if s = -1 then ''-''
          else (case endMs of None \<Rightarrow> ''-'' | Some e \<Rightarrow> if e < s then ''-'' else formatDuration (e - s) 0))"

subsection \<open>Dates\<close>

definition getTwoDigitStr :: "int \<Rightarrow> string" where
  "getTwoDigitStr v = (if v < 10 then ''0'' @ show_int v else show_int v)"

definition getDateFormat :: "calendar \<Rightarrow> int \<Rightarrow> string" where
  "getDateFormat c date =
     show_int (year_of c date) @ ''-'' @ getTwoDigitStr (month_of c date + 1) @ ''-'' @
     getTwoDigitStr (date_of c date) @ ''  '' @ getTwoDigitStr (hours_of c date) @ '':'' @
     getTwoDigitStr (minutes_of c date) @ '' '' @ getTwoDigitStr (seconds_of c date) @ ''s''"

definition getHourMinSec :: "calendar \<Rightarrow> int \<Rightarrow> string" where
  "getHourMinSec c date =
     getTwoDigitStr (hours_of c date) @ '':'' @ getTwoDigitStr (minutes_of c date) @ '' '' @
     getTwoDigitStr (seconds_of c date) @ ''s''"

subsection \<open>Reading a duration back\<close>

text \<open>A duration as text is a list of words: a number and its unit, or the number alone before \<open>sec\<close>.\<close>

fun word_seconds :: "string \<Rightarrow> jsnum" where
  "word_seconds w =
     (if w = ''sec'' then Fin 0
      else parseInt w * Fin (if last w = CHR ''d'' then 86400 else if last w = CHR ''h'' then 3600
        else if last w = CHR ''m'' then 60 else 1))"

declare word_seconds.simps [simp del]

definition read_duration :: "string \<Rightarrow> jsnum" where
  "read_duration s = foldl (\<lambda>a w. a + word_seconds w) (Fin 0) (words s)"

lemma show_int_nonneg: "0 \<le> i \<Longrightarrow> show_int i = show_nat (nat i)"
  by (simp add: show_int_def)

lemma show_nat_no_ws: "\<forall>c \<in> set (show_nat n). \<not> js_ws c"
  using show_nat_digits[of n] is_digit_special by (auto simp: list_all_iff)

lemma word_unit:
  assumes "0 \<le> i" "\<not> is_digit u" "u \<noteq> CHR ''x''" "u \<noteq> CHR ''X''" "u \<noteq> CHR ''c''"
  shows "word_seconds (show_int i @ [u]) = Fin (of_int i * (if u = CHR ''d'' then 86400 else if u = CHR ''h'' then 3600
        else if u = CHR ''m'' then 60 else 1))"
proof -
  have "parseInt (show_nat (nat i) @ [u]) = Fin (of_nat (nat i))"
    by (rule parseInt_show_nat) (use assms in simp)
  moreover have "show_nat (nat i) @ [u] \<noteq> ''sec''"
  proof
    assume "show_nat (nat i) @ [u] = ''sec''"
    then have "last (show_nat (nat i) @ [u]) = CHR ''c''" by simp
    with assms(5) show False by simp
  qed
  ultimately show ?thesis using assms(1,5) by (simp add: word_seconds.simps show_int_nonneg)
qed

lemma word_sec:
  assumes "0 \<le> i"
  shows "word_seconds (show_int i) = Fin (of_int i)"
proof -
  have d: "is_digit (last (show_nat (nat i)))"
    using show_nat_digits[of "nat i"] by (simp add: list_all_iff)
  have "\<not> is_digit (CHR ''d'')" "\<not> is_digit (CHR ''h'')" "\<not> is_digit (CHR ''m'')" "\<not> is_digit (CHR ''c'')"
    by code_simp+
  then have "last (show_nat (nat i)) \<noteq> CHR ''d''" "last (show_nat (nat i)) \<noteq> CHR ''h''"
    "last (show_nat (nat i)) \<noteq> CHR ''m''" "show_nat (nat i) \<noteq> ''sec''" using d by auto
  moreover have "parseInt (show_nat (nat i)) = Fin (of_nat (nat i))" using parseInt_show_nat[of "[]" "nat i"] by simp
  ultimately show ?thesis using assms by (simp add: word_seconds.simps show_int_nonneg)
qed

lemma words_space: "words (w @ '' '' @ s) = words w @ words s"
  using words_append_ws[of "CHR '' ''" w s] by simp

lemma words_number:
  assumes "0 \<le> i" "list_all (\<lambda>c. \<not> js_ws c) u"
  shows "words (show_int i @ u) = [show_int i @ u]"
  using assms show_nat_no_ws by (intro words_word) (auto simp: is_word_def show_int_nonneg list_all_iff)

lemma units: "\<not> is_digit (CHR ''d'')" "\<not> is_digit (CHR ''h'')" "\<not> is_digit (CHR ''m'')" "\<not> is_digit (CHR ''s'')"
  "\<not> js_ws (CHR ''d'')" "\<not> js_ws (CHR ''h'')" "\<not> js_ws (CHR ''m'')" "\<not> js_ws (CHR ''s'')"
  by code_simp+

text \<open>Fields of a number and a unit, with blanks between them, are read as the sum of what they stand for.\<close>

definition unit_secs :: "char \<Rightarrow> int" where
  "unit_secs u = (if u = CHR ''d'' then 86400 else if u = CHR ''h'' then 3600 else if u = CHR ''m'' then 60 else 1)"

abbreviation duration_field :: "int \<times> char \<Rightarrow> string" where
  "duration_field vu \<equiv> show_int (fst vu) @ [snd vu]"

lemma words_fields:
  assumes "vus \<noteq> []" "\<forall>vu \<in> set vus. 0 \<le> fst vu \<and> \<not> js_ws (snd vu)"
  shows "words (join '' '' (map duration_field vus)) = map duration_field vus"
  using assms
proof (induction vus rule: induct_list012)
  case (2 vu)
  then show ?case using words_number[of "fst vu" "[snd vu]"] by simp
next
  case (3 vu wu vus)
  then show ?case using words_number[of "fst vu" "[snd vu]"] words_space[of "duration_field vu" "join '' '' (map duration_field (wu # vus))"] by simp
qed simp

lemma read_fields:
  assumes "vus \<noteq> []" "\<forall>vu \<in> set vus. 0 \<le> fst vu \<and> snd vu \<in> {CHR ''d'', CHR ''h'', CHR ''m'', CHR ''s''}"
  shows "read_duration (join '' '' (map duration_field vus)) = Fin (of_int (\<Sum>vu\<leftarrow>vus. fst vu * unit_secs (snd vu)))"
proof -
  have w: "word_seconds (duration_field vu) = Fin (of_int (fst vu * unit_secs (snd vu)))" if "vu \<in> set vus" for vu
    using assms(2) that word_unit[of "fst vu" "snd vu"] units by (force simp: unit_secs_def)
  have "foldl (\<lambda>a w. a + word_seconds w) (Fin q) (map duration_field us) = Fin (q + of_int (\<Sum>vu\<leftarrow>us. fst vu * unit_secs (snd vu)))"
    if "set us \<subseteq> set vus" for us q
    using that w by (induction us arbitrary: q) (simp_all add: add.assoc)
  moreover have "words (join '' '' (map duration_field vus)) = map duration_field vus"
    using assms units by (intro words_fields) auto
  ultimately show ?thesis by (simp add: read_duration_def)
qed

lemma seconds_format:
  assumes "0 \<le> ms" "ms div 1000 < 60"
  shows "read_duration (formatDuration ms 0) = Fin (of_int (ms div 1000))"
proof -
  have s: "0 \<le> ms div 1000" using assms by simp
  have f: "formatDuration ms 0 = show_int (ms div 1000) @ '' '' @ ''sec''" using assms by (simp add: formatDuration_def)
  have "words ''sec'' = [''sec'']" "word_seconds ''sec'' = Fin 0" by code_simp+
  moreover have "words (show_int (ms div 1000)) = [show_int (ms div 1000)]" using words_number[OF s, of "[]"] by simp
  ultimately show ?thesis unfolding f read_duration_def words_space using word_sec[OF s] by simp
qed

text \<open>The fields that longer durations have.\<close>

definition duration_fields :: "int \<Rightarrow> (int \<times> char) list" where
  "duration_fields s =
     (if s div 60 < 60 then [(s div 60, CHR ''m''), (s mod 60, CHR ''s'')]
      else if s div 60 div 60 < 24 then [(s div 60 div 60, CHR ''h''), (s div 60 mod 60, CHR ''m''), (s mod 60, CHR ''s'')]
      else [(s div 60 div 60 div 24, CHR ''d''), (s div 60 div 60 mod 24, CHR ''h''), (s div 60 mod 60, CHR ''m'')])"

lemma fields_format:
  assumes "60 \<le> ms div 1000"
  shows "formatDuration ms 0 = join '' '' (map duration_field (duration_fields (ms div 1000)))"
proof -
  define s where "s = ms div 1000"
  define q where "q = s div 60"
  have "\<not> s < 60" using assms by (simp add: s_def)
  then show ?thesis
    by (simp add: formatDuration_def Let_def duration_fields_def s_def[symmetric] q_def[symmetric])
qed

lemma duration_fields_ok:
  "duration_fields s \<noteq> []"
  "0 \<le> s \<Longrightarrow> \<forall>vu \<in> set (duration_fields s). 0 \<le> fst vu \<and> snd vu \<in> {CHR ''d'', CHR ''h'', CHR ''m'', CHR ''s''}"
proof -
  show "duration_fields s \<noteq> []" by (simp add: duration_fields_def)
  assume s: "0 \<le> s"
  define q c h n d e where "q = s div 60" and "c = s mod 60" and "h = q div 60" and "n = q mod 60"
    and "d = h div 24" and "e = h mod 24"
  have "0 \<le> q" using s by (simp add: q_def)
  moreover from this have "0 \<le> h" by (simp add: h_def)
  moreover from this have "0 \<le> d" by (simp add: d_def)
  moreover have "0 \<le> c" "0 \<le> n" "0 \<le> e" by (simp_all add: c_def n_def e_def)
  ultimately show "\<forall>vu \<in> set (duration_fields s). 0 \<le> fst vu \<and> snd vu \<in> {CHR ''d'', CHR ''h'', CHR ''m'', CHR ''s''}"
    unfolding duration_fields_def q_def[symmetric] h_def[symmetric] n_def[symmetric] c_def[symmetric] d_def[symmetric]
      e_def[symmetric]
    by simp
qed

lemma fields_sum:
  "(\<Sum>vu\<leftarrow>duration_fields s. fst vu * unit_secs (snd vu)) = (if s div 60 div 60 < 24 then s else s div 60 * 60)"
proof -
  define q c h n d e where "q = s div 60" and "c = s mod 60" and "h = q div 60" and "n = q mod 60"
    and "d = h div 24" and "e = h mod 24"
  have "q * 60 + c = s" "h * 60 + n = q" "d * 24 + e = h"
    unfolding q_def c_def h_def n_def d_def e_def by (rule div_mult_mod_eq)+
  moreover have "h < 24" if "q < 60" using that by (simp add: h_def)
  ultimately show ?thesis
    unfolding duration_fields_def q_def[symmetric] h_def[symmetric] n_def[symmetric] c_def[symmetric] d_def[symmetric]
      e_def[symmetric]
    by (simp add: unit_secs_def)
qed

lemma day_fields: "ms div 1000 div 60 = ms div 60000" "ms div 1000 div 60 div 60 < 24 \<longleftrightarrow> ms < day_ms"
proof -
  show "ms div 1000 div 60 = ms div 60000" by (simp only: zdiv_zmult2_eq[symmetric]) simp
  have "ms div 1000 div 60 div 60 = ms div 3600000" by (simp only: zdiv_zmult2_eq[symmetric]) simp
  then show "ms div 1000 div 60 div 60 < 24 \<longleftrightarrow> ms < day_ms" by linarith
qed

text \<open>
  C26. A duration can be read back from its text: up to a day the text holds every whole second, from
  a day on every whole minute, and the fields below the first never overflow.
\<close>

theorem formatDuration_roundtrip:
  assumes "0 \<le> ms"
  shows "read_duration (formatDuration ms 0) =
    Fin (of_int (if ms < day_ms then ms div 1000 else ms div 60000 * 60))"
proof (cases "ms div 1000 < 60")
  case True
  then have "ms < day_ms" by simp
  then show ?thesis using seconds_format[OF assms True] by simp
next
  case False
  let ?s = "ms div 1000"
  have "read_duration (formatDuration ms 0) = Fin (of_int (\<Sum>vu\<leftarrow>duration_fields ?s. fst vu * unit_secs (snd vu)))"
    using False by (subst fields_format) (simp, rule read_fields, rule duration_fields_ok(1), rule duration_fields_ok(2), simp add: assms)
  then show ?thesis by (simp only: fields_sum day_fields(2)) (simp only: day_fields(1))
qed

theorem formatDuration_roundtrip_witness:
  "read_duration (formatDuration 3723456 0) = Fin 3723 \<and> formatDuration 3723456 0 = ''1h 2m 3s''"
proof -
  have "formatDuration 3723456 0 = ''1h 2m 3s''" by code_simp
  moreover have "read_duration (formatDuration 3723456 0) = Fin 3723"
    by (simp add: formatDuration_roundtrip[of 3723456])
  ultimately show ?thesis by blast
qed

subsection \<open>Dates sort like their text\<close>

lemma lex_append:
  "length a = length b \<Longrightarrow> a @ c < b @ d \<longleftrightarrow> a < b \<or> a = b \<and> c < (d :: string)"
proof (induction a b rule: list_induct2)
  case (Cons x xs y ys)
  then show ?case by (cases "x = y") auto
qed simp

lemma show_digits:
  assumes "0 \<le> v" "v < 100"
  shows "getTwoDigitStr v = [digit_char (nat v div 10), digit_char (nat v mod 10)]"
proof (cases "v < 10")
  case True
  with assms have "show_int v = [digit_char (nat v)]"
    by (simp add: show_int_nonneg) (subst show_nat.simps, simp)
  moreover have "nat v div 10 = 0" "nat v mod 10 = nat v" using True assms by simp_all
  moreover have "digit_char 0 = CHR ''0''" by code_simp
  ultimately show ?thesis using True by (simp add: getTwoDigitStr_def)
next
  case False
  moreover have "nat v div 10 < 10" using assms by linarith
  ultimately have "show_nat (nat v) = [digit_char (nat v div 10), digit_char (nat v mod 10)]"
    by (subst show_nat.simps) (subst show_nat.simps, simp)
  with False assms show ?thesis by (simp add: getTwoDigitStr_def show_int_nonneg)
qed

lemma digit_char_less: "a < 10 \<Longrightarrow> b < 10 \<Longrightarrow> digit_char a < digit_char b \<longleftrightarrow> a < b"
  using digit_char_code[of a] digit_char_code[of b] by (simp add: less_char_def char_code_def)

lemma two_digits_less:
  assumes "0 \<le> v" "v < 100" "0 \<le> u" "u < 100"
  shows "getTwoDigitStr v < getTwoDigitStr u \<longleftrightarrow> v < u" "getTwoDigitStr v = getTwoDigitStr u \<longleftrightarrow> v = u"
    "length (getTwoDigitStr v) = length (getTwoDigitStr u)"
proof -
  define a b c d where "a = nat v div 10" and "b = nat v mod 10" and "c = nat u div 10" and "d = nat u mod 10"
  have r: "a < 10" "b < 10" "c < 10" "d < 10" using assms by (simp_all add: a_def b_def c_def d_def)
  have inj: "digit_char i = digit_char j \<longleftrightarrow> i = j" if "i < 10" "j < 10" for i j
    using digit_val_char[OF that(1)] digit_val_char[OF that(2)] by metis
  have v: "nat v = a * 10 + b" "nat u = c * 10 + d" by (simp_all add: a_def b_def c_def d_def)
  have s: "getTwoDigitStr v = [digit_char a, digit_char b]" "getTwoDigitStr u = [digit_char c, digit_char d]"
    using show_digits assms by (simp_all add: a_def b_def c_def d_def)
  have "v < u \<longleftrightarrow> a * 10 + b < c * 10 + d" using v assms by linarith
  then show "getTwoDigitStr v < getTwoDigitStr u \<longleftrightarrow> v < u"
    unfolding s using r digit_char_less inj by auto
  have "(a * 10 + b) div 10 = a" "(a * 10 + b) mod 10 = b" "(c * 10 + d) div 10 = c" "(c * 10 + d) mod 10 = d"
    using r by simp_all
  then have eq: "a * 10 + b = c * 10 + d \<longleftrightarrow> a = c \<and> b = d" by metis
  have "v = u \<longleftrightarrow> a * 10 + b = c * 10 + d" using v assms by linarith
  then show "getTwoDigitStr v = getTwoDigitStr u \<longleftrightarrow> v = u"
    unfolding s eq using r inj by auto
  show "length (getTwoDigitStr v) = length (getTwoDigitStr u)" unfolding s by simp
qed


lemma show_year:
  assumes "1000 \<le> y" "y < 10000"
  shows "show_int y = getTwoDigitStr (y div 100) @ getTwoDigitStr (y mod 100)"
proof -
  define n where "n = nat y"
  have n: "1000 \<le> n" "n < 10000" using assms by (simp_all add: n_def)
  have hi: "nat (y div 100) = n div 100" "nat (y mod 100) = n mod 100"
    using assms by (simp_all add: n_def nat_div_distrib nat_mod_distrib)
  have "show_nat n = show_nat (n div 100) @ [digit_char (n div 10 mod 10), digit_char (n mod 10)]"
    using n div_mult2_eq[of n 10 10]
    by (simp add: show_nat.simps[of n] show_nat.simps[of "n div 10"])
  moreover have "n mod 100 div 10 = n div 10 mod 10" "n mod 100 mod 10 = n mod 10"
    using mod_mult2_eq[of n 10 10] by simp_all
  moreover have "getTwoDigitStr (y div 100) = show_nat (n div 100)"
    using assms hi by (simp add: getTwoDigitStr_def show_int_nonneg)
  moreover have "getTwoDigitStr (y mod 100) = [digit_char (nat (y mod 100) div 10), digit_char (nat (y mod 100) mod 10)]"
    by (rule show_digits) simp_all
  ultimately show ?thesis using assms hi by (simp add: show_int_nonneg n_def)
qed

lemma radix_less:
  fixes a b c d :: int
  assumes "0 \<le> b" "b < 100" "0 \<le> d" "d < 100"
  shows "a * 100 + b < c * 100 + d \<longleftrightarrow> a < c \<or> a = c \<and> b < d" "a * 100 + b = c * 100 + d \<longleftrightarrow> a = c \<and> b = d"
  using assms by (cases a c rule: linorder_cases; simp)+

lemma year_less:
  assumes "1000 \<le> y" "y < 10000" "1000 \<le> z" "z < 10000"
  shows "show_int y < show_int z \<longleftrightarrow> y < z" "show_int y = show_int z \<longleftrightarrow> y = z"
    "length (show_int y) = length (show_int z)"
proof -
  have r: "0 \<le> y div 100" "y div 100 < 100" "0 \<le> z div 100" "z div 100 < 100"
    "0 \<le> y mod 100" "y mod 100 < 100" "0 \<le> z mod 100" "z mod 100 < 100" using assms by simp_all
  note h = two_digits_less[OF r(1-4)] and l = two_digits_less[OF r(5-8)]
  have s: "show_int y = getTwoDigitStr (y div 100) @ getTwoDigitStr (y mod 100)"
    "show_int z = getTwoDigitStr (z div 100) @ getTwoDigitStr (z mod 100)" using show_year assms by simp_all
  show "length (show_int y) = length (show_int z)" unfolding s using h(3) l(3) by simp
  have "show_int y < show_int z \<longleftrightarrow> y div 100 < z div 100 \<or> y div 100 = z div 100 \<and> y mod 100 < z mod 100"
    unfolding s lex_append[OF h(3)] h(1,2) l(1) by (rule refl)
  also have "\<dots> \<longleftrightarrow> y < z" using radix_less(1)[OF r(5-8), of "y div 100" "z div 100"] by simp
  finally show "show_int y < show_int z \<longleftrightarrow> y < z" .
  have "show_int y = show_int z \<longleftrightarrow> y div 100 = z div 100 \<and> y mod 100 = z mod 100"
    unfolding s using append_eq_append_conv[of "getTwoDigitStr (y div 100)" "getTwoDigitStr (z div 100)"] h l by simp
  also have "\<dots> \<longleftrightarrow> y = z" using radix_less(2)[OF r(5-8), of "y div 100" "z div 100"] by simp
  finally show "show_int y = show_int z \<longleftrightarrow> y = z" .
qed

definition date_fields :: "calendar \<Rightarrow> int \<Rightarrow> int list" where
  "date_fields c t = [year_of c t, month_of c t, date_of c t, hours_of c t, minutes_of c t, seconds_of c t]"

definition plain_date :: "calendar \<Rightarrow> int \<Rightarrow> bool" where
  "plain_date c t \<longleftrightarrow> 1000 \<le> year_of c t \<and> year_of c t < 10000 \<and> 0 \<le> month_of c t \<and> month_of c t < 12 \<and>
     list_all (\<lambda>v. 0 \<le> v \<and> v < 100) [date_of c t, hours_of c t, minutes_of c t, seconds_of c t]"

lemma block_less:
  assumes "0 \<le> v" "v < 100" "0 \<le> u" "u < 100"
  shows "getTwoDigitStr v @ p @ s < getTwoDigitStr u @ p @ (t :: string) \<longleftrightarrow> v < u \<or> v = u \<and> s < t"
  using lex_append[OF two_digits_less(3)[OF assms]] two_digits_less(1,2)[OF assms] lex_append[of p p s t] by simp

text \<open>
  The text of a date sorts like the date: between dates with four-digit years the texts of
  \<open>getDateFormat\<close> compare as year, month, day, hour, minute and second do. The tables of the
  executions are sorted by this text.
\<close>

theorem getDateFormat_order:
  assumes "plain_date c a" "plain_date c b"
  shows "getDateFormat c a < getDateFormat c b \<longleftrightarrow> date_fields c a < date_fields c b"
proof -
  note p = assms[unfolded plain_date_def]
  have pa: "1000 \<le> year_of c a" "year_of c a < 10000" "0 \<le> month_of c a + 1" "month_of c a + 1 < 100"
    "0 \<le> date_of c a" "date_of c a < 100" "0 \<le> hours_of c a" "hours_of c a < 100"
    "0 \<le> minutes_of c a" "minutes_of c a < 100" "0 \<le> seconds_of c a" "seconds_of c a < 100" using p(1) by simp_all
  have pb: "1000 \<le> year_of c b" "year_of c b < 10000" "0 \<le> month_of c b + 1" "month_of c b + 1 < 100"
    "0 \<le> date_of c b" "date_of c b < 100" "0 \<le> hours_of c b" "hours_of c b < 100"
    "0 \<le> minutes_of c b" "minutes_of c b < 100" "0 \<le> seconds_of c b" "seconds_of c b < 100" using p(2) by simp_all
  have year: "show_int (year_of c a) @ ''-'' @ s < show_int (year_of c b) @ ''-'' @ t \<longleftrightarrow>
      year_of c a < year_of c b \<or> year_of c a = year_of c b \<and> s < t" for s t
    using lex_append[OF year_less(3)[OF pa(1,2) pb(1,2)]] year_less(1,2)[OF pa(1,2) pb(1,2)] by simp
  show ?thesis
    unfolding getDateFormat_def year block_less[OF pa(3,4) pb(3,4)] block_less[OF pa(5,6) pb(5,6)]
      block_less[OF pa(7,8) pb(7,8)] block_less[OF pa(9,10) pb(9,10)]
      block_less[OF pa(11,12) pb(11,12), of "''s''" "[]" "[]", simplified]
    by (simp add: date_fields_def add1_zle_eq)
qed

theorem getDateFormat_order_witness:
  "getDateFormat (zone 0) 1330511696000 = ''2012-02-29  10:34 56s'' \<and>
   getDateFormat (zone 0) 1330511696000 < getDateFormat (zone 0) 1330600000000"
proof -
  have "plain_date (zone 0) 1330511696000" "plain_date (zone 0) 1330600000000" by code_simp+
  note o' = getDateFormat_order[OF this]
  have "date_fields (zone 0) 1330511696000 < date_fields (zone 0) 1330600000000" by code_simp
  with o' have "getDateFormat (zone 0) 1330511696000 < getDateFormat (zone 0) 1330600000000" by blast
  moreover have "getDateFormat (zone 0) 1330511696000 = ''2012-02-29  10:34 56s''" by code_simp
  ultimately show ?thesis by blast
qed

end
