(* ===== verification/GraphWalk.thy ===== *)
theory GraphWalk
  imports Prelude
begin

text \<open>
  The shape shared by the recursive traversals of the client: visit every neighbour of a node,
  change it, recurse into it. There is no table of visited nodes, so the recursion returns
  exactly on graphs without a cycle below the start. \<open>walk\<close> counts the recursion depth with
  fuel; the locale \<open>graph_walk\<close> is the interface between a traversal and the graph it runs on,
  and proves that fuel for the longest path is enough, what the traversal changes, and that no
  fuel is enough on a cycle.
\<close>

fun fold_result :: "('s \<Rightarrow> 'a \<Rightarrow> 's result) \<Rightarrow> 's \<Rightarrow> 'a list \<Rightarrow> 's result" where
  "fold_result f s [] = Inr s"
| "fold_result f s (x # xs) = and_then (f s x) (\<lambda>s'. fold_result f s' xs)"

lemma fold_result_append:
  "fold_result f s (xs @ ys) = and_then (fold_result f s xs) (\<lambda>s'. fold_result f s' ys)"
proof (induction xs arbitrary: s)
  case (Cons x xs)
  then show ?case by (cases "f s x") auto
qed simp

lemma fold_result_ok: "(\<And>s x. x \<in> set xs \<Longrightarrow> f s x = Inr (g s x)) \<Longrightarrow> fold_result f s xs = Inr (foldl g s xs)"
  by (induction xs arbitrary: s) auto

lemma fold_result_cong [fundef_cong]:
  "s = t \<Longrightarrow> xs = ys \<Longrightarrow> (\<And>s x. x \<in> set ys \<Longrightarrow> f s x = g s x) \<Longrightarrow> fold_result f s xs = fold_result g t ys"
proof (induction ys arbitrary: s t xs)
  case (Cons y ys)
  have "fold_result f u ys = fold_result g u ys" for u by (rule Cons.IH) (use Cons.prems in simp_all)
  moreover have "f t y = g t y" using Cons.prems by simp
  ultimately show ?case using Cons.prems(1,2) by simp
qed simp

lemma fold_result_invariant:
  "fold_result f s xs = Inr s' \<Longrightarrow> P s \<Longrightarrow>
   (\<And>t x t'. x \<in> set xs \<Longrightarrow> P t \<Longrightarrow> f t x = Inr t' \<Longrightarrow> P t') \<Longrightarrow> P s'"
  by (induction xs arbitrary: s) (auto simp: and_then_Inr_iff)

fun walk :: "('g \<Rightarrow> nat \<Rightarrow> nat list) \<Rightarrow> (nat \<Rightarrow> 'g \<Rightarrow> 'g) \<Rightarrow> nat \<Rightarrow> nat \<Rightarrow> 'g \<Rightarrow> 'g result" where
  "walk nbrs mark 0 i g = Inl NoReturn"
| "walk nbrs mark (Suc fuel) i g =
     fold_result (\<lambda>g k. walk nbrs mark fuel k (mark k g)) g (nbrs g i)"

definition arcs :: "('g \<Rightarrow> nat \<Rightarrow> nat list) \<Rightarrow> 'g \<Rightarrow> (nat \<times> nat) set" where
  "arcs nbrs g = {(i, k). k \<in> set (nbrs g i)}"

text \<open>The number of nodes below a node, a bound for the depth of the recursion.\<close>

definition below :: "('g \<Rightarrow> nat \<Rightarrow> nat list) \<Rightarrow> 'g \<Rightarrow> nat \<Rightarrow> nat set" where
  "below nbrs g i = {j. (i, j) \<in> (arcs nbrs g)\<^sup>+}"

lemma acyclic_by_rank: "(\<And>a b. (a, b) \<in> r \<Longrightarrow> f b < (f a :: nat)) \<Longrightarrow> acyclic r"
proof -
  assume r: "\<And>a b. (a, b) \<in> r \<Longrightarrow> f b < f a"
  have "(a, b) \<in> r\<^sup>+ \<Longrightarrow> f b < f a" for a b
    by (induction rule: trancl_induct) (auto dest: r)
  then show ?thesis by (auto simp: acyclic_def)
qed

lemma acyclicD_rank: "(i, j) \<in> r\<^sup>+ \<Longrightarrow> (\<And>a b. (a, b) \<in> r \<Longrightarrow> f b < (f a :: nat)) \<Longrightarrow> f j < f i"
proof (induction rule: trancl_induct)
  case (step y z)
  then show ?case by (metis less_trans)
qed blast

locale graph_walk =
  fixes nbrs :: "'g \<Rightarrow> nat \<Rightarrow> nat list"
    and mark :: "nat \<Rightarrow> 'g \<Rightarrow> 'g"
    and nodes_of :: "'g \<Rightarrow> nat"
  assumes nbrs_mark: "nbrs (mark k g) = nbrs g"
    and nodes_mark: "nodes_of (mark k g) = nodes_of g"
begin

text \<open>Every reference of the graph is to one of its nodes.\<close>

definition bounded :: "'g \<Rightarrow> bool" where
  "bounded g \<longleftrightarrow> (\<forall>i k. k \<in> set (nbrs g i) \<longrightarrow> k < nodes_of g)"

lemma bounded_mark [simp]: "bounded (mark k g) = bounded g"
  by (simp add: bounded_def nbrs_mark nodes_mark)

lemma arcs_mark [simp]: "arcs nbrs (mark k g) = arcs nbrs g"
  by (simp add: arcs_def nbrs_mark)

lemma marks_frame:
  "nbrs (foldl (\<lambda>g k. mark k g) g ks) = nbrs g \<and>
   nodes_of (foldl (\<lambda>g k. mark k g) g ks) = nodes_of g \<and> arcs nbrs (foldl (\<lambda>g k. mark k g) g ks) = arcs nbrs g"
  by (induction ks arbitrary: g) (auto simp: nbrs_mark nodes_mark)

lemma below_bound: "bounded g \<Longrightarrow> below nbrs g i \<subseteq> {..<nodes_of g}"
proof
  fix j
  assume "bounded g" "j \<in> below nbrs g i"
  then have b: "bounded g" and "(i, j) \<in> (arcs nbrs g)\<^sup>+" by (simp_all add: below_def)
  from this(2) show "j \<in> {..<nodes_of g}"
    by (cases rule: tranclE) (use b in \<open>auto simp: arcs_def bounded_def\<close>)
qed

lemma finite_below: "bounded g \<Longrightarrow> finite (below nbrs g i)"
  by (rule finite_subset[OF below_bound]) simp_all

lemma below_step: "k \<in> set (nbrs g i) \<Longrightarrow> insert k (below nbrs g k) \<subseteq> below nbrs g i"
  by (auto simp: below_def arcs_def intro: trancl_into_trancl2)

lemma below_unfold: "below nbrs g i = (\<Union>k \<in> set (nbrs g i). insert k (below nbrs g k))"
proof
  show "below nbrs g i \<subseteq> (\<Union>k \<in> set (nbrs g i). insert k (below nbrs g k))"
  proof
    fix j
    assume "j \<in> below nbrs g i"
    then obtain k where "(i, k) \<in> arcs nbrs g" "(k, j) \<in> (arcs nbrs g)\<^sup>*"
      unfolding below_def using tranclD by fastforce
    then show "j \<in> (\<Union>k \<in> set (nbrs g i). insert k (below nbrs g k))"
      by (auto simp: below_def arcs_def rtrancl_eq_or_trancl)
  qed
qed (use below_step in fast)

lemma below_less:
  assumes "acyclic (arcs nbrs g)" "bounded g" "k \<in> set (nbrs g i)"
  shows "card (below nbrs g k) < card (below nbrs g i)"
proof (rule psubset_card_mono)
  have "k \<notin> below nbrs g k" using assms(1) by (simp add: below_def acyclic_def)
  then show "below nbrs g k \<subset> below nbrs g i" using below_step[OF assms(3)] by blast
qed (rule finite_below[OF assms(2)])

lemma below_card: "acyclic (arcs nbrs g) \<Longrightarrow> bounded g \<Longrightarrow> i < nodes_of g \<Longrightarrow> card (below nbrs g i) < nodes_of g"
proof -
  assume a: "acyclic (arcs nbrs g)" "i < nodes_of g" and "bounded g"
  then have "below nbrs g i \<subseteq> {..<nodes_of g} - {i}"
    using below_bound by (auto simp: below_def acyclic_def)
  then have "card (below nbrs g i) \<le> card ({..<nodes_of g} - {i})" by (intro card_mono) auto
  with a(2) show ?thesis by simp
qed

text \<open>On an acyclic graph the traversal returns, and it marks exactly the nodes below the start.\<close>

lemma walk_marks:
  assumes "acyclic (arcs nbrs g)" "bounded g" "card (below nbrs g i) < fuel"
  shows "\<exists>ks. walk nbrs mark fuel i g = Inr (foldl (\<lambda>g k. mark k g) g ks) \<and> set ks = below nbrs g i"
  using assms
proof (induction fuel arbitrary: i g)
  case (Suc fuel)
  have loop: "set xs \<subseteq> set (nbrs g i) \<Longrightarrow> nbrs h = nbrs g \<Longrightarrow> nodes_of h = nodes_of g \<Longrightarrow>
    \<exists>ks. fold_result (\<lambda>g k. walk nbrs mark fuel k (mark k g)) h xs = Inr (foldl (\<lambda>g k. mark k g) h ks) \<and>
      set ks = (\<Union>k \<in> set xs. insert k (below nbrs g k))" for xs h
  proof (induction xs arbitrary: h)
    case Nil
    then show ?case by (intro exI[of _ "[]"]) simp
  next
    case (Cons x xs)
    have x: "x \<in> set (nbrs g i)" using Cons.prems by simp
    have same: "nbrs (mark x h) = nbrs g" using Cons.prems(2) by (simp add: nbrs_mark)
    then have eqs: "arcs nbrs (mark x h) = arcs nbrs g" "below nbrs (mark x h) = below nbrs g"
      by (auto simp: arcs_def below_def fun_eq_iff)
    have "card (below nbrs g x) < fuel" using below_less[OF Suc.prems(1,2) x] Suc.prems(3) by simp
    moreover have "bounded (mark x h)"
      using Suc.prems(2) Cons.prems(2,3) by (simp add: bounded_def nbrs_mark nodes_mark)
    ultimately obtain ks where
      ks: "walk nbrs mark fuel x (mark x h) = Inr (foldl (\<lambda>g k. mark k g) (mark x h) ks)"
        "set ks = below nbrs g x"
      using Suc.IH[of "mark x h" x] eqs Suc.prems(1) by auto
    define h' where "h' = foldl (\<lambda>g k. mark k g) (mark x h) ks"
    have "nbrs h' = nbrs g" "nodes_of h' = nodes_of g"
      using marks_frame[of "mark x h" ks] same Cons.prems(3) by (simp_all add: h'_def nodes_mark)
    with Cons.IH[of h'] Cons.prems obtain ks' where
      "fold_result (\<lambda>g k. walk nbrs mark fuel k (mark k g)) h' xs = Inr (foldl (\<lambda>g k. mark k g) h' ks')"
      "set ks' = (\<Union>k \<in> set xs. insert k (below nbrs g k))" by auto
    with ks show ?case by (intro exI[of _ "x # ks @ ks'"]) (auto simp: h'_def)
  qed
  from loop[of "nbrs g i" g] show ?case by (simp add: below_unfold[symmetric])
qed simp

lemma walk_returns:
  "acyclic (arcs nbrs g) \<Longrightarrow> bounded g \<Longrightarrow> i < nodes_of g \<Longrightarrow>
   \<exists>ks. walk nbrs mark (nodes_of g) i g = Inr (foldl (\<lambda>g k. mark k g) g ks) \<and> set ks = below nbrs g i"
  by (rule walk_marks) (auto intro: below_card)

lemma walk_only_error: "walk nbrs mark f j h = Inl e \<Longrightarrow> e = NoReturn"
proof (induction f arbitrary: j h)
  case (Suc f)
  have "fold_result (\<lambda>g k. walk nbrs mark f k (mark k g)) h xs = Inl e \<Longrightarrow> e = NoReturn" for xs h
    by (induction xs arbitrary: h) (auto simp: and_then_Inl_iff dest: Suc.IH)
  with Suc.prems show ?case by simp
qed simp

lemma walk_keeps: "walk nbrs mark f j h = Inr h' \<Longrightarrow> nbrs h' = nbrs h"
proof (induction f arbitrary: j h h')
  case (Suc f)
  from Suc.prems have "fold_result (\<lambda>g k. walk nbrs mark f k (mark k g)) h (nbrs h j) = Inr h'" by simp
  then show ?case
  proof (rule fold_result_invariant[where P = "\<lambda>t. nbrs t = nbrs h"])
    fix t x t'
    assume t: "nbrs t = nbrs h" and w: "walk nbrs mark f x (mark x t) = Inr t'"
    from Suc.IH[OF w] show "nbrs t' = nbrs h" by (simp only: nbrs_mark t)
  qed simp
qed simp

text \<open>A loop over neighbours does not return once the traversal of one of them does not.\<close>

lemma walk_loop_diverges:
  assumes "k \<in> set xs" "\<And>h. nbrs h = N \<Longrightarrow> walk nbrs mark f k (mark k h) = Inl NoReturn" "nbrs h = N"
  shows "fold_result (\<lambda>g k. walk nbrs mark f k (mark k g)) h xs = Inl NoReturn"
  using assms(1,3)
proof (induction xs arbitrary: h)
  case (Cons x xs)
  show ?case
  proof (cases "x = k")
    case True
    then show ?thesis using assms(2)[OF Cons.prems(2)] by simp
  next
    case False
    show ?thesis
    proof (cases "walk nbrs mark f x (mark x h)")
      case (Inl e)
      with walk_only_error show ?thesis by auto
    next
      case (Inr h')
      from walk_keeps[OF Inr] have "nbrs h' = N" by (simp only: nbrs_mark Cons.prems(2))
      with Cons False Inr show ?thesis by simp
    qed
  qed
qed simp

text \<open>
  From a set of nodes each of which has a neighbour in the set, no amount of fuel lets the
  traversal return.
\<close>

lemma walk_diverges:
  assumes "i \<in> C" "\<And>c. c \<in> C \<Longrightarrow> \<exists>k \<in> set (nbrs g c). k \<in> C"
  shows "walk nbrs mark fuel i g = Inl NoReturn"
  using assms
proof (induction fuel arbitrary: i g)
  case (Suc fuel)
  from Suc.prems(2)[OF Suc.prems(1)] obtain k where k: "k \<in> set (nbrs g i)" "k \<in> C" by blast
  have "walk nbrs mark fuel k (mark k h) = Inl NoReturn" if h: "nbrs h = nbrs g" for h
  proof (rule Suc.IH[OF k(2)])
    fix c
    assume "c \<in> C"
    then have "\<exists>k \<in> set (nbrs g c). k \<in> C" by (rule Suc.prems(2))
    then show "\<exists>j \<in> set (nbrs (mark k h) c). j \<in> C" by (simp only: nbrs_mark h)
  qed
  then have "fold_result (\<lambda>g k. walk nbrs mark fuel k (mark k g)) g (nbrs g i) = Inl NoReturn"
    by (rule walk_loop_diverges[OF k(1)]) simp_all
  then show ?case by simp
qed simp

end

end
