(* ===== verification/FlowModel.thy ===== *)
theory FlowModel
  imports GraphWalk
begin

text \<open>
  \<open>model/svg-graph.js\<close>: the graph model of a flow. A flow is the object the server sends: its
  own attributes and the list of its nodes, each of which may be an embedded flow with nodes of
  its own. The client's references between nodes of one flow (\<open>inNodes\<close>, \<open>outNodes\<close>,
  \<open>nodeMap\<close>) are positions in that list, so that two names for the same object stay two names
  for the same object; the reference to the parent is the place in the tree. An undefined type or
  status is the empty string, undefined \<open>nodes\<close> the empty list.
\<close>

record nattr =
  n_id :: string
  n_type :: string
  n_status :: string
  n_in :: "string list option"
  n_inNodes :: "nat jsobj option"
  n_outNodes :: "nat jsobj option"
  n_disabled :: bool
  n_nodeMap :: "nat jsobj"
  n_edges :: "(string \<times> string) list"

datatype jnode = JNode (attr: nattr) (nodes: "jnode list")

fun upd_attr :: "(nattr \<Rightarrow> nattr) \<Rightarrow> jnode \<Rightarrow> jnode" where
  "upd_attr f (JNode a ns) = JNode (f a) ns"

lemma upd_attr_sel [simp]: "attr (upd_attr f n) = f (attr n)" "nodes (upd_attr f n) = nodes n"
  by (cases n; simp)+

definition is_flow :: "nattr \<Rightarrow> bool" where
  "is_flow a \<longleftrightarrow> n_type a = ''flow''"

lemma size_nth_node [simp]: "k < length ns \<Longrightarrow> size_list size (nodes (ns ! k)) < size_list size ns"
proof -
  assume "k < length ns"
  then have "ns ! k \<in> set ns" by simp
  moreover have "size_list size (nodes (ns ! k)) < size (ns ! k)" by (cases "ns ! k") simp
  ultimately show ?thesis by (rule size_list_estimation)
qed

subsection \<open>processFlowData\<close>

text \<open>The first loop: the map from names to nodes, and the default status.\<close>

definition node_map :: "string list \<Rightarrow> nat jsobj" where
  "node_map ids = foldl (\<lambda>m i. obj_set (ids ! i) i m) [] [0..<length ids]"

definition default_status :: "nattr \<Rightarrow> nattr" where
  "default_status a = (if n_status a = [] then a\<lparr>n_status := ''READY''\<rparr> else a)"

text \<open>
  The second loop runs over the nodes and, in each, over the names of its predecessors;
  \<open>in_pairs\<close> lists the pairs in that order. One round looks the predecessor up (a name that
  is no node is a TypeError), and enters the two nodes into each other's maps.
\<close>

definition in_names :: "nattr \<Rightarrow> string list" where
  "in_names a = (case n_in a of None \<Rightarrow> [] | Some ps \<Rightarrow> ps)"

definition in_pairs :: "nattr list \<Rightarrow> (nat \<times> string) list" where
  "in_pairs as = concat (map (\<lambda>i. map (\<lambda>p. (i, p)) (in_names (as ! i))) [0..<length as])"

definition or_empty :: "'v jsobj option \<Rightarrow> 'v jsobj" where
  "or_empty mo = (case mo of None \<Rightarrow> [] | Some m \<Rightarrow> m)"

definition link_edge ::
  "nat jsobj \<Rightarrow> nattr list \<times> (string \<times> string) list \<Rightarrow> nat \<times> string \<Rightarrow>
   (nattr list \<times> (string \<times> string) list) result" where
  "link_edge nmap st ip =
     (let (as, edges) = st; (i, p) = ip in
      case obj_get nmap p of
        None \<Rightarrow> Inl TypeError
      | Some k \<Rightarrow>
          let fromId = n_id (as ! k); toId = n_id (as ! i);
              as1 = upd_at k (\<lambda>a. a\<lparr>n_outNodes := Some (obj_set toId i (or_empty (n_outNodes a)))\<rparr>) as;
              as2 = upd_at i (\<lambda>a. a\<lparr>n_inNodes := Some (obj_set fromId k (or_empty (n_inNodes a)))\<rparr>) as1
          in Inr (as2, edges @ [(fromId, toId)]))"

definition link_nodes ::
  "nat jsobj \<Rightarrow> nattr list \<Rightarrow> (nattr list \<times> (string \<times> string) list) result" where
  "link_nodes nmap as = fold_result (link_edge nmap) (as, []) (in_pairs as)"

text \<open>The whole: the third loop recurses into the embedded flows the node map reaches.\<close>

function (sequential) processFlowData :: "jnode \<Rightarrow> jnode result" where
  "processFlowData (JNode a ns) =
     (let m = node_map (map (n_id \<circ> attr) ns) in
      and_then (link_nodes m (map (default_status \<circ> attr) ns)) (\<lambda>(as, edges).
      and_then (map_result (\<lambda>k.
          if k \<in> snd ` set m \<and> is_flow (as ! k)
          then processFlowData (JNode (as ! k) (nodes (ns ! k)))
          else Inr (JNode (as ! k) (nodes (ns ! k)))) [0..<length ns]) (\<lambda>ns'.
      Inr (JNode (a\<lparr>n_nodeMap := m, n_edges := edges\<rparr>) ns'))))"
  by pat_completeness auto
termination by (relation "measure size") auto

declare processFlowData.simps [simp del]

text \<open>\<open>addFlow\<close> processes the data and makes it the model's \<open>data\<close> attribute.\<close>

definition addFlow :: "jnode \<Rightarrow> jnode result" where
  "addFlow data = processFlowData data"

subsection \<open>What the node map holds\<close>

lemma node_map_upto:
  "n \<le> length ids \<Longrightarrow> distinct ids \<Longrightarrow>
   obj_get (foldl (\<lambda>m i. obj_set (ids ! i) i m) [] [0..<n]) p = Some k \<longleftrightarrow> k < n \<and> ids ! k = p"
proof (induction n)
  case (Suc n)
  then have ne: "k < n \<Longrightarrow> ids ! k \<noteq> ids ! n" for k
    by (simp add: nth_eq_iff_index_eq)
  show ?case
  proof (cases "p = ids ! n")
    case True
    with ne show ?thesis by (auto simp: less_Suc_eq)
  next
    case False
    with Suc show ?thesis by (auto simp: less_Suc_eq)
  qed
qed simp

lemma node_map_get: "distinct ids \<Longrightarrow> obj_get (node_map ids) p = Some k \<longleftrightarrow> k < length ids \<and> ids ! k = p"
  unfolding node_map_def by (rule node_map_upto) simp_all

lemma node_map_None: "distinct ids \<Longrightarrow> obj_get (node_map ids) p = None \<longleftrightarrow> p \<notin> set ids"
  using node_map_get[of ids p] by (metis in_set_conv_nth not_None_eq)

lemma node_map_distinct_keys: "distinct (obj_keys (node_map ids))"
  unfolding node_map_def by (rule foldl_invariant) (auto simp: distinct_obj_set, simp add: obj_keys_def)

lemma node_map_values: "distinct ids \<Longrightarrow> snd ` set (node_map ids) = {..<length ids}"
proof -
  assume d: "distinct ids"
  have "(p, k) \<in> set (node_map ids) \<longleftrightarrow> k < length ids \<and> ids ! k = p" for p k
    using node_map_get[OF d, of p k] obj_get_distinct[OF node_map_distinct_keys, of p k ids]
      obj_get_Some_in[of "node_map ids" p k] by blast
  then have "set (node_map ids) = {(ids ! k, k) | k. k < length ids}" by force
  then show ?thesis by force
qed

subsection \<open>The links\<close>

definition in_get :: "nattr list \<Rightarrow> nat \<Rightarrow> string \<Rightarrow> nat option" where
  "in_get as i p = obj_get (or_empty (n_inNodes (as ! i))) p"

definition out_get :: "nattr list \<Rightarrow> nat \<Rightarrow> string \<Rightarrow> nat option" where
  "out_get as i p = obj_get (or_empty (n_outNodes (as ! i))) p"

text \<open>The attributes that linking leaves alone.\<close>

definition plain :: "nattr \<Rightarrow> nattr" where
  "plain a = a\<lparr>n_inNodes := None, n_outNodes := None\<rparr>"

lemma plain_fields:
  "plain a = plain b \<Longrightarrow> n_id a = n_id b \<and> n_type a = n_type b \<and> n_in a = n_in b \<and>
     n_status a = n_status b \<and> n_disabled a = n_disabled b"
  by (cases a; cases b) (auto simp: plain_def)

lemma plain_map_nth: "map plain as = map plain bs \<Longrightarrow> i < length as \<Longrightarrow> plain (as ! i) = plain (bs ! i)"
  by (metis length_map nth_map)

text \<open>
  What holds after the pairs \<open>ps\<close> have been linked: node \<open>i\<close> knows its predecessor \<open>p\<close>
  exactly if that pair was seen, and node \<open>k\<close> knows a successor exactly if the converse holds.
\<close>

definition links :: "nat jsobj \<Rightarrow> nattr list \<Rightarrow> (nat \<times> string) set \<Rightarrow> nattr list \<Rightarrow> bool" where
  "links m as0 ps as \<longleftrightarrow>
     map plain as = map plain as0 \<and> fst ` ps \<subseteq> {..<length as0} \<and>
     (\<forall>i < length as. \<forall>p. in_get as i p = (if (i, p) \<in> ps then obj_get m p else None)) \<and>
     (\<forall>k < length as. \<forall>q i. out_get as k q = Some i \<longleftrightarrow>
        (\<exists>p. (i, p) \<in> ps \<and> n_id (as0 ! i) = q \<and> obj_get m p = Some k))"

lemma links_length: "links m as0 ps as \<Longrightarrow> length as = length as0"
  unfolding links_def by (metis length_map)

lemma links_id: "links m as0 ps as \<Longrightarrow> i < length as0 \<Longrightarrow> n_id (as ! i) = n_id (as0 ! i)"
  using links_length plain_map_nth plain_fields unfolding links_def by metis

lemma link_edge_links:
  assumes "links m as0 ps as" "distinct (map n_id as0)" "m = node_map (map n_id as0)"
    "i < length as0" "link_edge m (as, es) (i, p) = Inr (as', es')"
  shows "links m as0 (insert (i, p) ps) as' \<and> es' = es @ [(p, n_id (as0 ! i))]"
proof -
  obtain k where k: "obj_get m p = Some k" "k < length as0" "n_id (as0 ! k) = p"
    using assms(2,3,5) node_map_get[OF assms(2)] by (auto simp: link_edge_def split: option.splits)
  have len: "length as = length as0" by (rule links_length[OF assms(1)])
  have ids: "n_id (as ! k) = p" "n_id (as ! i) = n_id (as0 ! i)"
    using links_id[OF assms(1)] k assms(4) by auto
  define as1 where "as1 = upd_at k (\<lambda>a. a\<lparr>n_outNodes := Some (obj_set (n_id (as0 ! i)) i (or_empty (n_outNodes a)))\<rparr>) as"
  have as': "as' = upd_at i (\<lambda>a. a\<lparr>n_inNodes := Some (obj_set p k (or_empty (n_inNodes a)))\<rparr>) as1"
    and es': "es' = es @ [(p, n_id (as0 ! i))]"
    using assms(5) k ids by (auto simp: link_edge_def as1_def Let_def)
  have pl: "map plain as' = map plain as0"
    using assms(1) by (simp add: as' as1_def map_upd_at plain_def links_def)
  have ig: "in_get as' j q = (if j = i \<and> q = p then Some k else in_get as j q)" if "j < length as0" for j q
    using that len by (auto simp: in_get_def as' as1_def nth_upd_at or_empty_def)
  have og: "out_get as' j q = (if j = k \<and> q = n_id (as0 ! i) then Some i else out_get as j q)" if "j < length as0" for j q
    using that len by (auto simp: out_get_def as' as1_def nth_upd_at or_empty_def)
  have inj: "n_id (as0 ! j) = n_id (as0 ! i) \<longleftrightarrow> j = i" if "j < length as0" for j
    using assms(2,4) that by (metis length_map nth_eq_iff_index_eq nth_map)
  have "out_get as' j q = Some l \<longleftrightarrow>
      (\<exists>p'. (l, p') \<in> insert (i, p) ps \<and> n_id (as0 ! l) = q \<and> obj_get m p' = Some j)"
    if j: "j < length as0" for j q l
  proof (cases "j = k \<and> q = n_id (as0 ! i)")
    case True
    have "(l, p') \<in> ps \<Longrightarrow> n_id (as0 ! l) = q \<Longrightarrow> l = i" for p'
      using assms(1) inj[of l] True by (fastforce simp: links_def)
    with True k og[OF j, of q] show ?thesis by auto
  next
    case False
    with og[OF j, of q] assms(1) j len k(1) show ?thesis by (auto simp: links_def)
  qed
  moreover have "in_get as' j q = (if (j, q) \<in> insert (i, p) ps then obj_get m q else None)"
    if "j < length as0" for j q
    using ig[OF that, of q] assms(1) that len k(1) by (auto simp: links_def)
  moreover have "length as' = length as0" using pl by (metis length_map)
  moreover have "fst ` insert (i, p) ps \<subseteq> {..<length as0}" using assms(1,4) by (auto simp: links_def)
  ultimately show ?thesis using pl es' unfolding links_def by simp
qed

lemma link_nodes_links:
  assumes "distinct (map n_id as0)" "m = node_map (map n_id as0)"
    "\<And>a. a \<in> set as0 \<Longrightarrow> n_inNodes a = None \<and> n_outNodes a = None"
    "fold_result (link_edge m) (as0, []) pairs = Inr (as, es)" "fst ` set pairs \<subseteq> {..<length as0}"
  shows "links m as0 (set pairs) as \<and> es = map (\<lambda>(i, p). (p, n_id (as0 ! i))) pairs"
  using assms(4,5)
proof (induction pairs arbitrary: as es rule: rev_induct)
  case Nil
  then show ?case
    using assms(3) by (auto simp: links_def in_get_def out_get_def or_empty_def)
next
  case (snoc ip pairs)
  obtain i p where ip: "ip = (i, p)" by (cases ip)
  from snoc.prems(1) obtain as1 es1 where
    "fold_result (link_edge m) (as0, []) pairs = Inr (as1, es1)"
    "link_edge m (as1, es1) (i, p) = Inr (as, es)"
    by (auto simp: fold_result_append and_then_Inr_iff ip split: prod.splits)
  with snoc.IH[of as1 es1] link_edge_links[of m as0 "set pairs" as1 i es1 p as es] snoc.prems(2) assms(1,2)
  show ?case by (auto simp: ip)
qed

lemma in_pairs_mem: "(i, p) \<in> set (in_pairs as) \<longleftrightarrow> i < length as \<and> p \<in> set (in_names (as ! i))"
  by (auto simp: in_pairs_def)

lemma link_nodes_ok:
  "(\<exists>r. fold_result (link_edge m) (as, es) pairs = Inr r) \<longleftrightarrow> (\<forall>(i, p) \<in> set pairs. obj_get m p \<noteq> None)"
proof (induction pairs arbitrary: as es)
  case (Cons ip pairs)
  obtain i p where ip: "ip = (i, p)" by (cases ip)
  show ?case
  proof (cases "obj_get m p")
    case None
    then show ?thesis by (simp add: ip link_edge_def)
  next
    case (Some k)
    then obtain as1 es1 where "link_edge m (as, es) ip = Inr (as1, es1)"
      by (auto simp: link_edge_def Let_def ip)
    with Cons.IH[of as1 es1] Some show ?thesis by (simp add: ip)
  qed
qed simp

subsection \<open>Well-formed graphs\<close>

text \<open>
  \<open>linked\<close> is the invariant the views rely on: in every flow of the tree the node map finds
  each node by its name, the edge list names every dependency once, a node's \<open>inNodes\<close> are
  the nodes it names in \<open>in\<close>, its \<open>outNodes\<close> the nodes that name it, and no status is
  missing. \<open>fresh\<close> and \<open>names_closed\<close> describe what the server sends: unique names, no links
  yet, and every name in \<open>in\<close> is a node of the same flow.
\<close>

definition node_ids :: "jnode list \<Rightarrow> string list" where
  "node_ids ns = map (n_id \<circ> attr) ns"

fun linked :: "jnode \<Rightarrow> bool" where
  "linked (JNode a ns) \<longleftrightarrow>
     (let as = map attr ns in
      n_nodeMap a = node_map (node_ids ns) \<and>
      n_edges a = map (\<lambda>(i, p). (p, n_id (as ! i))) (in_pairs as) \<and>
      (\<forall>i < length ns. \<forall>p. in_get as i p =
         (if p \<in> set (in_names (as ! i)) then obj_get (n_nodeMap a) p else None)) \<and>
      (\<forall>k < length ns. \<forall>q i. out_get as k q = Some i \<longleftrightarrow>
         i < length ns \<and> n_id (as ! i) = q \<and> n_id (as ! k) \<in> set (in_names (as ! i))) \<and>
      (\<forall>n \<in> set ns. n_status (attr n) \<noteq> [] \<and> (is_flow (attr n) \<longrightarrow> linked n)))"

fun fresh :: "jnode \<Rightarrow> bool" where
  "fresh (JNode a ns) \<longleftrightarrow> distinct (node_ids ns) \<and>
     (\<forall>n \<in> set ns. n_inNodes (attr n) = None \<and> n_outNodes (attr n) = None \<and>
        (is_flow (attr n) \<longrightarrow> fresh n))"

fun names_closed :: "jnode \<Rightarrow> bool" where
  "names_closed (JNode a ns) \<longleftrightarrow>
     (\<forall>n \<in> set ns. set (in_names (attr n)) \<subseteq> set (node_ids ns) \<and> (is_flow (attr n) \<longrightarrow> names_closed n))"

declare linked.simps [simp del] fresh.simps [simp del] names_closed.simps [simp del]

lemma fresh_root [simp]: "fresh (JNode b (nodes n)) = fresh n"
  by (cases n) (simp add: fresh.simps)

lemma names_closed_root [simp]: "names_closed (JNode b (nodes n)) = names_closed n"
  by (cases n) (simp add: names_closed.simps)

lemma default_status_fields [simp]:
  "n_id (default_status a) = n_id a" "n_type (default_status a) = n_type a"
  "n_in (default_status a) = n_in a" "n_status (default_status a) \<noteq> []"
  "n_inNodes (default_status a) = n_inNodes a" "n_outNodes (default_status a) = n_outNodes a"
  by (auto simp: default_status_def)

lemma in_names_default [simp]: "in_names (default_status a) = in_names a"
  by (simp add: in_names_def)

text \<open>One level: linking succeeds exactly on closed names, and gives the links.\<close>

lemma link_level:
  fixes ns defines "as0 \<equiv> map (default_status \<circ> attr) ns" and "m \<equiv> node_map (node_ids ns)"
  assumes d: "distinct (node_ids ns)"
    and fr: "\<forall>n \<in> set ns. n_inNodes (attr n) = None \<and> n_outNodes (attr n) = None"
  shows "(\<exists>r. link_nodes m as0 = Inr r) \<longleftrightarrow> (\<forall>n \<in> set ns. set (in_names (attr n)) \<subseteq> set (node_ids ns))"
    and "link_nodes m as0 = Inr (as, es) \<Longrightarrow>
      links m as0 (set (in_pairs as0)) as \<and> es = map (\<lambda>(i, p). (p, n_id (as0 ! i))) (in_pairs as0)"
proof -
  have ids: "map n_id as0 = node_ids ns" by (simp add: as0_def node_ids_def)
  have "(\<exists>r. link_nodes m as0 = Inr r) \<longleftrightarrow> (\<forall>(i, p) \<in> set (in_pairs as0). p \<in> set (node_ids ns))"
    unfolding link_nodes_def link_nodes_ok by (simp add: m_def node_map_None[OF d])
  also have "\<dots> \<longleftrightarrow> (\<forall>i p. (i, p) \<in> set (in_pairs as0) \<longrightarrow> p \<in> set (node_ids ns))" by blast
  also have "\<dots> \<longleftrightarrow> (\<forall>i p. i < length ns \<and> p \<in> set (in_names (attr (ns ! i))) \<longrightarrow> p \<in> set (node_ids ns))"
    unfolding in_pairs_mem by (simp add: as0_def cong: conj_cong)
  also have "\<dots> \<longleftrightarrow> (\<forall>i < length ns. set (in_names (attr (ns ! i))) \<subseteq> set (node_ids ns))" by blast
  finally show "(\<exists>r. link_nodes m as0 = Inr r) \<longleftrightarrow>
      (\<forall>n \<in> set ns. set (in_names (attr n)) \<subseteq> set (node_ids ns))"
    by (simp add: all_set_conv_all_nth)
  show "link_nodes m as0 = Inr (as, es) \<Longrightarrow>
      links m as0 (set (in_pairs as0)) as \<and> es = map (\<lambda>(i, p). (p, n_id (as0 ! i))) (in_pairs as0)"
    unfolding link_nodes_def
    by (rule link_nodes_links) (use d ids fr in \<open>auto simp: m_def as0_def in_pairs_mem\<close>)
qed

text \<open>The links of a level in the words of the invariant.\<close>

lemma links_level_facts:
  assumes l: "links m as0 (set (in_pairs as0)) as" and d: "distinct (map n_id as0)"
    and m: "m = node_map (map n_id as0)"
  shows "length as = length as0" "map n_id as = map n_id as0" "map in_names as = map in_names as0"
    "\<And>i. i < length as \<Longrightarrow> n_type (as ! i) = n_type (as0 ! i) \<and> n_status (as ! i) = n_status (as0 ! i)"
    "in_pairs as = in_pairs as0"
    "\<And>i p. i < length as \<Longrightarrow> in_get as i p = (if p \<in> set (in_names (as ! i)) then obj_get m p else None)"
    "\<And>k q i. k < length as \<Longrightarrow> out_get as k q = Some i \<longleftrightarrow>
       i < length as \<and> n_id (as ! i) = q \<and> n_id (as ! k) \<in> set (in_names (as ! i))"
proof -
  show len: "length as = length as0" by (rule links_length[OF l])
  have pl: "plain (as ! i) = plain (as0 ! i)" if "i < length as" for i
    using l that len plain_map_nth unfolding links_def by metis
  show ids: "map n_id as = map n_id as0" and ins: "map in_names as = map in_names as0"
    using len plain_fields[OF pl] by (auto intro!: nth_equalityI simp: in_names_def)
  show "n_type (as ! i) = n_type (as0 ! i) \<and> n_status (as ! i) = n_status (as0 ! i)" if "i < length as" for i
    using plain_fields[OF pl[OF that]] by simp
  have in_nth: "in_names (as ! i) = in_names (as0 ! i)" "n_id (as ! i) = n_id (as0 ! i)" if "i < length as0" for i
    using ins ids len that by (metis nth_map)+
  show ip: "in_pairs as = in_pairs as0"
    unfolding in_pairs_def len by (rule arg_cong[where f = concat], rule map_cong) (auto simp: in_nth)
  show "in_get as i p = (if p \<in> set (in_names (as ! i)) then obj_get m p else None)" if "i < length as" for i p
    using l that len unfolding links_def by (simp add: in_pairs_mem in_nth)
  show "out_get as k q = Some i \<longleftrightarrow>
      i < length as \<and> n_id (as ! i) = q \<and> n_id (as ! k) \<in> set (in_names (as ! i))" if k: "k < length as" for k q i
  proof -
    have "obj_get m p = Some k \<longleftrightarrow> p = n_id (as0 ! k)" for p
      using node_map_get[OF d, of p k] m k len by auto
    with l k len show ?thesis
      unfolding links_def by (auto simp: in_pairs_mem in_nth)
  qed
qed

text \<open>The result of one level, with the recursive calls named.\<close>

definition process_child :: "nattr list \<Rightarrow> jnode list \<Rightarrow> nat \<Rightarrow> jnode result" where
  "process_child as ns k =
     (if is_flow (as ! k) then processFlowData (JNode (as ! k) (nodes (ns ! k)))
      else Inr (JNode (as ! k) (nodes (ns ! k))))"

lemma process_level:
  assumes d: "distinct (node_ids ns)"
  shows "processFlowData (JNode a ns) =
    and_then (link_nodes (node_map (node_ids ns)) (map (default_status \<circ> attr) ns)) (\<lambda>(as, edges).
    and_then (map_result (process_child as ns) [0..<length ns]) (\<lambda>ns'.
    Inr (JNode (a\<lparr>n_nodeMap := node_map (node_ids ns), n_edges := edges\<rparr>) ns')))"
proof -
  have "k < length ns \<Longrightarrow> k \<in> snd ` set (node_map (map (n_id \<circ> attr) ns))" for k
    using node_map_values[OF d[unfolded node_ids_def]] by simp
  then have "map_result (\<lambda>k. if k \<in> snd ` set (node_map (map (n_id \<circ> attr) ns)) \<and> is_flow (as ! k)
      then processFlowData (JNode (as ! k) (nodes (ns ! k)))
      else Inr (JNode (as ! k) (nodes (ns ! k)))) [0..<length ns] =
    map_result (process_child as ns) [0..<length ns]" for as
    by (intro map_result_cong) (auto simp: process_child_def)
  then show ?thesis by (simp add: processFlowData.simps node_ids_def Let_def)
qed

lemma process_root:
  "processFlowData n = Inr t \<Longrightarrow>
   \<exists>m e. attr t = (attr n)\<lparr>n_nodeMap := m, n_edges := e\<rparr>"
proof (cases n)
  case (JNode a ns)
  assume "processFlowData n = Inr t"
  then obtain es ns' where "t = JNode (a\<lparr>n_nodeMap := node_map (map (n_id \<circ> attr) ns), n_edges := es\<rparr>) ns'"
    by (auto simp: JNode processFlowData.simps Let_def and_then_Inr_iff)
  with JNode show ?thesis by auto
qed


text \<open>
  Processing the nodes of a level changes no more of their attributes than the node map and the
  edges of each, so the links of the level stay.
\<close>

definition relinked :: "nattr \<Rightarrow> nattr \<Rightarrow> bool" where
  "relinked b a \<longleftrightarrow> b = a\<lparr>n_nodeMap := n_nodeMap b, n_edges := n_edges b\<rparr>"

lemma relinked_fields:
  assumes "relinked b a"
  shows "n_id b = n_id a" "n_type b = n_type a" "n_status b = n_status a" "in_names b = in_names a"
    "n_inNodes b = n_inNodes a" "n_outNodes b = n_outNodes a"
  using arg_cong[OF assms[unfolded relinked_def], of n_id] arg_cong[OF assms[unfolded relinked_def], of n_type]
    arg_cong[OF assms[unfolded relinked_def], of n_status] arg_cong[OF assms[unfolded relinked_def], of n_in]
    arg_cong[OF assms[unfolded relinked_def], of n_inNodes] arg_cong[OF assms[unfolded relinked_def], of n_outNodes]
  by (simp_all add: in_names_def)

lemma process_child_relinked: "process_child as ns k = Inr n \<Longrightarrow> relinked (attr n) (as ! k)"
  using process_root[of "JNode (as ! k) (nodes (ns ! k))" n]
  by (auto simp: process_child_def relinked_def split: if_splits)

lemma relinked_level:
  assumes "list_all2 relinked bs as"
  shows "map n_id bs = map n_id as" "map in_names bs = map in_names as" "in_pairs bs = in_pairs as"
    "i < length as \<Longrightarrow> in_get bs i p = in_get as i p" "i < length as \<Longrightarrow> out_get bs i p = out_get as i p"
    "i < length as \<Longrightarrow> n_type (bs ! i) = n_type (as ! i) \<and> n_status (bs ! i) = n_status (as ! i)"
proof -
  have len: "length bs = length as" using assms by (rule list_all2_lengthD)
  have r: "relinked (bs ! i) (as ! i)" if "i < length as" for i using assms that by (simp add: list_all2_conv_all_nth)
  show "map n_id bs = map n_id as" "map in_names bs = map in_names as"
    using len relinked_fields[OF r] by (auto intro: nth_equalityI)
  show "in_pairs bs = in_pairs as"
    unfolding in_pairs_def len by (rule arg_cong[where f = concat], rule map_cong) (auto simp: relinked_fields[OF r])
  show "in_get bs i p = in_get as i p" "out_get bs i p = out_get as i p"
    "n_type (bs ! i) = n_type (as ! i) \<and> n_status (bs ! i) = n_status (as ! i)" if "i < length as"
    using relinked_fields[OF r[OF that]] by (simp_all add: in_get_def out_get_def)
qed

lemma linked_level:
  assumes lk: "links m as0 (set (in_pairs as0)) as" and d: "distinct (map n_id as0)"
    and m: "m = node_map (map n_id as0)" and r: "list_all2 relinked (map attr ns') as"
    and es: "es = map (\<lambda>(i, p). (p, n_id (as0 ! i))) (in_pairs as0)"
    and sub: "\<forall>n \<in> set ns'. n_status (attr n) \<noteq> [] \<and> (is_flow (attr n) \<longrightarrow> linked n)"
  shows "linked (JNode (a\<lparr>n_nodeMap := m, n_edges := es\<rparr>) ns')"
    "map n_id (map attr ns') = map n_id as0" "map in_names (map attr ns') = map in_names as0"
proof -
  note f = links_level_facts[OF lk d m] and g = relinked_level[OF r]
  show ids: "map n_id (map attr ns') = map n_id as0" and ins: "map in_names (map attr ns') = map in_names as0"
    unfolding g f by (rule refl)+
  have len: "length ns' = length as" using list_all2_lengthD[OF r] by simp
  have nth: "n_id (map attr ns' ! i) = n_id (as ! i)" "in_names (map attr ns' ! i) = in_names (as ! i)"
    "n_id (map attr ns' ! i) = n_id (as0 ! i)" if "i < length as" for i
    using arg_cong[OF g(1), of "\<lambda>l. l ! i"] arg_cong[OF g(2), of "\<lambda>l. l ! i"] arg_cong[OF ids, of "\<lambda>l. l ! i"]
      that len f(1) by simp_all
  have "es = map (\<lambda>(i, p). (p, n_id (map attr ns' ! i))) (in_pairs (map attr ns'))"
    unfolding es g(3) f(5) by (rule map_cong) (use f(1) nth(3) in \<open>auto simp: in_pairs_mem\<close>)
  moreover have "m = node_map (node_ids ns')" using ids unfolding m by (simp add: node_ids_def comp_def)
  ultimately show "linked (JNode (a\<lparr>n_nodeMap := m, n_edges := es\<rparr>) ns')"
    using f(6,7) g(4,5) nth(1,2) sub len unfolding linked.simps Let_def by (simp cong: conj_cong)
qed

text \<open>
  C5. When it succeeds, the resulting graph is linked at every level: the node maps, edge lists,
  predecessor and successor maps agree with the names the server sent, and the names are as sent.
\<close>

theorem addFlow_links:
  assumes "fresh t" "addFlow t = Inr t'"
  shows "linked t' \<and> node_ids (nodes t') = node_ids (nodes t) \<and>
    map (in_names \<circ> attr) (nodes t') = map (in_names \<circ> attr) (nodes t)"
  using assms unfolding addFlow_def
proof (induction t arbitrary: t' rule: measure_induct_rule[where f = size])
  case (less t)
  obtain a ns where t: "t = JNode a ns" by (cases t)
  have d: "distinct (node_ids ns)" and
    fr: "\<forall>n \<in> set ns. n_inNodes (attr n) = None \<and> n_outNodes (attr n) = None"
    using less.prems t by (auto simp: fresh.simps)
  let ?m = "node_map (node_ids ns)" and ?as0 = "map (default_status \<circ> attr) ns"
  have dd: "distinct (map n_id ?as0)" and mm: "?m = node_map (map n_id ?as0)"
    using d by (simp_all add: node_ids_def comp_def)
  obtain as es ns' where l: "link_nodes ?m ?as0 = Inr (as, es)"
    and ns': "map_result (process_child as ns) [0..<length ns] = Inr ns'"
    and t': "t' = JNode (a\<lparr>n_nodeMap := ?m, n_edges := es\<rparr>) ns'"
    using less.prems(2) unfolding t process_level[OF d] by (auto simp: and_then_Inr_iff)
  note lk = conjunct1[OF link_level(2)[OF d fr l]] and es = conjunct2[OF link_level(2)[OF d fr l]]
  note facts = links_level_facts[OF lk dd mm]
  have len: "length as = length ns" "length ns' = length ns" using facts(1) map_result_length[OF ns'] by auto
  have child: "process_child as ns k = Inr (ns' ! k)" if "k < length ns" for k
    using map_result_nth[OF ns', of k] that by simp
  have r: "list_all2 relinked (map attr ns') as"
    using len process_child_relinked[OF child] by (simp add: list_all2_conv_all_nth)
  have "n_status (attr (ns' ! k)) \<noteq> [] \<and> (is_flow (attr (ns' ! k)) \<longrightarrow> linked (ns' ! k))" if k: "k < length ns" for k
  proof -
    have ty: "is_flow (attr (ns' ! k)) = is_flow (as ! k)" "is_flow (as ! k) = is_flow (attr (ns ! k))"
      "n_status (attr (ns' ! k)) \<noteq> []" using relinked_level(6)[OF r, of k] facts(4)[of k] k len by (simp_all add: is_flow_def)
    have "is_flow (attr (ns ! k)) \<Longrightarrow> fresh (ns ! k)" using less.prems(1) t k by (auto simp: fresh.simps)
    then show ?thesis
      using less.IH[of "JNode (as ! k) (nodes (ns ! k))" "ns' ! k"] child[OF k] t k ty
      by (auto simp: process_child_def split: if_splits)
  qed
  then have "\<forall>n \<in> set ns'. n_status (attr n) \<noteq> [] \<and> (is_flow (attr n) \<longrightarrow> linked n)"
    using len by (simp add: all_set_conv_all_nth)
  note level = linked_level[OF lk dd mm r es this]
  show ?case using level(1)[of a] level(2,3) by (simp add: t t' node_ids_def comp_def)
qed

subsection \<open>A sample flow\<close>

text \<open>Three jobs, the second an embedded flow of two jobs; used by the witnesses.\<close>

definition raw_attr :: "string \<Rightarrow> string \<Rightarrow> string list option \<Rightarrow> nattr" where
  "raw_attr i ty ins = \<lparr>n_id = i, n_type = ty, n_status = [], n_in = ins, n_inNodes = None,
     n_outNodes = None, n_disabled = False, n_nodeMap = [], n_edges = []\<rparr>"

definition sample_flow :: jnode where
  "sample_flow = JNode (raw_attr [] [] None)
     [JNode (raw_attr ''extract'' ''command'' None) [],
      JNode (raw_attr ''load'' ''flow'' (Some [''extract'']))
        [JNode (raw_attr ''parse'' ''command'' None) [],
         JNode (raw_attr ''check'' ''command'' (Some [''parse''])) []],
      JNode (raw_attr ''report'' ''command'' (Some [''load'', ''extract''])) []]"

lemma sample_flow_fresh: "fresh sample_flow"
  by (simp add: sample_flow_def raw_attr_def fresh.simps is_flow_def node_ids_def)

lemma sample_flow_closed: "names_closed sample_flow"
  by (auto simp: sample_flow_def raw_attr_def names_closed.simps is_flow_def node_ids_def in_names_def)


lemma sample_flow_added:
  "(case addFlow sample_flow of Inl e \<Rightarrow> False | Inr t \<Rightarrow> n_edges (attr t) =
     [(''extract'', ''load''), (''load'', ''report''), (''extract'', ''report'')])"
  by code_simp

lemma addFlow_links_witness:
  "\<exists>t'. addFlow sample_flow = Inr t' \<and> linked t' \<and> node_ids (nodes t') = node_ids (nodes sample_flow)"
proof -
  obtain t' where t': "addFlow sample_flow = Inr t'"
    using sample_flow_added by (cases "addFlow sample_flow") auto
  show ?thesis using addFlow_links[OF sample_flow_fresh t'] t' by blast
qed

end
