(* ===== verification/ExecPage.thy ===== *)
theory ExecPage
  imports Page Dates GraphWalk FlowModel
begin

text \<open>
  The page of a running flow, \<open>view/exflow.js\<close>: the status panel, the tabs and buttons, the update
  of the graph's statuses, the polling, and the log. The requests go through \<open>ajaxCall\<close> of
  \<open>util/ajax.js\<close>.
\<close>

subsection \<open>Requests\<close>

text \<open>The success handler that \<open>ajaxCall\<close> wraps around a callback: an expired session asks to log in.\<close>

definition ajax_success :: "bool \<Rightarrow> string option \<Rightarrow> ('s \<Rightarrow> 's \<times> effect list) \<Rightarrow> 's \<Rightarrow> 's \<times> effect list" where
  "ajax_success errorDialog err callback s =
     (if err = Some ''session'' then (s, if errorDialog then [Modal ''invalid-session''] else [])
      else callback s)"

definition manager_url :: "env \<Rightarrow> string \<Rightarrow> string" where
  "manager_url g jobid = contextURL g @ ''/manager?project='' @ projectName g @ ''&flow='' @ flowId g @ ''&job='' @ jobid"

definition handleJobMenuClick :: "env \<Rightarrow> string \<Rightarrow> string \<Rightarrow> effect list" where
  "handleJobMenuClick g action jobid =
     (if action = ''open'' then [Redirect (manager_url g jobid)]
      else if action = ''openwindow'' then [OpenWindow (manager_url g jobid)] else [])"

subsection \<open>The data of the flow\<close>

record eattr =
  e_id :: string
  e_status :: string
  e_startTime :: "int option"
  e_endTime :: "int option"
  e_updateTime :: "int option"
  e_submitUser :: string

datatype enode = ENode (eattr: eattr) (enodes: "enode list")

text \<open>An update of the server names only what changed; \<open>nodes\<close> may be missing, the empty list here.\<close>

record uattr =
  u_id :: string
  u_status :: string
  u_startTime :: "int option"
  u_endTime :: "int option"
  u_updateTime :: "int option"

datatype unode = UNode (uattr: uattr) (unodes: "unode list")

definition apply_update :: "uattr \<Rightarrow> eattr \<Rightarrow> eattr" where
  "apply_update u a = a\<lparr>e_startTime := u_startTime u, e_endTime := u_endTime u,
     e_updateTime := u_updateTime u, e_status := u_status u\<rparr>"

definition enode_map :: "enode list \<Rightarrow> nat jsobj" where
  "enode_map ns = node_map (map (\<lambda>n. e_id (eattr n)) ns)"

function updateGraph :: "unode \<Rightarrow> enode \<Rightarrow> enode result" where
  "updateGraph (UNode u us) (ENode a ns) =
     and_then
       (fold_result (\<lambda>ns newNode.
          (case obj_get (enode_map ns) (u_id (uattr newNode)) of
             None \<Rightarrow> Inl TypeError
           | Some i \<Rightarrow> and_then (updateGraph newNode (ns ! i)) (\<lambda>m. Inr (ns[i := m])))) ns us)
       (\<lambda>ns'. Inr (ENode (apply_update u a) ns'))"
  by pat_completeness auto
termination
  by (relation "measure (\<lambda>(u, _). size u)") (auto simp: less_Suc_eq_le intro: size_list_estimation' trans_le_add1)

declare updateGraph.simps [simp del]

subsection \<open>The status panel\<close>

definition is_time :: "int option \<Rightarrow> bool" where
  "is_time t \<longleftrightarrow> t \<noteq> None \<and> t \<noteq> Some 0 \<and> t \<noteq> Some (-1)"

definition statusUpdate :: "calendar \<Rightarrow> int \<Rightarrow> eattr \<Rightarrow> page \<Rightarrow> page" where
  "statusUpdate c now data p =
     (let p = remove_statuses (\<lambda>p st. jq_removeClass ''#flowStatus'' st p) p;
          p = jq_addClass ''#flowStatus'' (e_status data) p;
          p = set_text ''#flowStatus'' (e_status data) p;
          p = (if \<not> is_time (e_startTime data) then set_text ''#startTime'' ''-'' p
               else
                 (let p = set_text ''#startTime'' (getDateFormat c (the (e_startTime data))) p;
                      lastTime = (if e_endTime data = Some (-1) then Some now else e_endTime data)
                  in set_text ''#duration'' (getDuration (e_startTime data) lastTime) p))
      in if \<not> is_time (e_endTime data) then set_text ''#endTime'' ''-'' p
         else set_text ''#endTime'' (getDateFormat c (the (e_endTime data))) p)"

definition status_render :: "calendar \<Rightarrow> int \<Rightarrow> eattr \<Rightarrow> page \<Rightarrow> page" where
  "status_render c now data p = statusUpdate c now data (set_text ''#submitUser'' (e_submitUser data) p)"

subsection \<open>Tabs and buttons\<close>

definition tab_links :: "string list" where
  "tab_links = [''#jobslistViewLink'', ''#graphViewLink'', ''#flowLogViewLink'', ''#statsViewLink'']"

definition tab_panels :: "string list" where
  "tab_panels = [''#jobListView'', ''#graphView'', ''#flowLogView'', ''#statsView'']"

definition ex_handleGraphLinkClick :: "page \<Rightarrow> page" where
  "ex_handleGraphLinkClick = seq
     [jq_removeClass ''#jobslistViewLink'' ''active'', jq_addClass ''#graphViewLink'' ''active'',
      jq_removeClass ''#flowLogViewLink'' ''active'', jq_removeClass ''#statsViewLink'' ''active'',
      hide_el ''#jobListView'', show_el ''#graphView'', hide_el ''#flowLogView'', hide_el ''#statsView'']"

definition ex_handleJobslistLinkClick :: "page \<Rightarrow> page" where
  "ex_handleJobslistLinkClick = seq
     [jq_removeClass ''#graphViewLink'' ''active'', jq_addClass ''#jobslistViewLink'' ''active'',
      jq_removeClass ''#flowLogViewLink'' ''active'', jq_removeClass ''#statsViewLink'' ''active'',
      hide_el ''#graphView'', show_el ''#jobListView'', hide_el ''#flowLogView'', hide_el ''#statsView'']"

definition ex_handleLogLinkClick :: "page \<Rightarrow> page" where
  "ex_handleLogLinkClick = seq
     [jq_removeClass ''#graphViewLink'' ''active'', jq_removeClass ''#jobslistViewLink'' ''active'',
      jq_addClass ''#flowLogViewLink'' ''active'', jq_removeClass ''#statsViewLink'' ''active'',
      hide_el ''#graphView'', hide_el ''#jobListView'', show_el ''#flowLogView'', hide_el ''#statsView'']"

definition ex_handleStatsLinkClick :: "page \<Rightarrow> page" where
  "ex_handleStatsLinkClick = seq
     [jq_removeClass ''#graphViewLink'' ''active'', jq_removeClass ''#jobslistViewLink'' ''active'',
      jq_removeClass ''#flowLogViewLink'' ''active'', jq_addClass ''#statsViewLink'' ''active'',
      hide_el ''#graphView'', hide_el ''#jobListView'', hide_el ''#flowLogView'', show_el ''#statsView'']"

definition flow_buttons :: "string list" where
  "flow_buttons = [''#cancelbtn'', ''#executebtn'', ''#pausebtn'', ''#resumebtn'', ''#retrybtn'']"

definition hide_buttons :: "page \<Rightarrow> page" where
  "hide_buttons = seq [hide_el ''#cancelbtn'', hide_el ''#executebtn'', hide_el ''#pausebtn'',
     hide_el ''#resumebtn'', hide_el ''#retrybtn'']"

definition tabs_initialize :: "string option \<Rightarrow> page \<Rightarrow> page" where
  "tabs_initialize selectedView p =
     (if selectedView = Some ''jobslist'' then ex_handleJobslistLinkClick (hide_buttons p)
      else ex_handleGraphLinkClick (hide_buttons p))"

definition handleFlowStatusChange :: "string \<Rightarrow> page \<Rightarrow> page" where
  "handleFlowStatusChange status p =
     (let p = hide_buttons p in
      if status = ''SUCCEEDED'' then show_el ''#executebtn'' p
      else if status = ''PREPARING'' then show_el ''#cancelbtn'' p
      else if status = ''FAILED'' then show_el ''#executebtn'' p
      else if status = ''FAILED_FINISHING'' then
        seq [show_el ''#cancelbtn'', hide_el ''#executebtn'', show_el ''#retrybtn''] p
      else if status = ''RUNNING'' then seq [show_el ''#cancelbtn'', show_el ''#pausebtn''] p
      else if status = ''PAUSED'' then seq [show_el ''#cancelbtn'', show_el ''#resumebtn''] p
      else if status = ''WAITING'' then show_el ''#cancelbtn'' p
      else if status = ''KILLED'' then show_el ''#executebtn'' p
      else p)"

definition showDialog :: "string \<Rightarrow> string \<Rightarrow> page \<Rightarrow> page \<times> effect list" where
  "showDialog title message p = (set_text ''#messageBox'' message (set_text ''#messageTitle'' title p), [Modal ''#messageDialog''])"

text \<open>The four requests of the buttons and what happens when they are answered.\<close>

definition flow_request :: "env \<Rightarrow> string \<Rightarrow> effect list" where
  "flow_request g action = [Get (contextURL g @ ''/executor'') [(''execid'', execId g), (''ajax'', action)]]"

definition flow_answer :: "string \<Rightarrow> string \<Rightarrow> string option \<Rightarrow> page \<Rightarrow> page \<times> effect list" where
  "flow_answer title message err p =
     (if truthy err then showDialog ''Error'' (text_of err) p
      else (case showDialog title message p of (p', es) \<Rightarrow> (p', es @ [Timer 1100 ''updateStatus''])))"

definition handleCancelClick :: "env \<Rightarrow> effect list" where
  "handleCancelClick g = flow_request g ''cancelFlow''"

definition cancel_answer :: "string option \<Rightarrow> page \<Rightarrow> page \<times> effect list" where
  "cancel_answer = flow_answer ''Cancelled'' ''Flow has been cancelled.''"

definition handleRetryClick :: "env \<Rightarrow> effect list" where
  "handleRetryClick g = flow_request g ''retryFailedJobs''"

definition retry_answer :: "string option \<Rightarrow> page \<Rightarrow> page \<times> effect list" where
  "retry_answer = flow_answer ''Retry'' ''Flow has been retried.''"

definition handlePauseClick :: "env \<Rightarrow> effect list" where
  "handlePauseClick g = flow_request g ''pauseFlow''"

definition pause_answer :: "string option \<Rightarrow> page \<Rightarrow> page \<times> effect list" where
  "pause_answer = flow_answer ''Paused'' ''Flow has been paused.''"

definition handleResumeClick :: "env \<Rightarrow> effect list" where
  "handleResumeClick g = flow_request g ''resumeFlow''"

definition resume_answer :: "string option \<Rightarrow> page \<Rightarrow> page \<times> effect list" where
  "resume_answer = flow_answer ''Resumed'' ''Flow has been resumed.''"

definition handleRestartClick :: "env \<Rightarrow> effect list" where
  "handleRestartClick g =
     [Call ''flowExecuteDialogView.show'' [projectName g, ''executeFlow'', flowId g, execId g]]"

subsection \<open>The log of the flow\<close>

record log_model =
  lm_offset :: int
  lm_log :: string

definition log_initialize :: "log_model \<Rightarrow> log_model" where
  "log_initialize m = m\<lparr>lm_offset := 0\<rparr>"

definition log_request :: "env \<Rightarrow> log_model \<Rightarrow> effect list" where
  "log_request g m =
     [Get (contextURL g @ ''/executor'')
        [(''execid'', execId g), (''ajax'', ''fetchExecFlowLogs''), (''offset'', show_int (lm_offset m)), (''length'', ''50000'')]]"

text \<open>An answer is an error, or an offset, a length and the text.\<close>

definition log_answer :: "(string + int \<times> int \<times> string) \<Rightarrow> log_model \<times> page \<Rightarrow> log_model \<times> page" where
  "log_answer r mp = (case (r, mp) of
     (Inl e, mp) \<Rightarrow> mp
   | (Inr (offset, len, text), (m, p)) \<Rightarrow>
       (let log = pg_text p ''#logSection''; log = (if log = [] then text else log @ text) in
        (\<lparr>lm_offset = offset + len, lm_log = log\<rparr>, set_text ''#logSection'' log p)))"

subsection \<open>The statistics tab\<close>

record stats_view =
  sv_status :: "string option"
  sv_rendered :: bool

definition stats_initialize :: stats_view where
  "stats_initialize = \<lparr>sv_status = None, sv_rendered = False\<rparr>"

definition stats_statusUpdate :: "eattr \<Rightarrow> stats_view \<Rightarrow> stats_view" where
  "stats_statusUpdate data v = v\<lparr>sv_status := Some (e_status data)\<rparr>"

definition stats_render :: "env \<Rightarrow> stats_view \<Rightarrow> stats_view \<times> effect list" where
  "stats_render g v =
     (if sv_rendered v then (v, [])
      else if sv_status v \<noteq> Some ''SUCCEEDED'' then (v, [])
      else (v\<lparr>sv_rendered := True\<rparr>, [Call ''flowStatsView.show'' [execId g]]))"

subsection \<open>Polling\<close>

definition updateStatus :: "env \<Rightarrow> int option \<Rightarrow> eattr \<Rightarrow> effect list" where
  "updateStatus g updateTime oldData =
     (let t = (case updateTime of
                 Some t \<Rightarrow> if t \<noteq> 0 then t else (case e_updateTime oldData of None \<Rightarrow> 0 | Some u \<Rightarrow> u)
               | None \<Rightarrow> (case e_updateTime oldData of None \<Rightarrow> 0 | Some u \<Rightarrow> u))
      in [Get (contextURL g @ ''/executor'')
            [(''execid'', execId g), (''ajax'', ''fetchexecflowupdate''), (''lastUpdateTime'', show_int t)]])"

definition updateStatus_answer :: "unode \<Rightarrow> enode \<Rightarrow> (enode \<times> effect list) result" where
  "updateStatus_answer update data =
     (if u_updateTime (uattr update) = None \<or> u_updateTime (uattr update) = Some 0 then Inr (data, [])
      else and_then (updateGraph update data) (\<lambda>d. Inr (d, [Trigger ''change:update''])))"

definition keep_running :: "string \<Rightarrow> bool" where
  "keep_running status \<longleftrightarrow> status \<noteq> ''SUCCEEDED'' \<and> status \<noteq> ''FAILED'' \<and> status \<noteq> ''KILLED''"

text \<open>
  The request is sent and answered later, so the status that the function reads after sending it is
  the one it has read before.
\<close>

definition updaterFunction :: "env \<Rightarrow> eattr \<Rightarrow> effect list" where
  "updaterFunction g data =
     (if keep_running (e_status data) then
        updateStatus g None data @
        (if e_status data = ''UNKNOWN'' \<or> e_status data = ''WAITING'' \<or> e_status data = ''PREPARING''
         then [Timer (2 * 60 * 1000) ''updaterFunction'']
         else if e_status data \<noteq> ''SUCCEEDED'' \<and> e_status data \<noteq> ''FAILED''
         then [Timer (2 * 60 * 1000) ''updaterFunction'']
         else [Timer 500 ''updateStatus(0)''])
      else [])"

definition logUpdaterFunction :: "env \<Rightarrow> eattr \<Rightarrow> log_model \<Rightarrow> effect list" where
  "logUpdaterFunction g data m =
     (if keep_running (e_status data) then log_request g m @ [Timer (2 * 60 * 1000) ''logUpdaterFunction'']
      else log_request g m)"

subsection \<open>Context menus and start\<close>

datatype menu_item = Item string "effect list" "menu_item list" | Break

definition visualizer_url :: "env \<Rightarrow> string \<Rightarrow> string" where
  "visualizer_url g jobid = contextURL g @ ''/pigvisualizer?execid='' @ execId g @ ''&jobid='' @ jobid"

definition exNodeClickCallback :: "env \<Rightarrow> string \<Rightarrow> menu_item list" where
  "exNodeClickCallback g jobid =
     [Item ''Open Job...'' [Redirect (manager_url g jobid)] [],
      Item ''Open Job in New Window...'' [OpenWindow (manager_url g jobid)] [],
      Item ''Visualize Job...'' [Redirect (visualizer_url g jobid)] []]"

definition exJobClickCallback :: "env \<Rightarrow> string \<Rightarrow> menu_item list" where
  "exJobClickCallback g jobid =
     [Item ''Open Job...'' [Redirect (manager_url g jobid)] [],
      Item ''Open Job in New Window...'' [OpenWindow (manager_url g jobid)] [],
      Item ''Visualize Job...'' [Redirect (visualizer_url g jobid)] []]"

definition flow_url :: "env \<Rightarrow> string \<Rightarrow> string" where
  "flow_url g flow = contextURL g @ ''/manager?project='' @ projectName g @ ''&flow='' @ flow"

definition exGraphClickCallback :: "env \<Rightarrow> menu_item list" where
  "exGraphClickCallback g =
     [Item ''Open Flow...'' [Redirect (flow_url g (flowId g))] [],
      Item ''Open Flow in New Window...'' [OpenWindow (flow_url g (flowId g))] [],
      Break, Item ''Center Graph'' [Trigger ''resetPanZoom''] []]"

text \<open>The tab that the fragment of the address selects after the flow is loaded.\<close>

definition ex_hash_tab :: "string \<Rightarrow> page \<Rightarrow> page" where
  "ex_hash_tab hash p =
     (if hash \<noteq> [] then
        (if hash = ''#jobslist'' then ex_handleJobslistLinkClick p
         else if hash = ''#log'' then ex_handleLogLinkClick p
         else if hash = ''#stats'' then ex_handleStatsLinkClick p
         else p)
      else ex_handleGraphLinkClick p)"

end
