(* ===== verification/ExecPageProps.thy ===== *)
theory ExecPageProps
  imports ExecPage
begin

text \<open>What the page of a running flow shows and polls, and what an update changes.\<close>

subsection \<open>Status panel\<close>

lemma statusUpdate_class:
  "pg_class (statusUpdate c now data p) =
   pg_class (jq_addClass ''#flowStatus'' (e_status data) (remove_statuses (\<lambda>p st. jq_removeClass ''#flowStatus'' st p) p))"
  by (simp add: statusUpdate_def Let_def)

text \<open>
  After a status update the panel carries exactly one of the listed status classes, the new one,
  and shows it as its text; the classes that are no status are kept. The list lacks PREPARING:
  once painted, that class is never removed.
\<close>

theorem statusUpdate_classes:
  assumes "e_status data \<in> set statusList"
  shows "set (pg_class (statusUpdate c now data p) ''#flowStatus'') \<inter> set statusList = {e_status data} \<and>
    set (pg_class (statusUpdate c now data p) ''#flowStatus'') - set statusList =
      set (pg_class p ''#flowStatus'') - set statusList \<and>
    (''PREPARING'' \<in> set (pg_class p ''#flowStatus'') \<longrightarrow>
       ''PREPARING'' \<in> set (pg_class (statusUpdate c now data p) ''#flowStatus'')) \<and>
    pg_text (statusUpdate c now data p) ''#flowStatus'' = e_status data"
proof -
  have w: "is_word (e_status data)" using statusList_words assms by (auto simp: list_all_iff)
  have s: "set (pg_class (statusUpdate c now data p) ''#flowStatus'') =
      insert (e_status data) (set (pg_class p ''#flowStatus'') - set statusList)"
    unfolding statusUpdate_class by (rule jq_cls.painted[OF TrueI w])
  have t: "pg_text (statusUpdate c now data p) ''#flowStatus'' = e_status data"
    by (simp add: statusUpdate_def Let_def)
  show ?thesis using assms preparing_not_listed by (simp add: s t) blast
qed

definition running_attr :: eattr where
  "running_attr = \<lparr>e_id = ''f'', e_status = ''RUNNING'', e_startTime = Some 1000, e_endTime = Some (-1),
     e_updateTime = Some 2000, e_submitUser = ''ann''\<rparr>"

theorem statusUpdate_classes_witness:
  "''PREPARING'' \<in> set (pg_class (statusUpdate (zone 0) 5000 running_attr (jq_addClass ''#flowStatus'' ''PREPARING'' blank_page)) ''#flowStatus'')"
proof -
  have "e_status running_attr \<in> set statusList" by (simp add: running_attr_def statusList_def)
  from statusUpdate_classes[OF this, of "zone 0" 5000 "jq_addClass ''#flowStatus'' ''PREPARING'' blank_page"]
  show ?thesis by simp
qed

subsection \<open>Tabs and buttons\<close>

lemmas tab_handlers = ex_handleGraphLinkClick_def ex_handleJobslistLinkClick_def
  ex_handleLogLinkClick_def ex_handleStatsLinkClick_def

text \<open>
  A click on a tab link makes that link the only active one of the four and its panel the only one
  shown, whatever was active and shown before.
\<close>

theorem tabs_exclusive:
  "only_active tab_links (ex_handleGraphLinkClick p) ''#graphViewLink'' \<and>
   only_shown tab_panels (ex_handleGraphLinkClick p) ''#graphView'' \<and>
   only_active tab_links (ex_handleJobslistLinkClick p) ''#jobslistViewLink'' \<and>
   only_shown tab_panels (ex_handleJobslistLinkClick p) ''#jobListView'' \<and>
   only_active tab_links (ex_handleLogLinkClick p) ''#flowLogViewLink'' \<and>
   only_shown tab_panels (ex_handleLogLinkClick p) ''#flowLogView'' \<and>
   only_active tab_links (ex_handleStatsLinkClick p) ''#statsViewLink'' \<and>
   only_shown tab_panels (ex_handleStatsLinkClick p) ''#statsView''"
  by (intro conjI) (simp_all add: tab_handlers only_active_def only_shown_def tab_links_def tab_panels_def)

text \<open>
  Which buttons a flow offers depends on its status alone: it can be cancelled until it ends,
  paused only while it runs, resumed only when paused, retried only while it fails, executed again
  only when it has ended; nothing else on the page is touched.
\<close>

theorem buttons_by_status:
  "(let q = handleFlowStatusChange st p in
    (pg_shown q ''#cancelbtn'' \<longleftrightarrow> st \<in> {''PREPARING'', ''FAILED_FINISHING'', ''RUNNING'', ''PAUSED'', ''WAITING''}) \<and>
    (pg_shown q ''#executebtn'' \<longleftrightarrow> st \<in> {''SUCCEEDED'', ''FAILED'', ''KILLED''}) \<and>
    (pg_shown q ''#pausebtn'' \<longleftrightarrow> st = ''RUNNING'') \<and> (pg_shown q ''#resumebtn'' \<longleftrightarrow> st = ''PAUSED'') \<and>
    (pg_shown q ''#retrybtn'' \<longleftrightarrow> st = ''FAILED_FINISHING'') \<and>
    (\<forall>e. e \<notin> set flow_buttons \<longrightarrow> pg_shown q e = pg_shown p e) \<and> pg_class q = pg_class p \<and> pg_text q = pg_text p)"
  by (simp add: handleFlowStatusChange_def hide_buttons_def flow_buttons_def Let_def)

theorem buttons_by_status_witness:
  "(let q = handleFlowStatusChange ''RUNNING'' blank_page in
    pg_shown q ''#cancelbtn'' \<and> pg_shown q ''#pausebtn'' \<and> \<not> pg_shown q ''#executebtn'' \<and>
    pg_shown q ''#graphView'' = pg_shown blank_page ''#graphView'')"
proof -
  have "''#graphView'' \<notin> set flow_buttons" by (simp add: flow_buttons_def)
  then show ?thesis using buttons_by_status[of "''RUNNING''" blank_page] by (simp add: Let_def)
qed

subsection \<open>Polling\<close>

text \<open>
  The updater polls every two minutes until the flow has ended, and then stops at once. The branch
  that would fetch the final state once more is never taken, because the status is read before the
  answer can have arrived.
\<close>

theorem updaterFunction_polls:
  "updaterFunction g data =
     (if e_status data \<in> {''SUCCEEDED'', ''FAILED'', ''KILLED''} then []
      else updateStatus g None data @ [Timer 120000 ''updaterFunction'']) \<and>
   Timer 500 ''updateStatus(0)'' \<notin> set (updaterFunction g data)"
  by (auto simp: updaterFunction_def keep_running_def updateStatus_def Let_def)

subsection \<open>Updates of the graph\<close>

lemma enode_map_get:
  "distinct (map (\<lambda>n. e_id (eattr n)) ns) \<Longrightarrow>
   obj_get (enode_map ns) k = Some i \<longleftrightarrow> i < length ns \<and> e_id (eattr (ns ! i)) = k"
  unfolding enode_map_def by (subst node_map_get) (auto simp: nth_eq_iff_index_eq)

definition enode_ids :: "enode list \<Rightarrow> string list" where
  "enode_ids ns = map (\<lambda>n. e_id (eattr n)) ns"

lemma updateGraph_attr: "updateGraph u n = Inr m \<Longrightarrow> eattr m = apply_update (uattr u) (eattr n)"
  by (cases u; cases n) (auto simp: updateGraph.simps and_then_Inr_iff)

lemma updateGraph_id: "updateGraph u n = Inr m \<Longrightarrow> e_id (eattr m) = e_id (eattr n)"
  by (simp add: updateGraph_attr apply_update_def)

definition step_update :: "enode list \<Rightarrow> unode \<Rightarrow> enode list result" where
  "step_update ns newNode =
     (case obj_get (enode_map ns) (u_id (uattr newNode)) of
        None \<Rightarrow> Inl TypeError
      | Some i \<Rightarrow> and_then (updateGraph newNode (ns ! i)) (\<lambda>m. Inr (ns[i := m])))"

lemma step_update_ids: "step_update ns u = Inr ms \<Longrightarrow> enode_ids ms = enode_ids ns"
proof -
  assume "step_update ns u = Inr ms"
  then obtain i m where m: "updateGraph u (ns ! i) = Inr m" "ms = ns[i := m]"
    by (auto simp: step_update_def and_then_Inr_iff split: option.splits)
  have "(map (\<lambda>n. e_id (eattr n)) ns)[i := e_id (eattr (ns ! i))] = map (\<lambda>n. e_id (eattr n)) ns"
  proof (cases "i < length ns")
    case True
    then have "e_id (eattr (ns ! i)) = map (\<lambda>n. e_id (eattr n)) ns ! i" by simp
    then show ?thesis by (simp only: list_update_id)
  qed (simp add: list_update_beyond)
  with m show "enode_ids ms = enode_ids ns" by (simp add: enode_ids_def map_update updateGraph_id)
qed

lemma step_update_nth:
  assumes "step_update ns u = Inr ms" "distinct (enode_ids ns)" "i < length ns"
  shows "if e_id (eattr (ns ! i)) = u_id (uattr u) then updateGraph u (ns ! i) = Inr (ms ! i) else ms ! i = ns ! i"
proof -
  from assms(1) obtain j m where m: "obj_get (enode_map ns) (u_id (uattr u)) = Some j"
    "updateGraph u (ns ! j) = Inr m" "ms = ns[j := m]"
    by (auto simp: step_update_def and_then_Inr_iff split: option.splits)
  then have j: "j < length ns" "e_id (eattr (ns ! j)) = u_id (uattr u)"
    using enode_map_get assms(2) by (auto simp: enode_ids_def)
  have "enode_ids ns ! i = enode_ids ns ! j \<longleftrightarrow> i = j"
    by (rule nth_eq_iff_index_eq[OF assms(2)]) (use assms(3) j(1) in \<open>simp_all add: enode_ids_def\<close>)
  then have "e_id (eattr (ns ! i)) = u_id (uattr u) \<longleftrightarrow> i = j"
    using j assms(3) by (simp add: enode_ids_def)
  with m j assms(3) show ?thesis by auto
qed

lemma updates_nth:
  assumes "fold_result step_update ns us = Inr ms" "distinct (enode_ids ns)" "distinct (map (u_id \<circ> uattr) us)" "i < length ns"
  shows "enode_ids ms = enode_ids ns \<and> (\<forall>u \<in> set us. u_id (uattr u) = e_id (eattr (ns ! i)) \<longrightarrow> updateGraph u (ns ! i) = Inr (ms ! i)) \<and>
    (e_id (eattr (ns ! i)) \<notin> u_id ` uattr ` set us \<longrightarrow> ms ! i = ns ! i)"
  using assms
proof (induction us arbitrary: ns)
  case (Cons u us)
  then obtain ns1 where s: "step_update ns u = Inr ns1" "fold_result step_update ns1 us = Inr ms"
    by (auto simp: and_then_Inr_iff)
  have ids: "enode_ids ns1 = enode_ids ns" by (rule step_update_ids[OF s(1)])
  then have len: "length ns1 = length ns" unfolding enode_ids_def by (metis length_map)
  have idi: "e_id (eattr (ns1 ! i)) = e_id (eattr (ns ! i))"
    using ids len Cons.prems(4) unfolding enode_ids_def by (metis nth_map)
  have ih: "enode_ids ms = enode_ids ns1"
    "\<forall>u \<in> set us. u_id (uattr u) = e_id (eattr (ns1 ! i)) \<longrightarrow> updateGraph u (ns1 ! i) = Inr (ms ! i)"
    "e_id (eattr (ns1 ! i)) \<notin> u_id ` uattr ` set us \<longrightarrow> ms ! i = ns1 ! i"
    using Cons.IH[OF s(2)] Cons.prems ids len by auto
  note st = step_update_nth[OF s(1) Cons.prems(2,4)]
  show ?case
  proof (cases "e_id (eattr (ns ! i)) = u_id (uattr u)")
    case True
    then have notin: "e_id (eattr (ns ! i)) \<notin> u_id ` uattr ` set us" using Cons.prems(3) by auto
    with ih(3) idi st True have "updateGraph u (ns ! i) = Inr (ms ! i)" by simp
    moreover have "\<forall>v \<in> set us. u_id (uattr v) \<noteq> e_id (eattr (ns ! i))" using notin by force
    ultimately show ?thesis using True ih(1) ids by simp
  next
    case False
    with st have "ns1 ! i = ns ! i" by simp
    with ih ids False show ?thesis by auto
  qed
qed simp

lemma updateGraph_steps:
  "updateGraph (UNode u us) (ENode a ns) = and_then (fold_result step_update ns us) (\<lambda>ns'. Inr (ENode (apply_update u a) ns'))"
  by (simp add: updateGraph.simps step_update_def[abs_def])

text \<open>
  An update changes exactly what it names: the flow takes the new status and times, a node that the
  update lists takes its own part of the update, every other node stays as it is, and no node appears,
  disappears or changes its name.
\<close>

theorem updateGraph_spec:
  assumes "updateGraph (UNode u us) (ENode a ns) = Inr m" "distinct (enode_ids ns)" "distinct (map (u_id \<circ> uattr) us)"
  shows "eattr m = apply_update u a \<and> enode_ids (enodes m) = enode_ids ns \<and>
    (\<forall>i < length ns. \<forall>v \<in> set us. u_id (uattr v) = e_id (eattr (ns ! i)) \<longrightarrow> updateGraph v (ns ! i) = Inr (enodes m ! i)) \<and>
    (\<forall>i < length ns. e_id (eattr (ns ! i)) \<notin> u_id ` uattr ` set us \<longrightarrow> enodes m ! i = ns ! i)"
proof -
  obtain ms where ms: "fold_result step_update ns us = Inr ms" "m = ENode (apply_update u a) ms"
    using assms(1) by (auto simp: updateGraph_steps and_then_Inr_iff)
  have "enode_ids ms = enode_ids ns"
    using ms(1)
  proof (rule fold_result_invariant[where P = "\<lambda>t. enode_ids t = enode_ids ns"])
    show "enode_ids t' = enode_ids ns" if "enode_ids t = enode_ids ns" "step_update t x = Inr t'" for t x t'
      using step_update_ids[OF that(2)] that(1) by simp
  qed simp
  with updates_nth[OF ms(1) assms(2,3)] ms(2) show ?thesis by simp
qed

definition demo_flow :: enode where
  "demo_flow = ENode running_attr [ENode (running_attr\<lparr>e_id := ''a''\<rparr>) [], ENode (running_attr\<lparr>e_id := ''b''\<rparr>) []]"

definition demo_update :: unode where
  "demo_update = UNode \<lparr>u_id = ''f'', u_status = ''RUNNING'', u_startTime = Some 1000, u_endTime = Some (-1), u_updateTime = Some 3000\<rparr>
     [UNode \<lparr>u_id = ''b'', u_status = ''SUCCEEDED'', u_startTime = Some 1500, u_endTime = Some 2900, u_updateTime = Some 2900\<rparr> []]"

theorem updateGraph_spec_witness:
  "\<exists>m. updateGraph demo_update demo_flow = Inr m \<and> enodes m ! 0 = enodes demo_flow ! 0 \<and>
     e_status (eattr (enodes m ! 1)) = ''SUCCEEDED''"
proof -
  define m where "m = (case updateGraph demo_update demo_flow of Inr m \<Rightarrow> m)"
  have m: "updateGraph demo_update demo_flow = Inr m" "e_status (eattr (enodes m ! 1)) = ''SUCCEEDED''"
    unfolding m_def by code_simp+
  obtain u us a ns where e: "demo_update = UNode u us" "demo_flow = ENode a ns" by (cases demo_update; cases demo_flow) blast
  have "distinct (enode_ids (enodes demo_flow))" "distinct (map (u_id \<circ> uattr) (unodes demo_update))" by code_simp+
  then have d: "distinct (enode_ids ns)" "distinct (map (u_id \<circ> uattr) us)" by (simp_all add: e)
  have "0 < length (enodes demo_flow)"
    "e_id (eattr (enodes demo_flow ! 0)) \<notin> u_id ` uattr ` set (unodes demo_update)" by code_simp+
  then have "enodes m ! 0 = enodes demo_flow ! 0"
    using updateGraph_spec[OF m(1)[unfolded e] d] by (simp add: e)
  with m show ?thesis by blast
qed

end
