(* ===== verification/Polling.thy ===== *)
theory Polling
  imports ExecPageProps
begin

text \<open>
  The loop between the page of a running flow and the server. The page asks for what has changed since
  the time of its own data (\<open>updateStatus\<close> in \<open>view/exflow.js\<close>), the server leaves out the nodes that
  have not changed since then (\<open>ExecutorServlet.getExecutableFlowUpdateInfo\<close>), the page puts the answer
  into its data (\<open>updateGraph\<close>). The flow goes on between the steps.
\<close>

subsection \<open>What the server sends\<close>

definition update_of :: "eattr \<Rightarrow> uattr" where
  "update_of a = \<lparr>u_id = e_id a, u_status = e_status a, u_startTime = e_startTime a, u_endTime = e_endTime a,
     u_updateTime = e_updateTime a\<rparr>"

definition changed_since :: "int \<Rightarrow> eattr \<Rightarrow> bool" where
  "changed_since T a \<longleftrightarrow> (case e_updateTime a of None \<Rightarrow> False | Some t \<Rightarrow> T < t)"

definition opt_list :: "'a option \<Rightarrow> 'a list" where
  "opt_list x = (case x of None \<Rightarrow> [] | Some y \<Rightarrow> [y])"

text \<open>A node is named if it has changed, or if a node inside it is named.\<close>

fun getExecutableFlowUpdateInfo :: "int \<Rightarrow> enode \<Rightarrow> unode option" where
  "getExecutableFlowUpdateInfo T (ENode a ns) =
     (let nodeList = concat (map (\<lambda>n. opt_list (getExecutableFlowUpdateInfo T n)) ns)
      in if changed_since T a \<or> nodeList \<noteq> [] then Some (UNode (update_of a) nodeList) else None)"

declare getExecutableFlowUpdateInfo.simps [simp del]

text \<open>The status and the times of the flow itself are always sent.\<close>

definition ajaxFetchExecutableFlowUpdate :: "int \<Rightarrow> enode \<Rightarrow> unode" where
  "ajaxFetchExecutableFlowUpdate T s =
     UNode (update_of (eattr s)) (concat (map (\<lambda>n. opt_list (getExecutableFlowUpdateInfo T n)) (enodes s)))"

text \<open>The time that the page asks for.\<close>

definition request_time :: "eattr \<Rightarrow> int" where
  "request_time a = (case e_updateTime a of None \<Rightarrow> 0 | Some t \<Rightarrow> t)"

lemma updateStatus_asks:
  "updateStatus g None data = [Get (contextURL g @ ''/executor'')
     [(''execid'', execId g), (''ajax'', ''fetchexecflowupdate''), (''lastUpdateTime'', show_int (request_time data))]]"
  by (simp add: updateStatus_def request_time_def)

lemma apply_update_of: "e_id a = e_id b \<Longrightarrow> e_submitUser a = e_submitUser b \<Longrightarrow> apply_update (update_of b) a = b"
  by (simp add: apply_update_def update_of_def)

lemma update_id: "getExecutableFlowUpdateInfo T n = Some u \<Longrightarrow> uattr u = update_of (eattr n)"
  by (cases n) (auto simp: getExecutableFlowUpdateInfo.simps Let_def split: if_splits)

lemma update_name: "getExecutableFlowUpdateInfo T n = Some u \<Longrightarrow> u_id (uattr u) = e_id (eattr n)"
  by (simp add: update_id update_of_def)

lemma opt_list_mem [simp]: "y \<in> set (opt_list x) \<longleftrightarrow> x = Some y"
  by (auto simp: opt_list_def split: option.splits)

subsection \<open>Two copies of a flow\<close>

text \<open>
  The page keeps the nodes of a flow in an order of its own, since the layout sorts them by name and the
  list of jobs by start; copies are compared by name.
\<close>

definition same_names :: "enode list \<Rightarrow> enode list \<Rightarrow> bool" where
  "same_names ns ms \<longleftrightarrow> distinct (enode_ids ns) \<and> distinct (enode_ids ms) \<and> set (enode_ids ns) = set (enode_ids ms)"

fun agree :: "enode \<Rightarrow> enode \<Rightarrow> bool" where
  "agree (ENode a ns) (ENode b ms) \<longleftrightarrow> a = b \<and> same_names ns ms \<and>
     (\<forall>n \<in> set ns. \<forall>m \<in> set ms. e_id (eattr n) = e_id (eattr m) \<longrightarrow> agree n m)"

text \<open>
  A copy may be behind the flow: what differs has changed after the given time. The attributes of the
  flow itself do not matter, because they are always sent.
\<close>

fun behind :: "int \<Rightarrow> enode \<Rightarrow> enode \<Rightarrow> bool" where
  "behind T (ENode a ns) (ENode b ms) \<longleftrightarrow> e_id a = e_id b \<and> e_submitUser a = e_submitUser b \<and>
     (a = b \<or> changed_since T b) \<and> same_names ns ms \<and>
     (\<forall>n \<in> set ns. \<forall>m \<in> set ms. e_id (eattr n) = e_id (eattr m) \<longrightarrow> behind T n m)"

definition flow_behind :: "int \<Rightarrow> enode \<Rightarrow> enode \<Rightarrow> bool" where
  "flow_behind T c s \<longleftrightarrow> e_id (eattr c) = e_id (eattr s) \<and> e_submitUser (eattr c) = e_submitUser (eattr s) \<and>
     same_names (enodes c) (enodes s) \<and>
     (\<forall>n \<in> set (enodes c). \<forall>m \<in> set (enodes s). e_id (eattr n) = e_id (eattr m) \<longrightarrow> behind T n m)"

declare agree.simps [simp del] behind.simps [simp del]

lemma same_names_partner:
  "same_names ns ms \<Longrightarrow> n \<in> set ns \<Longrightarrow> \<exists>m \<in> set ms. e_id (eattr n) = e_id (eattr m)"
  "same_names ns ms \<Longrightarrow> m \<in> set ms \<Longrightarrow> \<exists>n \<in> set ns. e_id (eattr n) = e_id (eattr m)"
  by (auto simp: same_names_def enode_ids_def) (metis imageE image_eqI)+

lemma enode_ids_unique:
  "distinct (enode_ids ns) \<Longrightarrow> n \<in> set ns \<Longrightarrow> m \<in> set ns \<Longrightarrow> e_id (eattr n) = e_id (eattr m) \<Longrightarrow> n = m"
  unfolding enode_ids_def by (auto dest: distinct_map[THEN iffD1] inj_onD)

lemma agree_behind: "agree c s \<Longrightarrow> behind T c s"
proof (induction c arbitrary: s)
  case (ENode a ns)
  obtain b ms where s: "s = ENode b ms" by (cases s)
  with ENode show ?case by (auto simp: agree.simps behind.simps)
qed

lemma agree_flow_behind: "agree c s \<Longrightarrow> flow_behind T c s"
  using agree_behind[of c s T] by (cases c; cases s) (auto simp: flow_behind_def behind.simps)

text \<open>What the server leaves out has not changed.\<close>

lemma unnamed_agrees: "behind T n m \<Longrightarrow> getExecutableFlowUpdateInfo T m = None \<Longrightarrow> agree n m"
proof (induction n arbitrary: m)
  case (ENode a ns)
  obtain b ms where m: "m = ENode b ms" by (cases m)
  have "\<not> changed_since T b" "\<forall>m \<in> set ms. getExecutableFlowUpdateInfo T m = None"
    using ENode.prems(2) unfolding m getExecutableFlowUpdateInfo.simps Let_def
    by (auto simp: opt_list_def split: if_splits option.splits)
  with ENode show ?case unfolding m by (auto simp: agree.simps behind.simps)
qed

subsection \<open>The answer makes the copies agree\<close>

lemma updates_ok:
  assumes "distinct (enode_ids ns)" "distinct (map (u_id \<circ> uattr) us)"
    "\<And>u. u \<in> set us \<Longrightarrow> \<exists>i < length ns. e_id (eattr (ns ! i)) = u_id (uattr u) \<and> (\<exists>m. updateGraph u (ns ! i) = Inr m)"
  shows "\<exists>ms. fold_result step_update ns us = Inr ms"
  using assms
proof (induction us arbitrary: ns)
  case (Cons u us)
  obtain i m where i: "i < length ns" "e_id (eattr (ns ! i)) = u_id (uattr u)" "updateGraph u (ns ! i) = Inr m"
    using Cons.prems(3)[of u] by auto
  have "obj_get (enode_map ns) (u_id (uattr u)) = Some i"
    using enode_map_get[of ns "u_id (uattr u)" i] Cons.prems(1) i by (simp add: enode_ids_def)
  then have st: "step_update ns u = Inr (ns[i := m])" using i(3) by (simp add: step_update_def)
  have ids: "enode_ids (ns[i := m]) = enode_ids ns" by (rule step_update_ids[OF st])
  have "\<exists>ms. fold_result step_update (ns[i := m]) us = Inr ms"
  proof (rule Cons.IH)
    show "\<exists>j < length (ns[i := m]). e_id (eattr (ns[i := m] ! j)) = u_id (uattr v) \<and> (\<exists>k. updateGraph v (ns[i := m] ! j) = Inr k)"
      if v: "v \<in> set us" for v
    proof -
      obtain j where j: "j < length ns" "e_id (eattr (ns ! j)) = u_id (uattr v)" "\<exists>k. updateGraph v (ns ! j) = Inr k"
        using Cons.prems(3)[of v] v by auto
      have "u_id (uattr u) \<noteq> u_id (uattr v)" using Cons.prems(2) v by (auto simp: image_iff)
      then have "j \<noteq> i" using i(2) j(2) by auto
      with j show ?thesis by auto
    qed
  qed (use Cons.prems ids in simp_all)
  then show ?case by (simp add: st)
qed simp

abbreviation named :: "int \<Rightarrow> enode list \<Rightarrow> unode list" where
  "named T ms \<equiv> concat (map (\<lambda>m. opt_list (getExecutableFlowUpdateInfo T m)) ms)"

lemma named_mem: "u \<in> set (named T ms) \<longleftrightarrow> (\<exists>m \<in> set ms. getExecutableFlowUpdateInfo T m = Some u)"
  by auto

lemma named_ids: "u_id ` uattr ` set (named T ms) \<subseteq> set (enode_ids ms)"
  using update_name by (auto simp: enode_ids_def)

lemma named_distinct: "distinct (enode_ids ms) \<Longrightarrow> distinct (map (u_id \<circ> uattr) (named T ms))"
proof (induction ms)
  case (Cons m ms)
  show ?case
  proof (cases "getExecutableFlowUpdateInfo T m")
    case (Some u)
    have "u_id (uattr u) \<notin> u_id ` uattr ` set (named T ms)"
      using named_ids[of T ms] Cons.prems update_id[OF Some] by (auto simp: enode_ids_def update_of_def)
    with Some Cons show ?thesis by (simp add: opt_list_def enode_ids_def image_comp)
  qed (use Cons in \<open>simp add: opt_list_def enode_ids_def\<close>)
qed simp

text \<open>One level, given the levels below.\<close>

lemma level_agrees:
  assumes same: "same_names ns ms" and at: "e_id a = e_id b" "e_submitUser a = e_submitUser b"
    and beh: "\<And>n m. n \<in> set ns \<Longrightarrow> m \<in> set ms \<Longrightarrow> e_id (eattr n) = e_id (eattr m) \<Longrightarrow> behind T n m"
    and sub: "\<And>n m u. n \<in> set ns \<Longrightarrow> behind T n m \<Longrightarrow> getExecutableFlowUpdateInfo T m = Some u \<Longrightarrow>
      \<exists>n'. updateGraph u n = Inr n' \<and> agree n' m"
  shows "\<exists>c. updateGraph (UNode (update_of b) (named T ms)) (ENode a ns) = Inr c \<and> agree c (ENode b ms)"
proof -
  have d: "distinct (enode_ids ns)" "distinct (enode_ids ms)" using same by (simp_all add: same_names_def)
  have "\<exists>i < length ns. e_id (eattr (ns ! i)) = u_id (uattr u) \<and> (\<exists>m. updateGraph u (ns ! i) = Inr m)"
    if u: "u \<in> set (named T ms)" for u
  proof -
    obtain m where m: "m \<in> set ms" "getExecutableFlowUpdateInfo T m = Some u" using u unfolding named_mem by blast
    then obtain n where n: "n \<in> set ns" "e_id (eattr n) = e_id (eattr m)" using same_names_partner(2)[OF same] by blast
    with m sub[OF n(1) beh] update_id[OF m(2)] show ?thesis by (fastforce simp: in_set_conv_nth update_of_def)
  qed
  then obtain ks where ks: "fold_result step_update ns (named T ms) = Inr ks"
    using updates_ok[OF d(1) named_distinct[OF d(2)]] by blast
  note nth = updates_nth[OF ks d(1) named_distinct[OF d(2)]]
  have ids: "enode_ids ks = enode_ids ns"
  proof (cases ns)
    case Nil
    then show ?thesis using same ks by (simp add: same_names_def enode_ids_def)
  qed (use nth[of 0] in simp)
  then have len: "length ks = length ns" unfolding enode_ids_def by (metis length_map)
  have "agree k m" if km: "k \<in> set ks" "m \<in> set ms" "e_id (eattr k) = e_id (eattr m)" for k m
  proof -
    obtain i where i: "i < length ns" "k = ks ! i" using km(1) len by (auto simp: in_set_conv_nth)
    have id: "e_id (eattr (ns ! i)) = e_id (eattr m)"
      using arg_cong[OF ids, of "\<lambda>l. l ! i"] i len km(3) by (simp add: enode_ids_def)
    have b: "behind T (ns ! i) m" using beh i(1) km(2) id by simp
    show ?thesis
    proof (cases "getExecutableFlowUpdateInfo T m")
      case None
      have "e_id (eattr (ns ! i)) \<notin> u_id ` uattr ` set (named T ms)"
        using None enode_ids_unique[OF d(2) _ km(2)] update_name id by fastforce
      then have "k = ns ! i" using nth[OF i(1)] i(2) by blast
      with unnamed_agrees[OF b None] show ?thesis by simp
    next
      case (Some u)
      then have "u \<in> set (named T ms)" "u_id (uattr u) = e_id (eattr (ns ! i))"
        using km(2) update_id[OF Some] id by (auto simp: named_mem update_of_def)
      then have "updateGraph u (ns ! i) = Inr k" using nth[OF i(1)] i(2) by blast
      with sub[OF nth_mem[OF i(1)] b Some] show ?thesis by simp
    qed
  qed
  then have "agree (ENode b ks) (ENode b ms)"
    using same ids by (simp add: agree.simps same_names_def)
  with ks at show ?thesis by (auto simp: updateGraph_steps apply_update_of)
qed

lemma node_agrees:
  "behind T c s \<Longrightarrow> getExecutableFlowUpdateInfo T s = Some u \<Longrightarrow> \<exists>c'. updateGraph u c = Inr c' \<and> agree c' s"
proof (induction c arbitrary: s u)
  case (ENode a ns)
  obtain b ms where s: "s = ENode b ms" by (cases s)
  have u: "u = UNode (update_of b) (named T ms)"
    using ENode.prems(2) by (simp add: s getExecutableFlowUpdateInfo.simps Let_def split: if_splits)
  show ?case
    unfolding s u by (rule level_agrees) (use ENode in \<open>auto simp: s behind.simps\<close>)
qed

lemma flow_agrees:
  assumes "flow_behind T c s"
  shows "\<exists>c'. updateGraph (ajaxFetchExecutableFlowUpdate T s) c = Inr c' \<and> agree c' s"
proof -
  obtain a ns b ms where cs: "c = ENode a ns" "s = ENode b ms" by (cases c; cases s)
  show ?thesis
    using assms unfolding cs ajaxFetchExecutableFlowUpdate_def enode.sel
    by (intro level_agrees) (auto simp: flow_behind_def intro: node_agrees)
qed

subsection \<open>Time passes\<close>

lemma changed_since_mono: "changed_since T a \<Longrightarrow> T' \<le> T \<Longrightarrow> changed_since T' a"
  by (auto simp: changed_since_def split: option.splits)

lemma behind_mono: "behind T c s \<Longrightarrow> T' \<le> T \<Longrightarrow> behind T' c s"
proof (induction c arbitrary: s)
  case (ENode a ns)
  obtain b ms where s: "s = ENode b ms" by (cases s)
  have "behind T' n m" if "n \<in> set ns" "m \<in> set ms" "e_id (eattr n) = e_id (eattr m)" for n m
    using ENode that by (simp add: s behind.simps)
  with ENode.prems show ?case using changed_since_mono by (auto simp: s behind.simps)
qed

lemma flow_behind_mono: "flow_behind T c s \<Longrightarrow> T' \<le> T \<Longrightarrow> flow_behind T' c s"
  unfolding flow_behind_def using behind_mono by blast

lemma same_names_trans: "same_names ns ms \<Longrightarrow> same_names ms ks \<Longrightarrow> same_names ns ks"
  by (simp add: same_names_def)

lemma same_names_middle:
  assumes "same_names ns ms" "same_names ms ks" "n \<in> set ns" "k \<in> set ks" "e_id (eattr n) = e_id (eattr k)"
  shows "\<exists>m \<in> set ms. e_id (eattr n) = e_id (eattr m) \<and> e_id (eattr m) = e_id (eattr k)"
proof -
  from same_names_partner(1)[OF assms(1,3)] obtain m where m: "m \<in> set ms" "e_id (eattr n) = e_id (eattr m)" ..
  show ?thesis by (rule bexI[OF _ m(1)]) (rule conjI[OF m(2) trans[OF m(2)[symmetric] assms(5)]])
qed

text \<open>What has changed in two periods has changed since the start of the first.\<close>

lemma behind_trans: "behind T c s \<Longrightarrow> behind T' s r \<Longrightarrow> T \<le> T' \<Longrightarrow> behind T c r"
proof (induction c arbitrary: s r)
  case (ENode a ns)
  obtain b ms d ks where sr: "s = ENode b ms" "r = ENode d ks" by (cases s; cases r)
  have names: "same_names ns ms" "same_names ms ks" using ENode.prems(1,2) by (simp_all add: sr behind.simps)
  have "behind T n k" if nk: "n \<in> set ns" "k \<in> set ks" "e_id (eattr n) = e_id (eattr k)" for n k
  proof -
    from same_names_middle[OF names nk] obtain m where
      m: "m \<in> set ms" "e_id (eattr n) = e_id (eattr m)" "e_id (eattr m) = e_id (eattr k)" by blast
    have "behind T n m" using ENode.prems(1) nk(1) m(1,2) unfolding sr behind.simps by blast
    moreover have "behind T' m k" using ENode.prems(2) nk(2) m(1,3) unfolding sr behind.simps by blast
    ultimately show ?thesis using ENode.IH[OF nk(1)] ENode.prems(3) by blast
  qed
  with ENode.prems same_names_trans[OF names] show ?case
    using changed_since_mono[OF _ ENode.prems(3)] by (auto simp: sr behind.simps)
qed

lemma flow_behind_trans:
  assumes "flow_behind T c s" "flow_behind T' s r" "T \<le> T'"
  shows "flow_behind T c r"
proof -
  have names: "same_names (enodes c) (enodes s)" "same_names (enodes s) (enodes r)"
    using assms(1,2) by (simp_all add: flow_behind_def)
  have "behind T n k" if nk: "n \<in> set (enodes c)" "k \<in> set (enodes r)" "e_id (eattr n) = e_id (eattr k)" for n k
  proof -
    from same_names_middle[OF names nk] obtain m where
      m: "m \<in> set (enodes s)" "e_id (eattr n) = e_id (eattr m)" "e_id (eattr m) = e_id (eattr k)" by blast
    have "behind T n m" "behind T' m k" using assms(1,2) nk m unfolding flow_behind_def by blast+
    then show ?thesis using behind_trans assms(3) by blast
  qed
  with assms(1,2) same_names_trans[OF names] show ?thesis by (simp add: flow_behind_def)
qed

lemma agree_attr: "agree c s \<Longrightarrow> eattr c = eattr s"
  by (cases c; cases s) (simp add: agree.simps)

subsection \<open>The session\<close>

text \<open>
  The flow goes on: a node that changes gets a time later than the last change that the flow reports, and
  this time does not go back. The answers that are on their way are kept with the oldest first, so are the
  requests: the updater and the buttons can ask while another request has not been answered yet.
\<close>

definition timed :: "enode \<Rightarrow> bool" where
  "timed s \<longleftrightarrow> e_updateTime (eattr s) \<noteq> None \<and> e_updateTime (eattr s) \<noteq> Some 0"

definition server_step :: "enode \<Rightarrow> enode \<Rightarrow> bool" where
  "server_step s s' \<longleftrightarrow> timed s' \<and> request_time (eattr s) \<le> request_time (eattr s') \<and> flow_behind (request_time (eattr s)) s s'"

record poll_state =
  ps_client :: enode
  ps_server :: enode
  ps_requests :: "int list"
  ps_answers :: "unode list"

inductive poll_step :: "poll_state \<Rightarrow> poll_state \<Rightarrow> bool" where
  poll_work: "server_step (ps_server p) s \<Longrightarrow> poll_step p (p\<lparr>ps_server := s\<rparr>)"
| poll_ask: "poll_step p (p\<lparr>ps_requests := ps_requests p @ [request_time (eattr (ps_client p))]\<rparr>)"
| poll_serve: "ps_requests p = T # Ts \<Longrightarrow>
    poll_step p (p\<lparr>ps_requests := Ts, ps_answers := ps_answers p @ [ajaxFetchExecutableFlowUpdate T (ps_server p)]\<rparr>)"
| poll_receive: "ps_answers p = u # us \<Longrightarrow> updateStatus_answer u (ps_client p) = Inr (c, es) \<Longrightarrow>
    poll_step p (p\<lparr>ps_client := c, ps_answers := us\<rparr>)"

inductive poll_run :: "enode \<Rightarrow> enode \<Rightarrow> poll_state \<Rightarrow> bool" for c s where
  poll_start: "agree c s \<Longrightarrow> timed s \<Longrightarrow> poll_run c s \<lparr>ps_client = c, ps_server = s, ps_requests = [], ps_answers = []\<rparr>"
| poll_next: "poll_run c s p \<Longrightarrow> poll_step p q \<Longrightarrow> poll_run c s q"

text \<open>What the page knows of the flow, and what it will know when the answers on their way arrive, each made
  from a flow with the property \<open>P\<close>.\<close>

definition known :: "enode \<Rightarrow> enode \<Rightarrow> bool" where
  "known c s \<longleftrightarrow> flow_behind (request_time (eattr c)) c s \<and> request_time (eattr c) \<le> request_time (eattr s)"

fun chain :: "(enode \<Rightarrow> bool) \<Rightarrow> enode \<Rightarrow> unode list \<Rightarrow> enode \<Rightarrow> bool" where
  "chain P c [] s \<longleftrightarrow> known c s"
| "chain P c (u # us) s \<longleftrightarrow> (\<exists>T r. u = ajaxFetchExecutableFlowUpdate T r \<and> T \<le> request_time (eattr c) \<and> P r \<and>
     known c r \<and> chain P r us s)"

lemma known_trans: "known c s \<Longrightarrow> known s r \<Longrightarrow> known c r"
  unfolding known_def using flow_behind_trans by fastforce

lemma known_agree: "agree c s \<Longrightarrow> known s r \<Longrightarrow> known c r"
  using known_trans[of c s r] agree_flow_behind agree_attr by (auto simp: known_def)

lemma server_known: "server_step s s' \<Longrightarrow> known s s'"
  by (simp add: server_step_def known_def)

lemma chain_known: "chain P c us s \<Longrightarrow> known c s"
  by (induction us arbitrary: c) (auto dest: known_trans)

lemma chain_agree: "agree c s \<Longrightarrow> chain P s us r \<Longrightarrow> chain P c us r"
  by (cases us) (auto simp: agree_attr dest: known_agree)

lemma chain_server: "chain P c us s \<Longrightarrow> server_step s s' \<Longrightarrow> chain P c us s'"
  by (induction us arbitrary: c) (auto dest: server_known known_trans)

lemma same_names_refl: "same_names ns ms \<Longrightarrow> same_names ms ms"
  by (simp add: same_names_def)

text \<open>A flow that a copy is behind of has distinct names at every level.\<close>

lemma behind_self: "behind T c s \<Longrightarrow> agree s s"
proof (induction s arbitrary: c)
  case (ENode b ms)
  obtain a ns where c: "c = ENode a ns" by (cases c)
  have names: "same_names ns ms" using ENode.prems by (simp add: c behind.simps)
  have "agree m k" if mk: "m \<in> set ms" "k \<in> set ms" "e_id (eattr m) = e_id (eattr k)" for m k
  proof -
    have "k = m" using enode_ids_unique[of ms] names mk by (auto simp: same_names_def)
    moreover obtain n where "n \<in> set ns" "e_id (eattr n) = e_id (eattr m)" using same_names_partner(2)[OF names mk(1)] by blast
    ultimately show ?thesis using ENode.IH[OF mk(1), of n] ENode.prems mk(1) by (simp add: c behind.simps)
  qed
  with same_names_refl[OF names] show ?case by (simp add: agree.simps)
qed

lemma flow_behind_self:
  assumes "flow_behind T c s"
  shows "agree s s"
proof -
  have "behind T (ENode (eattr s) (enodes c)) s"
    using assms by (cases s) (simp add: flow_behind_def behind.simps)
  then show ?thesis by (rule behind_self)
qed

lemma chain_serve:
  "chain P c us s \<Longrightarrow> T \<le> request_time (eattr c) \<Longrightarrow> P s \<Longrightarrow> chain P c (us @ [ajaxFetchExecutableFlowUpdate T s]) s"
proof (induction us arbitrary: c)
  case Nil
  then have "known c s" by simp
  moreover have "known s s"
    using \<open>known c s\<close> flow_behind_self agree_flow_behind unfolding known_def by blast
  ultimately show ?case using Nil by auto
next
  case (Cons u us)
  then obtain T' r where r: "u = ajaxFetchExecutableFlowUpdate T' r" "T' \<le> request_time (eattr c)" "P r" "known c r" "chain P r us s"
    by auto
  then have "T \<le> request_time (eattr r)" using Cons.prems(2) by (simp add: known_def)
  with r Cons.IH[OF r(5)] Cons.prems(3) show ?case by auto
qed

text \<open>An answer that was asked for no later than what the page knows brings it up to the flow that was served.\<close>

lemma receive_agrees:
  assumes "known c r" "T \<le> request_time (eattr c)" "timed r"
  shows "\<exists>c'. updateStatus_answer (ajaxFetchExecutableFlowUpdate T r) c = Inr (c', [Trigger ''change:update'']) \<and> agree c' r"
proof -
  have "flow_behind T c r" using assms(1,2) flow_behind_mono by (auto simp: known_def)
  then obtain c' where c': "updateGraph (ajaxFetchExecutableFlowUpdate T r) c = Inr c'" "agree c' r" using flow_agrees by blast
  have "u_updateTime (uattr (ajaxFetchExecutableFlowUpdate T r)) = e_updateTime (eattr r)"
    by (simp add: ajaxFetchExecutableFlowUpdate_def update_of_def)
  with assms(3) c' show ?thesis by (auto simp: updateStatus_answer_def timed_def)
qed

text \<open>The invariant of the session.\<close>

definition poll_inv :: "poll_state \<Rightarrow> bool" where
  "poll_inv p \<longleftrightarrow> timed (ps_server p) \<and> chain timed (ps_client p) (ps_answers p) (ps_server p) \<and>
     (\<forall>T \<in> set (ps_requests p). T \<le> request_time (eattr (ps_client p)))"

lemma poll_step_inv: "poll_step p q \<Longrightarrow> poll_inv p \<Longrightarrow> poll_inv q"
proof (induction rule: poll_step.induct)
  case (poll_work p s)
  then show ?case using chain_server by (auto simp: poll_inv_def server_step_def)
next
  case (poll_serve p T Ts)
  then show ?case using chain_serve by (auto simp: poll_inv_def)
next
  case (poll_receive p u us c es)
  then obtain T r where r: "u = ajaxFetchExecutableFlowUpdate T r" "T \<le> request_time (eattr (ps_client p))" "timed r"
    "known (ps_client p) r" "chain timed r us (ps_server p)" by (auto simp: poll_inv_def)
  have a: "agree c r" using receive_agrees[OF r(4,2,3)] poll_receive.hyps(2) by (auto simp: r(1))
  have "request_time (eattr (ps_client p)) \<le> request_time (eattr c)" using r(4) agree_attr[OF a] by (simp add: known_def)
  with poll_receive.prems chain_agree[OF a r(5)] show ?case by (fastforce simp: poll_inv_def)
qed (auto simp: poll_inv_def)

lemma poll_run_inv: "poll_run c s p \<Longrightarrow> poll_inv p"
proof (induction rule: poll_run.induct)
  case poll_start
  then have "known c s" using agree_flow_behind agree_attr by (auto simp: known_def)
  with poll_start show ?case by (simp add: poll_inv_def)
qed (rule poll_step_inv)


definition node_at_time :: "string \<Rightarrow> string \<Rightarrow> int \<Rightarrow> enode list \<Rightarrow> enode" where
  "node_at_time k st t ns = ENode \<lparr>e_id = k, e_status = st, e_startTime = Some 1, e_endTime = Some (-1), e_updateTime = Some t,
     e_submitUser = ''ann''\<rparr> ns"

definition flow_at :: "int \<Rightarrow> string \<times> int \<Rightarrow> string \<times> int \<Rightarrow> enode" where
  "flow_at t x y = node_at_time ''f'' ''RUNNING'' t [node_at_time ''x'' (fst x) (snd x) [], node_at_time ''y'' (fst y) (snd y) []]"

lemma flow_at_agree: "agree (flow_at t x y) (flow_at t x y)"
  by (simp add: flow_at_def node_at_time_def agree.simps same_names_def enode_ids_def)

lemma flow_at_step: "0 < t' \<Longrightarrow> t \<le> t' \<Longrightarrow> t < snd y' \<Longrightarrow> server_step (flow_at t x y) (flow_at t' x y')"
  by (auto simp: server_step_def timed_def request_time_def flow_behind_def flow_at_def node_at_time_def behind.simps
     same_names_def enode_ids_def changed_since_def)


text \<open>
  Both assumptions are needed. A change in the same millisecond as the last one reported is never sent.
  And when an old answer overtakes: the page knew of a change, asked for later ones only, then takes an
  older answer, and the change is lost for good.
\<close>

lemma same_millisecond_lost:
  "updateStatus_answer (ajaxFetchExecutableFlowUpdate 20 (flow_at 20 (''SUCCEEDED'', 20) (''READY'', 5)))
     (flow_at 20 (''RUNNING'', 20) (''READY'', 5)) =
   Inr (flow_at 20 (''RUNNING'', 20) (''READY'', 5), [Trigger ''change:update''])"
  by code_simp

lemma overtaking_answer_loses:
  "(let s1 = flow_at 12 (''RUNNING'', 12) (''READY'', 5); s2 = flow_at 15 (''SUCCEEDED'', 15) (''READY'', 5);
        s3 = flow_at 18 (''SUCCEEDED'', 15) (''RUNNING'', 18); receive = (\<lambda>T s c.
          case updateStatus_answer (ajaxFetchExecutableFlowUpdate T s) c of Inl e \<Rightarrow> c | Inr (c', es) \<Rightarrow> c')
    in receive 15 s3 (receive 10 s1 (receive 10 s2 (flow_at 10 (''READY'', 5) (''READY'', 5)))) =
       flow_at 18 (''RUNNING'', 12) (''RUNNING'', 18))"
  by code_simp

end
