(* ===== verification/Navigate.thy ===== *)
theory Navigate
  imports FlowModel
begin

text \<open>
  \<open>util/svg-navigate.js\<close>: panning and zooming of a graph. The state is what the plug-in keeps on
  an element: the last mouse position, the translation, the scale and its level, the running
  animation, and what is visible of it, the transforms of the \<open>g\<close> children and the transform in an
  attached model. A number the element does not have is NaN, which is what undefined is in every sum
  and product here; a missing level is None.
\<close>

record view_box =
  b_scale :: jsnum
  b_height :: jsnum
  b_width :: jsnum
  b_x1 :: jsnum
  b_y1 :: jsnum
  b_x2 :: jsnum
  b_y2 :: jsnum

record nav_settings =
  s_x :: jsnum
  s_y :: jsnum
  s_x2 :: jsnum
  s_y2 :: jsnum
  s_zoomIndex :: int
  s_zoomPoints :: "jsnum list"
  s_zoomNumLevels :: int

record animation =
  a_toScaleLevel :: int
  a_fromX :: jsnum
  a_fromY :: jsnum
  a_fromScale :: jsnum
  a_toScale :: jsnum
  a_toX :: jsnum
  a_toY :: jsnum
  a_startTime :: int
  a_endTime :: int

record nav =
  v_settings :: nav_settings
  v_mx :: jsnum
  v_my :: jsnum
  v_mDown :: bool
  v_tx :: jsnum
  v_ty :: jsnum
  v_scale :: jsnum
  v_zoomIndex :: "int option"
  v_zoomLevels :: "jsnum list"
  v_kids :: "(string \<times> (jsnum \<times> jsnum \<times> jsnum) option) list"
  v_divWidth :: jsnum
  v_divHeight :: jsnum
  v_model :: "view_box option option"
  v_triggers :: "string list"
  v_anim :: animation

subsection \<open>The transform\<close>

definition retransform :: "nav \<Rightarrow> nav" where
  "retransform t = t
     \<lparr>v_kids := map (\<lambda>(name, tr). (name, if name = ''g'' then Some (v_tx t, v_ty t, v_scale t) else tr)) (v_kids t),
      v_model := map_option (map_option (\<lambda>b. b
        \<lparr>b_scale := v_scale t, b_height := v_divHeight t, b_width := v_divWidth t,
         b_x1 := v_tx t, b_y1 := v_ty t,
         b_x2 := v_tx t + v_divWidth t * v_scale t, b_y2 := v_ty t + v_divHeight t * v_scale t\<rparr>)) (v_model t)\<rparr>"

definition nav_trigger :: "string \<Rightarrow> nav \<Rightarrow> nav" where
  "nav_trigger ev t = (if v_model t \<noteq> None then t\<lparr>v_triggers := v_triggers t @ [ev]\<rparr> else t)"

definition boundZoomLevel :: "nav \<Rightarrow> int \<Rightarrow> int" where
  "boundZoomLevel t level =
     (if s_zoomNumLevels (v_settings t) \<le> level then s_zoomNumLevels (v_settings t) - 1
      else if level \<le> 0 then 0 else level)"

text \<open>Reading \<open>zoomLevels\<close> outside its bounds is undefined.\<close>

definition level_scale :: "jsnum list \<Rightarrow> int \<Rightarrow> jsnum" where
  "level_scale ls i = (if 0 \<le> i \<and> nat i < length ls then ls ! nat i else NaN)"

definition scaleGraph :: "jsnum \<Rightarrow> jsnum \<Rightarrow> jsnum \<Rightarrow> nav \<Rightarrow> nav" where
  "scaleGraph scale x y t =
     (let sfactor = scale / v_scale t;
          t = t\<lparr>v_scale := scale,
                v_tx := sfactor * v_tx t + x - sfactor * x,
                v_ty := sfactor * v_ty t + y - sfactor * y\<rparr>
      in retransform (nav_trigger ''scaled'' t))"

definition translateDeltaGraph :: "jsnum \<Rightarrow> jsnum \<Rightarrow> nav \<Rightarrow> nav" where
  "translateDeltaGraph x y t =
     (let t = t\<lparr>v_tx := v_tx t + x, v_ty := v_ty t + y\<rparr>
      in retransform (nav_trigger ''panned'' t))"

subsection \<open>The mouse\<close>

record mouse =
  m_button :: int
  m_x :: jsnum
  m_y :: jsnum

definition set_mouse :: "mouse \<Rightarrow> bool \<Rightarrow> nav \<Rightarrow> nav" where
  "set_mouse e down t = t\<lparr>v_mx := m_x e, v_my := m_y e, v_mDown := down\<rparr>"

definition mouseUp :: "mouse \<Rightarrow> nav \<Rightarrow> nav" where
  "mouseUp e t = (if 1 < m_button e then t else set_mouse e False t)"

definition mouseDown :: "mouse \<Rightarrow> nav \<Rightarrow> nav" where
  "mouseDown e t = (if 1 < m_button e then t else set_mouse e True t)"

definition mouseOut :: "mouse \<Rightarrow> nav \<Rightarrow> nav" where
  "mouseOut e t = set_mouse e False t"

definition mouseDrag :: "jsnum \<Rightarrow> jsnum \<Rightarrow> nav \<Rightarrow> nav" where
  "mouseDrag dragX dragY t = translateDeltaGraph dragX dragY t"

definition mouseMove :: "mouse \<Rightarrow> nav \<Rightarrow> nav" where
  "mouseMove e t =
     (let t = (if v_mDown t then mouseDrag (m_x e - v_mx t) (m_y e - v_my t) t else t)
      in t\<lparr>v_mx := m_x e, v_my := m_y e\<rparr>)"

text \<open>
  The wheel. The listener is registered on the marked element, which is the event's
  \<open>currentTarget\<close>, so the search for an enclosing viewport does not start. A delta or detail that is
  missing or 0 is falsy.
\<close>

record wheel =
  w_wheelDelta :: "int option"
  w_detail :: "int option"
  w_offsetX :: "jsnum option"
  w_offsetY :: jsnum
  w_layerX :: jsnum
  w_layerY :: jsnum
  w_left :: jsnum
  w_top :: jsnum

definition wheel_delta :: "int option \<Rightarrow> int option \<Rightarrow> int" where
  "wheel_delta wd detail =
     (if wd \<noteq> None \<and> wd \<noteq> Some 0
      then (if 0 < the wd then \<lceil>of_int (the wd) / 120 :: rat\<rceil> else \<lfloor>of_int (the wd) / 120 :: rat\<rfloor>)
      else if detail \<noteq> None \<and> detail \<noteq> Some 0
      then (if 0 < the detail then - \<lceil>of_int (the detail) / 3 :: rat\<rceil> else - \<lfloor>of_int (the detail) / 3 :: rat\<rfloor>)
      else 0)"

definition wheel_point :: "wheel \<Rightarrow> jsnum \<times> jsnum" where
  "wheel_point e =
     (case w_offsetX e of
        Some x \<Rightarrow> if js_truthy x then (x, w_offsetY e) else (w_layerX e - w_left e, w_layerY e - w_top e)
      | None \<Rightarrow> (w_layerX e - w_left e, w_layerY e - w_top e))"

definition mouseScrolled :: "wheel \<Rightarrow> nav \<Rightarrow> nav" where
  "mouseScrolled e t =
     (let delta = wheel_delta (w_wheelDelta e) (w_detail e);
          zoomLevel = map_option (\<lambda>z. boundZoomLevel t (z + delta)) (v_zoomIndex t);
          t = t\<lparr>v_zoomIndex := zoomLevel\<rparr>;
          scale = (case zoomLevel of None \<Rightarrow> NaN | Some l \<Rightarrow> level_scale (v_zoomLevels t) l);
          (x, y) = wheel_point e
      in scaleGraph scale x y t)"

subsection \<open>Zoom levels\<close>

definition calculateZoomScale :: "int \<Rightarrow> int \<Rightarrow> jsnum list \<Rightarrow> jsnum" where
  "calculateZoomScale scaleLevel numLevels points =
     (if scaleLevel \<le> 0 then level_scale points 0
      else if numLevels \<le> scaleLevel then level_scale points (int (length points) - 1)
      else
        (let factor = (of_int scaleLevel / of_int numLevels) * of_int (int (length points) - 1) :: rat;
             floorIdx = \<lfloor>factor\<rfloor>; ceilingIdx = \<lceil>factor\<rceil>;
             b = Fin (factor - of_int floorIdx)
         in b * (level_scale points ceilingIdx - level_scale points floorIdx) + level_scale points floorIdx))"

text \<open>The scan for the first level above the scale; the index after the loop.\<close>

fun scan_level :: "jsnum \<Rightarrow> jsnum list \<Rightarrow> int \<Rightarrow> int" where
  "scan_level scale [] i = i"
| "scan_level scale (z # zs) i = (if scale < z then i - 1 else scan_level scale zs (i + 1))"

definition calculateZoomLevel :: "jsnum \<Rightarrow> jsnum list \<Rightarrow> int" where
  "calculateZoomLevel scale zoomLevels =
     (if level_scale zoomLevels (int (length zoomLevels) - 1) \<le> scale then int (length zoomLevels) - 1
      else if scale \<le> level_scale zoomLevels 0 then 0
      else (let i = scan_level scale zoomLevels 0 in if i < 0 then 0 else i))"

subsection \<open>Reset and animation\<close>

definition resetTransform :: "nav \<Rightarrow> nav" where
  "resetTransform t =
     (let s = v_settings t;
          t = t\<lparr>v_tx := s_x s, v_ty := s_y s\<rparr>
      in if s_x s < s_x2 s
         then
           (let width = s_x2 s - s_x s; height = s_y2 s - s_y s;
                aspectRatioGraph = height / width;
                aspectRatioDiv = v_divHeight t / v_divWidth t
            in t\<lparr>v_scale := (if aspectRatioDiv < aspectRatioGraph
                 then (v_divHeight t / height) * Fin (9 / 10) else (v_divWidth t / width) * Fin (9 / 10))\<rparr>)
         else
           (let z = boundZoomLevel t (s_zoomIndex s)
            in t\<lparr>v_zoomIndex := Some z, v_scale := level_scale (v_zoomLevels t) z\<rparr>))"

text \<open>
  One tick of the animation at a given time; the flag says that another tick is scheduled.
\<close>

definition animateTick :: "int \<Rightarrow> nav \<Rightarrow> nav \<times> bool" where
  "animateTick time t =
     (let a = v_anim t in
      if time < a_endTime a
      then
        (let progress = Fin (of_int (time - a_startTime a) / of_int (a_endTime a - a_startTime a))
         in (retransform (t
               \<lparr>v_scale := (a_toScale a - a_fromScale a) * progress + a_fromScale a,
                v_tx := (a_toX a - a_fromX a) * progress + a_fromX a,
                v_ty := (a_toY a - a_fromY a) * progress + a_fromY a\<rparr>), True))
      else
        (retransform (t
           \<lparr>v_zoomIndex := Some (a_toScaleLevel a),
            v_scale := level_scale (v_zoomLevels t) (a_toScaleLevel a),
            v_tx := a_toX a, v_ty := a_toY a\<rparr>), False))"

definition animateTransform :: "jsnum \<Rightarrow> jsnum \<Rightarrow> jsnum \<Rightarrow> int \<Rightarrow> int \<Rightarrow> nav \<Rightarrow> nav \<times> bool" where
  "animateTransform scale x y duration now t =
     (let zoomLevel = calculateZoomLevel scale (v_zoomLevels t)
      in animateTick now (t\<lparr>v_anim := \<lparr>a_toScaleLevel = zoomLevel, a_fromX = v_tx t, a_fromY = v_ty t,
           a_fromScale = v_scale t, a_toScale = level_scale (v_zoomLevels t) zoomLevel,
           a_toX = x, a_toY = y, a_startTime = now, a_endTime = now + duration\<rparr>\<rparr>))"

subsection \<open>The methods\<close>

definition nav_defaults :: nav_settings where
  "nav_defaults = \<lparr>s_x = Fin 0, s_y = Fin 0, s_x2 = Fin 0, s_y2 = Fin 0, s_zoomIndex = 24,
     s_zoomPoints = [Fin (1 / 10), Fin (14 / 100), Fin (2 / 10), Fin (4 / 10), Fin (8 / 10), Fin 1, Fin (16 / 10),
        Fin (24 / 10), Fin 4, Fin 8, Fin 16],
     s_zoomNumLevels = 48\<rparr>"

definition zoom_levels :: "nav_settings \<Rightarrow> jsnum list" where
  "zoom_levels s = map (\<lambda>i. calculateZoomScale (int i) (s_zoomNumLevels s) (s_zoomPoints s)) [0..<nat (s_zoomNumLevels s)]"

text \<open>Every element of the selection gets the same settings.\<close>

definition nav_init :: "nav_settings \<Rightarrow> nav \<Rightarrow> nav" where
  "nav_init settings t = resetTransform (t\<lparr>v_settings := settings, v_zoomLevels := zoom_levels settings\<rparr>)"

record box_args =
  x_x :: jsnum
  x_y :: jsnum
  x_width :: jsnum
  x_height :: jsnum
  x_maxScale :: jsnum
  x_minScale :: jsnum
  x_duration :: "int option"

definition box_scale :: "box_args \<Rightarrow> jsnum \<Rightarrow> jsnum \<Rightarrow> nav \<Rightarrow> jsnum" where
  "box_scale b width height t =
     (let aspectRatioGraph = height / width;
          aspectRatioDiv = v_divHeight t / v_divWidth t;
          scale = (if aspectRatioDiv < aspectRatioGraph
                   then (v_divHeight t / height) * Fin (9 / 10) else (v_divWidth t / width) * Fin (9 / 10));
          scale = (if js_truthy (x_maxScale b) then (if x_maxScale b < scale then x_maxScale b else scale) else scale)
      in if js_truthy (x_minScale b) then (if scale < x_minScale b then x_minScale b else scale) else scale)"

definition box_size :: "jsnum \<Rightarrow> jsnum" where
  "box_size w = (if js_truthy w then w else Fin 1)"

definition transformToBox :: "box_args \<Rightarrow> int \<Rightarrow> nav \<Rightarrow> nav \<times> bool" where
  "transformToBox b now t =
     (let width = box_size (x_width b); height = box_size (x_height b);
          scale = box_scale b width height t;
          sx = (v_divWidth t - width * scale) / Fin 2 - scale * x_x b;
          sy = (v_divHeight t - height * scale) / Fin 2 - scale * x_y b;
          duration = (case x_duration b of None \<Rightarrow> 500 | Some d \<Rightarrow> d)
      in animateTransform scale sx sy duration now t)"

text \<open>
  The transform given to the model takes \<open>x2\<close> from the height and \<open>y2\<close> from the width.
\<close>

definition attachNavigateModel :: "bool \<Rightarrow> nav \<Rightarrow> nav" where
  "attachNavigateModel given t =
     (if given
      then t\<lparr>v_model := Some (Some \<lparr>b_scale = v_scale t, b_height = v_divHeight t, b_width = v_divWidth t,
             b_x1 = v_tx t, b_y1 = v_ty t,
             b_x2 = v_tx t + v_divHeight t * v_scale t, b_y2 = v_ty t + v_divWidth t * v_scale t\<rparr>)\<rparr>
      else t\<lparr>v_model := None\<rparr>)"

end
