(* ===== verification/JsSort.thy ===== *)
theory JsSort
  imports Prelude
begin

text \<open>
  \<open>Array.prototype.sort\<close> with a comparison function, which the layout, the job list, the
  execution list, the schedule view and the table sorter call. The model is a stable insertion
  sort: the language (since ECMAScript 2019) requires the result to be a stable permutation
  sorted by the comparison function where that function is consistent, and leaves the order open
  where it is not. A comparison that returns NaN counts as 0.

  The locale \<open>comparator\<close> is the interface between the sort and its callers: the laws a
  comparison function must satisfy on the elements it is applied to. Each caller interprets it on
  its own comparison function.
\<close>

definition js_positive :: "jsnum \<Rightarrow> bool" where
  "js_positive c \<longleftrightarrow> Fin 0 < c"

lemma js_positive_Fin [simp]: "js_positive (Fin a) \<longleftrightarrow> 0 < a"
  by (simp add: js_positive_def)

lemma js_positive_NaN [simp]: "\<not> js_positive NaN"
  by (simp add: js_positive_def)

fun js_insert :: "('a \<Rightarrow> 'a \<Rightarrow> jsnum) \<Rightarrow> 'a \<Rightarrow> 'a list \<Rightarrow> 'a list" where
  "js_insert cmp x [] = [x]"
| "js_insert cmp x (y # ys) =
     (if js_positive (cmp x y) then y # js_insert cmp x ys else x # y # ys)"

fun js_sort :: "('a \<Rightarrow> 'a \<Rightarrow> jsnum) \<Rightarrow> 'a list \<Rightarrow> 'a list" where
  "js_sort cmp [] = []"
| "js_sort cmp (x # xs) = js_insert cmp x (js_sort cmp xs)"

text \<open>Facts that hold for every comparison function, consistent or not.\<close>

lemma mset_js_insert [simp]: "mset (js_insert cmp x xs) = add_mset x (mset xs)"
  by (induction xs) auto

lemma mset_js_sort [simp]: "mset (js_sort cmp xs) = mset xs"
  by (induction xs) auto

lemma set_js_sort [simp]: "set (js_sort cmp xs) = set xs"
  by (metis mset_js_sort set_mset_mset)

lemma length_js_sort [simp]: "length (js_sort cmp xs) = length xs"
  by (metis mset_js_sort size_mset)

lemma distinct_js_sort [simp]: "distinct (js_sort cmp xs) = distinct xs"
  by (metis mset_js_sort mset_eq_imp_distinct_iff)

lemma js_sort_nil_iff [simp]: "js_sort cmp xs = [] \<longleftrightarrow> xs = []"
  by (metis length_js_sort length_0_conv)

lemma js_insert_front: "\<not> (\<exists>y \<in> set ys. js_positive (cmp x y)) \<Longrightarrow> js_insert cmp x ys = x # ys"
  by (cases ys) auto

text \<open>A comparison function that never returns a positive number leaves every array as it is.\<close>

lemma js_sort_id:
  "(\<And>x y. x \<in> set xs \<Longrightarrow> y \<in> set xs \<Longrightarrow> \<not> js_positive (cmp x y)) \<Longrightarrow> js_sort cmp xs = xs"
  by (induction xs) (auto simp: js_insert_front)

lemma js_sort_map:
  "(\<And>x y. x \<in> set xs \<Longrightarrow> y \<in> set xs \<Longrightarrow> cmp' (f x) (f y) = cmp x y) \<Longrightarrow>
   js_sort cmp' (map f xs) = map f (js_sort cmp xs)"
proof (induction xs)
  case (Cons x xs)
  have ins: "set ys \<subseteq> set (x # xs) \<Longrightarrow> js_insert cmp' (f x) (map f ys) = map f (js_insert cmp x ys)"
    for ys using Cons.prems by (induction ys) auto
  from Cons ins[of "js_sort cmp xs"] show ?case by auto
qed simp

subsection \<open>Consistent comparison functions\<close>

locale comparator =
  fixes cmp :: "'a \<Rightarrow> 'a \<Rightarrow> jsnum"
    and ok :: "'a \<Rightarrow> bool"
  assumes antisym: "ok x \<Longrightarrow> ok y \<Longrightarrow> js_positive (cmp x y) \<Longrightarrow> \<not> js_positive (cmp y x)"
    and trans: "ok x \<Longrightarrow> ok y \<Longrightarrow> ok z \<Longrightarrow> \<not> js_positive (cmp x y) \<Longrightarrow> \<not> js_positive (cmp y z) \<Longrightarrow>
      \<not> js_positive (cmp x z)"
begin

text \<open>\<open>le x y\<close>: the comparison function does not ask for \<open>y\<close> before \<open>x\<close>.\<close>

definition le :: "'a \<Rightarrow> 'a \<Rightarrow> bool" where
  "le x y \<longleftrightarrow> \<not> js_positive (cmp x y)"

lemma le_total: "ok x \<Longrightarrow> ok y \<Longrightarrow> le x y \<or> le y x"
  unfolding le_def using antisym[of x y] by blast

lemma le_trans: "ok x \<Longrightarrow> ok y \<Longrightarrow> ok z \<Longrightarrow> le x y \<Longrightarrow> le y z \<Longrightarrow> le x z"
  unfolding le_def by (rule trans)

lemma sorted_insert:
  "ok x \<Longrightarrow> (\<And>y. y \<in> set ys \<Longrightarrow> ok y) \<Longrightarrow> sorted_wrt le ys \<Longrightarrow> sorted_wrt le (js_insert cmp x ys)"
proof (induction ys)
  case (Cons y ys)
  have set_ins: "set (js_insert cmp x ys) = insert x (set ys)"
    by (metis mset_js_insert set_mset_add_mset_insert set_mset_mset)
  show ?case
  proof (cases "js_positive (cmp x y)")
    case True
    with Cons have "le y x" using le_total[of x y] by (auto simp: le_def)
    with True Cons set_ins show ?thesis by auto
  next
    case False
    then have "le x y" by (simp add: le_def)
    moreover from Cons.prems have "\<And>z. z \<in> set ys \<Longrightarrow> le y z" by simp
    ultimately have "\<forall>z \<in> set (y # ys). le x z"
      using Cons.prems(1,2) le_trans[of x y] by simp
    with False Cons.prems(3) show ?thesis by simp
  qed
qed simp

lemma sort_sorted:
  "(\<And>x. x \<in> set xs \<Longrightarrow> ok x) \<Longrightarrow> sorted_wrt le (js_sort cmp xs)"
proof (induction xs)
  case (Cons x xs)
  then have "sorted_wrt le (js_insert cmp x (js_sort cmp xs))"
    by (intro sorted_insert) auto
  then show ?case by simp
qed simp

lemma sort_sorted_id: "sorted_wrt le xs \<Longrightarrow> js_sort cmp xs = xs"
  by (induction xs) (auto simp: le_def js_insert_front)

text \<open>Stability: elements that compare as equal keep their order.\<close>

lemma insert_stable:
  "(\<And>y. y \<in> set ys \<Longrightarrow> P x \<Longrightarrow> P y \<Longrightarrow> le x y) \<Longrightarrow>
   filter P (js_insert cmp x ys) = filter P (x # ys)"
  by (induction ys) (auto simp: le_def)

lemma sort_stable:
  "(\<And>x y. x \<in> set xs \<Longrightarrow> y \<in> set xs \<Longrightarrow> P x \<Longrightarrow> P y \<Longrightarrow> le x y) \<Longrightarrow>
   filter P (js_sort cmp xs) = filter P xs"
proof (induction xs)
  case (Cons x xs)
  then have "filter P (js_insert cmp x (js_sort cmp xs)) = filter P (x # js_sort cmp xs)"
    by (intro insert_stable) auto
  with Cons show ?case by auto
qed simp

text \<open>
  Two arrays that a consistent comparison orders strictly have one sorted arrangement: the result
  does not depend on the order the elements came in.
\<close>

lemma sort_unique:
  assumes ok: "\<And>x. x \<in> set xs \<Longrightarrow> ok x" and perm: "mset ys = mset xs"
    and strict: "\<And>x y. x \<in> set xs \<Longrightarrow> y \<in> set xs \<Longrightarrow> le x y \<Longrightarrow> le y x \<Longrightarrow> x = y"
  shows "js_sort cmp ys = js_sort cmp xs"
proof -
  have uniq: "sorted_wrt le as \<Longrightarrow> sorted_wrt le bs \<Longrightarrow> mset as = mset bs \<Longrightarrow>
    (\<And>x y. x \<in> set as \<Longrightarrow> y \<in> set as \<Longrightarrow> le x y \<Longrightarrow> le y x \<Longrightarrow> x = y) \<Longrightarrow> as = bs" for as bs
  proof (induction as arbitrary: bs)
    case (Cons a as)
    then obtain b bs' where bs: "bs = b # bs'" by (cases bs) auto
    have sets: "set (a # as) = set (b # bs')"
      using Cons.prems(3) bs by (metis set_mset_mset)
    have "a = b"
    proof (rule ccontr)
      assume ne: "a \<noteq> b"
      with sets have "b \<in> set as" "a \<in> set bs'" by auto
      with Cons.prems(1,2) bs have "le a b" "le b a" by auto
      with Cons.prems(4) \<open>b \<in> set as\<close> ne show False by auto
    qed
    with Cons.prems bs have "as = bs'" by (intro Cons.IH) auto
    with \<open>a = b\<close> bs show ?case by simp
  qed simp
  have "set ys = set xs" using perm by (metis set_mset_mset)
  with ok strict perm show ?thesis by (intro uniq sort_sorted) auto
qed

end

text \<open>
  The most common comparison function, the difference of a numeric key, is consistent on the
  elements whose key is a finite number; with NaN among the keys it is not.
\<close>

definition by_difference :: "('a \<Rightarrow> jsnum) \<Rightarrow> 'a \<Rightarrow> 'a \<Rightarrow> jsnum" where
  "by_difference key a b = key a - key b"

interpretation by_diff: comparator "by_difference key" "\<lambda>x. is_fin (key x)"
  for key :: "'a \<Rightarrow> jsnum"
  by unfold_locales (auto simp: by_difference_def is_fin_conv)

lemma by_diff_le_iff [simp]:
  "is_fin (key a) \<Longrightarrow> is_fin (key b) \<Longrightarrow> by_diff.le key a b \<longleftrightarrow> fin_val (key a) \<le> fin_val (key b)"
  by (auto simp: by_diff.le_def by_difference_def is_fin_conv)

end
