(* ===== verification/LayoutLevels.thy ===== *)
theory LayoutLevels
  imports FlowModel JsSort
begin

text \<open>
  The first half of \<open>prepareLayout\<close> in \<open>util/layout.js\<close>: sorting the nodes by name and
  assigning the levels by a breadth-first walk from the nodes without predecessors. The walk keeps
  no set of visited nodes: a node is queued again for every edge that leads to it, and its level is
  computed anew each time. Nodes are referred to by position. A level the walk has not assigned is
  None, the property that does not exist; in \<open>Math.max\<close> it turns into NaN.
\<close>

record gnode =
  g_id :: string
  g_label :: string
  g_width :: jsnum
  g_height :: jsnum
  g_in :: "string list"
  g_inNodes :: "nat list option"
  g_outNodes :: "nat list option"

subsection \<open>Sorting by name\<close>

definition str_cmp :: "string \<Rightarrow> string \<Rightarrow> jsnum" where
  "str_cmp a b = (if a < b then Fin (-1) else if b < a then Fin 1 else Fin 0)"

definition idSort :: "gnode \<Rightarrow> gnode \<Rightarrow> jsnum" where
  "idSort a b = str_cmp (g_id a) (g_id b)"

text \<open>
  The same function applied to the elements of \<open>node.in\<close>, which are names: the property \<open>id\<close> of
  a string is undefined, and undefined is neither smaller nor greater than undefined.
\<close>

definition idSort_on_names :: "string \<Rightarrow> string \<Rightarrow> jsnum" where
  "idSort_on_names a b = Fin 0"

interpretation by_id: comparator idSort "\<lambda>_. True"
  by unfold_locales (auto simp: idSort_def str_cmp_def split: if_splits)

lemma by_id_le: "by_id.le = (\<lambda>a b. g_id a \<le> g_id b)"
  by (intro ext) (auto simp: by_id.le_def idSort_def str_cmp_def)

text \<open>
  \<open>nodes.sort(idSort)\<close> puts the nodes into the order of their names, and with distinct names the
  result does not depend on the order the server sent them in. The sort of each node's \<open>in\<close> array
  with the same function changes nothing.
\<close>

theorem sort_by_id:
  "sorted (map g_id (js_sort idSort ns))"
  "mset (js_sort idSort ns) = mset ns"
  "js_sort idSort_on_names ps = ps"
proof -
  have "sorted_wrt by_id.le (js_sort idSort ns)" by (rule by_id.sort_sorted) simp
  then show "sorted (map g_id (js_sort idSort ns))" by (simp add: sorted_wrt_map by_id_le)
qed (auto intro: js_sort_id simp: idSort_on_names_def)

text \<open>
  With distinct names the sorted order does not depend on the order the server sent the nodes in.
\<close>

theorem sort_by_id_canonical:
  assumes "distinct (map g_id ns)" "mset ms = mset ns"
  shows "js_sort idSort ms = js_sort idSort ns"
proof (rule by_id.sort_unique)
  show "mset ms = mset ns" by (rule assms)
  show "x = y" if "x \<in> set ns" "y \<in> set ns" "by_id.le x y" "by_id.le y x" for x y
    using that assms(1) by (auto simp: distinct_map inj_on_def by_id_le)
qed simp

subsection \<open>The level walk\<close>

fun as_num :: "jsnum option \<Rightarrow> jsnum" where
  "as_num None = NaN"
| "as_num (Some x) = x"

definition node_level :: "gnode list \<Rightarrow> jsnum option list \<Rightarrow> nat \<Rightarrow> jsnum" where
  "node_level ns lv i =
     (case g_inNodes (ns ! i) of
        None \<Rightarrow> Fin 0
      | Some ps \<Rightarrow> foldl (\<lambda>l p. js_max l (as_num (lv ! p))) (Fin 0) ps + Fin 1)"

definition g_outs :: "gnode list \<Rightarrow> nat \<Rightarrow> nat list" where
  "g_outs ns i = (case g_outNodes (ns ! i) of None \<Rightarrow> [] | Some qs \<Rightarrow> qs)"

text \<open>The loop; the queue is what is left of \<open>nodeQueue\<close> from \<open>index\<close> on.\<close>

fun assign_levels :: "nat \<Rightarrow> gnode list \<Rightarrow> nat list \<Rightarrow> jsnum option list \<Rightarrow> jsnum option list result" where
  "assign_levels fuel ns [] lv = Inr lv"
| "assign_levels 0 ns (i # q) lv = Inl NoReturn"
| "assign_levels (Suc fuel) ns (i # q) lv =
     assign_levels fuel ns (q @ g_outs ns i) (lv[i := Some (node_level ns lv i)])"

definition start_nodes :: "gnode list \<Rightarrow> nat list" where
  "start_nodes ns = filter (\<lambda>i. g_inNodes (ns ! i) = None) [0..<length ns]"

definition compute_levels :: "nat \<Rightarrow> gnode list \<Rightarrow> jsnum option list \<Rightarrow> jsnum option list result" where
  "compute_levels fuel ns lv0 = assign_levels fuel ns (start_nodes ns) lv0"

subsection \<open>What the walk computes\<close>

text \<open>
  The graph as \<open>addFlow\<close> leaves it: references stay inside, \<open>outNodes\<close> is the converse of
  \<open>inNodes\<close>, and \<open>inNodes\<close> is only there when it holds a node.
\<close>

definition g_ins :: "gnode list \<Rightarrow> nat \<Rightarrow> nat list" where
  "g_ins ns i = (case g_inNodes (ns ! i) of None \<Rightarrow> [] | Some ps \<Rightarrow> ps)"

definition consistent :: "gnode list \<Rightarrow> bool" where
  "consistent ns \<longleftrightarrow>
     (\<forall>i < length ns. g_inNodes (ns ! i) \<noteq> Some [] \<and>
        (\<forall>p \<in> set (g_ins ns i). p < length ns \<and> i \<in> set (g_outs ns p)) \<and>
        (\<forall>q \<in> set (g_outs ns i). q < length ns \<and> i \<in> set (g_ins ns q)))"

lemma consistentD:
  assumes "consistent ns" "i < length ns"
  shows "g_inNodes (ns ! i) \<noteq> Some []"
    "p \<in> set (g_ins ns i) \<Longrightarrow> p < length ns \<and> i \<in> set (g_outs ns p)"
    "q \<in> set (g_outs ns i) \<Longrightarrow> q < length ns \<and> i \<in> set (g_ins ns q)"
  using assms unfolding consistent_def by blast+

lemma g_ins_Nil:
  assumes "consistent ns" "i < length ns"
  shows "g_ins ns i = [] \<longleftrightarrow> g_inNodes (ns ! i) = None"
  using consistentD(1)[OF assms] by (cases "g_inNodes (ns ! i)") (simp_all add: g_ins_def)

text \<open>\<open>ranked\<close>: a numbering of the nodes along the edges shows that there is no cycle.\<close>

definition ranked :: "gnode list \<Rightarrow> (nat \<Rightarrow> nat) \<Rightarrow> bool" where
  "ranked ns r \<longleftrightarrow> (\<forall>i < length ns. \<forall>p \<in> set (g_ins ns i). r p < r i)"

lemma rankedD: "ranked ns r \<Longrightarrow> i < length ns \<Longrightarrow> p \<in> set (g_ins ns i) \<Longrightarrow> r p < r i"
  unfolding ranked_def by blast

text \<open>The length of the longest path that ends in a node, by recursion of bounded depth.\<close>

fun longest :: "gnode list \<Rightarrow> nat \<Rightarrow> nat \<Rightarrow> nat" where
  "longest ns 0 i = 0"
| "longest ns (Suc k) i = (if g_ins ns i = [] then 0 else Suc (foldl max 0 (map (longest ns k) (g_ins ns i))))"

lemma longest_stable:
  "consistent ns \<Longrightarrow> ranked ns r \<Longrightarrow> i < length ns \<Longrightarrow> r i < k \<Longrightarrow> r i < k' \<Longrightarrow> longest ns k i = longest ns k' i"
proof (induction k arbitrary: i k')
  case (Suc k)
  then obtain k'' where k'': "k' = Suc k''" by (cases k') auto
  have "longest ns k p = longest ns k'' p" if p: "p \<in> set (g_ins ns i)" for p
  proof (rule Suc.IH[OF Suc.prems(1,2)])
    have "r p < r i" by (rule rankedD[OF Suc.prems(2,3) p])
    with Suc.prems k'' show "r p < k" "r p < k''" by linarith+
    show "p < length ns" using consistentD(2)[OF Suc.prems(1,3) p] by blast
  qed
  then have "map (longest ns k) (g_ins ns i) = map (longest ns k'') (g_ins ns i)"
    by (intro map_cong refl)
  then show ?case by (simp only: k'' longest.simps)
qed simp

definition depth :: "gnode list \<Rightarrow> (nat \<Rightarrow> nat) \<Rightarrow> nat \<Rightarrow> nat" where
  "depth ns r i = longest ns (Suc (r i)) i"

lemma depth_unfold:
  assumes "consistent ns" "ranked ns r" "i < length ns"
  shows "depth ns r i = (if g_ins ns i = [] then 0 else Suc (foldl max 0 (map (depth ns r) (g_ins ns i))))"
proof -
  have "longest ns (r i) p = depth ns r p" if p: "p \<in> set (g_ins ns i)" for p
    unfolding depth_def
    by (rule longest_stable[OF assms(1,2)])
      (use consistentD(2)[OF assms(1,3) p] rankedD[OF assms(2,3) p] in simp_all)
  then have "map (longest ns (r i)) (g_ins ns i) = map (depth ns r) (g_ins ns i)"
    by (intro map_cong refl)
  then show ?thesis by (simp only: depth_def[of ns r i] longest.simps)
qed

lemma foldl_max_ge: "(a :: nat) \<le> foldl max a xs" "x \<in> set xs \<Longrightarrow> x \<le> foldl max a xs"
proof -
  have "a \<le> foldl max a xs \<and> (\<forall>x \<in> set xs. x \<le> foldl max a xs)"
  proof (induction xs arbitrary: a)
    case (Cons y ys)
    from Cons.IH[of "max a y"] show ?case by auto
  qed simp
  then show "a \<le> foldl max a xs" "x \<in> set xs \<Longrightarrow> x \<le> foldl max a xs" by auto
qed

lemma foldl_max_mem: "foldl max a xs = a \<or> foldl max a xs \<in> set xs" for a :: nat
proof (induction xs arbitrary: a)
  case (Cons y ys)
  have "max a y = a \<or> max a y = y" by (auto simp: max_def)
  with Cons.IH[of "max a y"] show ?case by auto
qed simp

lemma depth_step:
  assumes "consistent ns" "ranked ns r" "i < length ns" "p \<in> set (g_ins ns i)"
  shows "depth ns r p < depth ns r i"
proof -
  have "depth ns r p \<le> foldl max 0 (map (depth ns r) (g_ins ns i))"
    using assms(4) by (intro foldl_max_ge(2)) simp
  moreover have "g_ins ns i \<noteq> []" using assms(4) by (cases "g_ins ns i") simp_all
  ultimately show ?thesis by (simp add: depth_unfold[OF assms(1-3)] less_Suc_eq_le)
qed

text \<open>The generations of the queue: what is queued after exactly \<open>k\<close> steps along edges.\<close>

fun generation :: "gnode list \<Rightarrow> nat \<Rightarrow> nat list" where
  "generation ns 0 = start_nodes ns"
| "generation ns (Suc k) = concat (map (g_outs ns) (generation ns k))"

lemma generation_bound: "consistent ns \<Longrightarrow> v \<in> set (generation ns k) \<Longrightarrow> v < length ns"
proof (induction k arbitrary: v)
  case (Suc k)
  then obtain u where u: "u \<in> set (generation ns k)" "v \<in> set (g_outs ns u)" by auto
  from Suc.IH[OF Suc.prems(1) u(1)] consistentD(3)[OF Suc.prems(1)] u(2) show ?case by blast
qed (simp add: start_nodes_def)

lemma generation_le_depth:
  "consistent ns \<Longrightarrow> ranked ns r \<Longrightarrow> v \<in> set (generation ns k) \<Longrightarrow> k \<le> depth ns r v"
proof (induction k arbitrary: v)
  case (Suc k)
  then obtain u where u: "u \<in> set (generation ns k)" "v \<in> set (g_outs ns u)" by auto
  have "u < length ns" by (rule generation_bound[OF Suc.prems(1) u(1)])
  from consistentD(3)[OF Suc.prems(1) this u(2)]
  have "v < length ns" "u \<in> set (g_ins ns v)" by simp_all
  from depth_step[OF Suc.prems(1,2) this] Suc.IH[OF Suc.prems(1,2) u(1)] show ?case by simp
qed simp

lemma depth_witness:
  assumes "consistent ns" "ranked ns r" "v < length ns" "depth ns r v = Suc m"
  shows "\<exists>p \<in> set (g_ins ns v). depth ns r p = m"
proof -
  let ?ds = "map (depth ns r) (g_ins ns v)"
  have ne: "g_ins ns v \<noteq> []" and m: "m = foldl max 0 ?ds"
    using assms(4) depth_unfold[OF assms(1-3)] by (simp_all split: if_splits)
  have "m \<in> set ?ds"
  proof (cases "m = 0")
    case True
    obtain p where p: "p \<in> set (g_ins ns v)" using ne by (cases "g_ins ns v") auto
    then have "depth ns r p \<le> m" unfolding m by (intro foldl_max_ge(2)) simp
    with True p show ?thesis by force
  next
    case False
    with foldl_max_mem[of 0 ?ds] m show ?thesis by metis
  qed
  then show ?thesis by auto
qed

lemma in_generation_depth:
  "consistent ns \<Longrightarrow> ranked ns r \<Longrightarrow> v < length ns \<Longrightarrow> depth ns r v = d \<Longrightarrow> v \<in> set (generation ns d)"
proof (induction d arbitrary: v)
  case 0
  then have "g_ins ns v = []" using depth_unfold[OF 0(1-3)] by (simp split: if_splits)
  then have "g_inNodes (ns ! v) = None" using g_ins_Nil[OF 0(1,3)] by simp
  with 0(3) show ?case by (simp add: start_nodes_def)
next
  case (Suc d)
  obtain p where p: "p \<in> set (g_ins ns v)" "depth ns r p = d"
    using depth_witness[OF Suc.prems] by blast
  from consistentD(2)[OF Suc.prems(1,3) p(1)]
  have "p < length ns" "v \<in> set (g_outs ns p)" by simp_all
  with Suc.IH[OF Suc.prems(1,2) _ p(2)] show ?case by auto
qed


subsection \<open>The walk, one generation at a time\<close>

definition level_step :: "gnode list \<Rightarrow> jsnum option list \<Rightarrow> nat \<Rightarrow> jsnum option list" where
  "level_step ns lv i = lv[i := Some (node_level ns lv i)]"

lemma length_level_steps [simp]: "length (foldl (level_step ns) lv q) = length lv"
  by (induction q arbitrary: lv) (simp_all add: level_step_def)

lemma assign_append:
  "assign_levels (length q + fuel) ns (q @ rest) lv =
   assign_levels fuel ns (rest @ concat (map (g_outs ns) q)) (foldl (level_step ns) lv q)"
  by (induction q arbitrary: rest lv) (simp_all add: level_step_def)

lemma assign_generation:
  "assign_levels (length (generation ns k) + fuel) ns (generation ns k) lv =
   assign_levels fuel ns (generation ns (Suc k)) (foldl (level_step ns) lv (generation ns k))"
  using assign_append[of "generation ns k" fuel ns "[]" lv] by simp

definition levels_below :: "gnode list \<Rightarrow> (nat \<Rightarrow> nat) \<Rightarrow> nat \<Rightarrow> jsnum option list \<Rightarrow> bool" where
  "levels_below ns r k lv \<longleftrightarrow> (\<forall>v < length ns. depth ns r v < k \<longrightarrow> lv ! v = Some (Fin (of_nat (depth ns r v))))"

lemma levels_belowD:
  "levels_below ns r k lv \<Longrightarrow> v < length ns \<Longrightarrow> depth ns r v < k \<Longrightarrow> lv ! v = Some (Fin (of_nat (depth ns r v)))"
  unfolding levels_below_def by blast

lemma js_max_levels:
  "(\<And>p. p \<in> set ps \<Longrightarrow> f p = Fin (of_nat (d p))) \<Longrightarrow>
   foldl (\<lambda>l p. js_max l (f p)) (Fin (of_nat a)) ps = Fin (of_nat (foldl max a (map d ps)))"
proof (induction ps arbitrary: a)
  case (Cons p ps)
  have "js_max (Fin (of_nat a)) (f p) = Fin (of_nat (max a (d p)))"
    using Cons.prems[of p] by (simp add: max_def)
  moreover have "foldl (\<lambda>l p. js_max l (f p)) (Fin (of_nat (max a (d p)))) ps =
      Fin (of_nat (foldl max (max a (d p)) (map d ps)))"
    by (rule Cons.IH) (rule Cons.prems, simp)
  ultimately show ?case by simp
qed simp

lemma node_level_correct:
  assumes "consistent ns" "ranked ns r" "v < length ns" "levels_below ns r (depth ns r v) lv"
  shows "node_level ns lv v = Fin (of_nat (depth ns r v))"
proof (cases "g_inNodes (ns ! v)")
  case None
  then have "g_ins ns v = []" by (simp add: g_ins_def)
  then show ?thesis using None depth_unfold[OF assms(1-3)] by (simp add: node_level_def)
next
  case (Some ps)
  then have ps: "g_ins ns v = ps" by (simp add: g_ins_def)
  have lvp: "lv ! p = Some (Fin (of_nat (depth ns r p)))" if "p \<in> set ps" for p
  proof (rule levels_belowD[OF assms(4)])
    show "p < length ns" using consistentD(2)[OF assms(1,3)] that ps by blast
    show "depth ns r p < depth ns r v" using depth_step[OF assms(1-3)] that ps by blast
  qed
  from js_max_levels[of ps "\<lambda>p. as_num (lv ! p)" "depth ns r" 0]
  have "foldl (\<lambda>l p. js_max l (as_num (lv ! p))) (Fin 0) ps = Fin (of_nat (foldl max 0 (map (depth ns r) ps)))"
    using lvp by simp
  moreover have "ps \<noteq> []" using consistentD(1)[OF assms(1,3)] Some by simp
  ultimately show ?thesis
    using Some ps depth_unfold[OF assms(1-3)] by (simp add: node_level_def add.commute)
qed

lemma level_step_below:
  assumes g: "consistent ns" "ranked ns r" "v < length ns" "k \<le> depth ns r v"
    and lv: "levels_below ns r k lv" "length lv = length ns"
  shows "levels_below ns r k (level_step ns lv v)"
    "depth ns r u = k \<Longrightarrow> u < length ns \<Longrightarrow> u = v \<or> lv ! u = Some (Fin (of_nat k)) \<Longrightarrow>
      level_step ns lv v ! u = Some (Fin (of_nat k))"
proof -
  show "levels_below ns r k (level_step ns lv v)"
    unfolding levels_below_def
  proof (intro allI impI)
    fix u
    assume u: "u < length ns" "depth ns r u < k"
    with g(4) have "u \<noteq> v" by auto
    then show "level_step ns lv v ! u = Some (Fin (of_nat (depth ns r u)))"
      using levels_belowD[OF lv(1) u] by (simp add: level_step_def)
  qed
  assume u: "depth ns r u = k" "u < length ns" "u = v \<or> lv ! u = Some (Fin (of_nat k))"
  show "level_step ns lv v ! u = Some (Fin (of_nat k))"
  proof (cases "u = v")
    case True
    with u have "node_level ns lv v = Fin (of_nat k)"
      using node_level_correct[OF g(1-3), of lv] lv(1) by simp
    with True u lv(2) show ?thesis by (simp add: level_step_def)
  next
    case False
    with u show ?thesis by (simp add: level_step_def)
  qed
qed

lemma generation_levels:
  assumes g: "consistent ns" "ranked ns r"
  shows "set q \<subseteq> {v. v < length ns \<and> k \<le> depth ns r v} \<Longrightarrow> levels_below ns r k lv \<Longrightarrow>
    length lv = length ns \<Longrightarrow>
    levels_below ns r k (foldl (level_step ns) lv q) \<and>
    (\<forall>u < length ns. depth ns r u = k \<longrightarrow> u \<in> set q \<or> lv ! u = Some (Fin (of_nat k)) \<longrightarrow>
       foldl (level_step ns) lv q ! u = Some (Fin (of_nat k)))"
proof (induction q arbitrary: lv)
  case (Cons v q)
  have v: "v < length ns" "k \<le> depth ns r v" using Cons.prems(1) by auto
  note step = level_step_below[OF g v Cons.prems(2,3)]
  have len: "length (level_step ns lv v) = length ns" using Cons.prems(3) by (simp add: level_step_def)
  have "set q \<subseteq> {v. v < length ns \<and> k \<le> depth ns r v}" using Cons.prems(1) by simp
  from Cons.IH[OF this step(1) len] step(2) show ?case by auto
qed simp

lemma levels_below_Suc:
  assumes "consistent ns" "ranked ns r" "levels_below ns r k lv" "length lv = length ns"
  shows "levels_below ns r (Suc k) (foldl (level_step ns) lv (generation ns k))"
proof -
  let ?lv = "foldl (level_step ns) lv (generation ns k)"
  have sub: "set (generation ns k) \<subseteq> {v. v < length ns \<and> k \<le> depth ns r v}"
    using generation_bound[OF assms(1)] generation_le_depth[OF assms(1,2)] by blast
  note gl = generation_levels[OF assms(1,2) sub assms(3,4)]
  show ?thesis unfolding levels_below_def
  proof (intro allI impI)
    fix v
    assume v: "v < length ns" "depth ns r v < Suc k"
    show "?lv ! v = Some (Fin (of_nat (depth ns r v)))"
    proof (cases "depth ns r v = k")
      case True
      with in_generation_depth[OF assms(1,2) v(1) True] gl v show ?thesis by blast
    next
      case False
      with v have "depth ns r v < k" by simp
      with levels_belowD[OF conjunct1[OF gl] v(1)] show ?thesis by blast
    qed
  qed
qed

lemma walk_generations:
  assumes "consistent ns" "ranked ns r" "length lv = length ns"
  shows "\<exists>lv'. length lv' = length ns \<and> levels_below ns r k lv' \<and>
    (\<forall>fuel. assign_levels ((\<Sum>j<k. length (generation ns j)) + fuel) ns (start_nodes ns) lv =
       assign_levels fuel ns (generation ns k) lv')"
proof (induction k)
  case 0
  show ?case by (intro exI[of _ lv]) (simp add: assms levels_below_def)
next
  case (Suc k)
  then obtain lv' where lv': "length lv' = length ns" "levels_below ns r k lv'"
    "\<And>fuel. assign_levels ((\<Sum>j<k. length (generation ns j)) + fuel) ns (start_nodes ns) lv =
       assign_levels fuel ns (generation ns k) lv'" by blast
  have "assign_levels ((\<Sum>j<Suc k. length (generation ns j)) + fuel) ns (start_nodes ns) lv =
      assign_levels fuel ns (generation ns (Suc k)) (foldl (level_step ns) lv' (generation ns k))" for fuel
    using lv'(3)[of "length (generation ns k) + fuel"] assign_generation[of ns k fuel lv']
    by (simp add: add.assoc)
  then show ?case
    using levels_below_Suc[OF assms(1,2) lv'(2,1)] lv'(1)
    by (intro exI[of _ "foldl (level_step ns) lv' (generation ns k)"]) simp
qed

lemma assign_levels_Nil: "assign_levels fuel ns [] lv = Inr lv"
  by (cases fuel) simp_all

text \<open>
  C6. On a graph without cycles the walk of \<open>prepareLayout\<close> ends, whatever levels the nodes had
  before, and gives every node the length of the longest path that leads to it: nodes are revisited
  for every path, and the last visit of a node comes after the last visit of its predecessors.
\<close>

theorem compute_levels_longest_path:
  assumes "consistent ns" "ranked ns r" "length lv0 = length ns"
  shows "\<exists>m. \<forall>fuel \<ge> m. compute_levels fuel ns lv0 =
    Inr (map (\<lambda>i. Some (Fin (of_nat (depth ns r i)))) [0..<length ns])"
proof -
  define k where "k = Suc (Max (insert 0 (depth ns r ` {..<length ns})))"
  have below: "depth ns r v < k" if "v < length ns" for v
    using that unfolding k_def by (auto simp: less_Suc_eq_le intro!: Max_ge)
  have "generation ns k = []"
  proof (rule ccontr)
    assume "generation ns k \<noteq> []"
    then obtain v where v: "v \<in> set (generation ns k)" by (cases "generation ns k") auto
    from generation_le_depth[OF assms(1,2) v] below[OF generation_bound[OF assms(1) v]]
    show False by simp
  qed
  moreover obtain lv where lv: "length lv = length ns" "levels_below ns r k lv"
    "\<And>fuel. assign_levels ((\<Sum>j<k. length (generation ns j)) + fuel) ns (start_nodes ns) lv0 =
       assign_levels fuel ns (generation ns k) lv"
    using walk_generations[OF assms] by blast
  moreover have "lv = map (\<lambda>i. Some (Fin (of_nat (depth ns r i)))) [0..<length ns]"
    by (rule nth_equalityI) (use lv(1) levels_belowD[OF lv(2)] below in simp_all)
  ultimately have "compute_levels ((\<Sum>j<k. length (generation ns j)) + fuel) ns lv0 =
      Inr (map (\<lambda>i. Some (Fin (of_nat (depth ns r i)))) [0..<length ns])" for fuel
    by (simp add: compute_levels_def assign_levels_Nil)
  then show ?thesis by (metis le_Suc_ex)
qed

definition sample_gnode :: "string \<Rightarrow> nat list option \<Rightarrow> nat list option \<Rightarrow> gnode" where
  "sample_gnode s ps qs = \<lparr>g_id = s, g_label = s, g_width = Fin 10, g_height = Fin 10, g_in = [],
     g_inNodes = ps, g_outNodes = qs\<rparr>"

definition sample_graph :: "gnode list" where
  "sample_graph =
    [sample_gnode ''a'' None (Some [1, 2]), sample_gnode ''b'' (Some [0]) (Some [2]),
     sample_gnode ''c'' (Some [0, 1]) None]"

theorem compute_levels_longest_path_witness:
  "\<exists>m. \<forall>fuel \<ge> m. compute_levels fuel sample_graph [None, Some (Fin 7), None] = Inr [Some (Fin 0), Some (Fin 1), Some (Fin 2)]"
proof -
  have len: "length sample_graph = 3" by (simp add: sample_graph_def)
  have all3: "(\<forall>i < length sample_graph. P i) \<longleftrightarrow> P 0 \<and> P 1 \<and> P 2" for P :: "nat \<Rightarrow> bool"
    unfolding len by (auto simp: less_Suc_eq numeral_3_eq_3 numeral_2_eq_2)
  have "consistent sample_graph"
    unfolding consistent_def all3 by (simp add: g_ins_def g_outs_def sample_graph_def sample_gnode_def)
  moreover have "ranked sample_graph id"
    unfolding ranked_def all3 by (simp add: g_ins_def sample_graph_def sample_gnode_def)
  ultimately have "\<exists>m. \<forall>fuel \<ge> m. compute_levels fuel sample_graph [None, Some (Fin 7), None] =
      Inr (map (\<lambda>i. Some (Fin (of_nat (depth sample_graph id i)))) [0..<length sample_graph])"
    by (rule compute_levels_longest_path) (simp add: len)
  moreover have "map (\<lambda>i. Some (Fin (of_nat (depth sample_graph id i)))) [0..<length sample_graph] = [Some (Fin 0), Some (Fin 1), Some (Fin 2)]"
    by code_simp
  ultimately show ?thesis by simp
qed

theorem sort_by_id_canonical_witness:
  "js_sort idSort [sample_graph ! 2, sample_graph ! 0] = js_sort idSort [sample_graph ! 0, sample_graph ! 2]"
proof (rule sort_by_id_canonical)
  show "distinct (map g_id [sample_graph ! 0, sample_graph ! 2])" by code_simp
qed simp

end
