(* ===== verification/LayoutSpread.thy ===== *)
theory LayoutSpread
  imports Prelude JsSort
begin

text \<open>
  The horizontal placement of one layer in \<open>util/layout.js\<close>: \<open>findAverage\<close> and
  \<open>spreadLayerSmart\<close>. A cell is a node of the layer with its position and width; the function
  reads and writes nothing else of the nodes. It gathers neighbours of equal position into ranges,
  pushes the ranges apart from the middle outwards, and puts the nodes of a range side by side.
\<close>

subsection \<open>Definitions\<close>

definition findAverage :: "jsnum list \<Rightarrow> jsnum" where
  "findAverage xs = foldl (\<lambda>s x. s + x) (Fin 0) xs / Fin (of_nat (length xs))"

record cell =
  c_x :: jsnum
  c_width :: jsnum

record range =
  r_start :: nat
  r_end :: nat
  r_width :: jsnum
  r_x :: jsnum

text \<open>The first loop: extend the last range or open a new one.\<close>

definition new_range :: "nat \<Rightarrow> cell \<Rightarrow> range" where
  "new_range i c = \<lparr>r_start = i, r_end = i, r_width = c_width c, r_x = c_x c\<rparr>"

definition add_cell :: "range list \<Rightarrow> nat \<times> cell \<Rightarrow> range list" where
  "add_cell rs ic = (case ic of (i, c) \<Rightarrow>
     (let prevRange = last rs; delta = c_x c - r_x prevRange in
      if delta = Fin 0
      then butlast rs @ [prevRange\<lparr>r_end := i, r_width := r_width prevRange + c_width c\<rparr>]
      else rs @ [new_range i c]))"

fun build_ranges :: "cell list \<Rightarrow> range list" where
  "build_ranges [] = []"
| "build_ranges (c # cs) = foldl add_cell [new_range 0 c] (zip [1..<Suc (length cs)] cs)"

definition right_edge :: "range \<Rightarrow> jsnum" where
  "right_edge r = r_x r + r_width r / Fin 2"

definition left_edge :: "range \<Rightarrow> jsnum" where
  "left_edge r = r_x r - r_width r / Fin 2"

definition split_middle :: "nat \<Rightarrow> nat \<Rightarrow> range list \<Rightarrow> range list" where
  "split_middle s e rs =
     (let crossPointS = right_edge (rs ! s); crossPointE = left_edge (rs ! e) in
      if crossPointE < crossPointS
      then (let midPoint = (r_x (rs ! s) + r_x (rs ! e)) / Fin 2 in
            rs[s := (rs ! s)\<lparr>r_x := midPoint - r_width (rs ! s) / Fin 2\<rparr>,
               e := (rs ! e)\<lparr>r_x := midPoint + r_width (rs ! e) / Fin 2\<rparr>])
      else rs)"

definition push_left :: "range list \<Rightarrow> nat \<Rightarrow> range list" where
  "push_left rs i =
     (let crossPointS = right_edge (rs ! i); crossPointE = left_edge (rs ! (i + 1)) in
      if crossPointE < crossPointS
      then rs[i := (rs ! i)\<lparr>r_x := r_x (rs ! i) - (crossPointS - crossPointE)\<rparr>] else rs)"

definition push_right :: "range list \<Rightarrow> nat \<Rightarrow> range list" where
  "push_right rs i =
     (let crossPointE = left_edge (rs ! i); crossPointS = right_edge (rs ! (i - 1)) in
      if crossPointE < crossPointS
      then rs[i := (rs ! i)\<lparr>r_x := r_x (rs ! i) + (crossPointS - crossPointE)\<rparr>] else rs)"

text \<open>
  The middle and the two loops outwards. \<open>startIndex + 1\<close> ranges lie before the first loop's
  start, so the loop counts down over \<open>rev [0..<startIndex + 1]\<close>; for an odd number of ranges
  the source rounds half of it up.
\<close>

definition space_ranges :: "range list \<Rightarrow> range list" where
  "space_ranges rs =
     (let n = length rs;
          (rs0, before, after) =
            (if n = 1 then (rs, 0, 1)
             else if n mod 2 = 1 then (let index = (n + 1) div 2 in (rs, index, index + 1))
             else (let e = n div 2; s = e - 1 in (split_middle s e rs, s, e + 1)));
          rs1 = foldl push_left rs0 (rev [0..<before])
      in foldl push_right rs1 [after..<n])"

text \<open>The last loop, over the positions \<open>xs\<close> of the layer.\<close>

definition place_member :: "jsnum list \<Rightarrow> jsnum list \<times> jsnum \<Rightarrow> nat \<Rightarrow> jsnum list \<times> jsnum" where
  "place_member ws st j = (case st of (xs, start) \<Rightarrow> (xs[j := start + ws ! j / Fin 2], start + ws ! j))"

definition place_range :: "jsnum list \<Rightarrow> jsnum list \<Rightarrow> range \<Rightarrow> jsnum list" where
  "place_range ws xs r =
     (if r_start r = r_end r then xs[r_start r := r_x r]
      else fst (foldl (place_member ws) (xs, left_edge r) [r_start r..<Suc (r_end r)]))"

definition spreadLayerSmart :: "cell list \<Rightarrow> jsnum list result" where
  "spreadLayerSmart layer =
     (if layer = [] then Inl TypeError
      else Inr (foldl (place_range (map c_width layer)) (map c_x layer) (space_ranges (build_ranges layer))))"

subsection \<open>Averages\<close>

lemma sum_fin: "\<forall>x \<in> set xs. is_fin x \<Longrightarrow> foldl (\<lambda>s x. s + x) (Fin a) xs = Fin (a + sum_list (map fin_val xs))"
proof (induction xs arbitrary: a)
  case (Cons x xs)
  then obtain b where "x = Fin b" by (auto simp: is_fin_conv)
  with Cons show ?case by (simp add: add.assoc)
qed simp

lemma findAverage_fin:
  "xs \<noteq> [] \<Longrightarrow> \<forall>x \<in> set xs. is_fin x \<Longrightarrow>
   findAverage xs = Fin (sum_list (map fin_val xs) / of_nat (length xs))"
  by (simp add: findAverage_def sum_fin)

lemma findAverage_Nil: "findAverage [] = NaN"
  by (simp add: findAverage_def)

subsection \<open>Ranges\<close>

definition fin_range :: "range \<Rightarrow> bool" where
  "fin_range r \<longleftrightarrow> is_fin (r_x r) \<and> is_fin (r_width r)"

definition lo :: "range \<Rightarrow> rat" where
  "lo r = fin_val (r_x r) - fin_val (r_width r) / 2"

definition hi :: "range \<Rightarrow> rat" where
  "hi r = fin_val (r_x r) + fin_val (r_width r) / 2"

lemma edges_fin: "fin_range r \<Longrightarrow> right_edge r = Fin (hi r)" "fin_range r \<Longrightarrow> left_edge r = Fin (lo r)"
  by (auto simp: fin_range_def is_fin_conv right_edge_def left_edge_def lo_def hi_def)

text \<open>The part of a range that the spacing leaves alone.\<close>

definition shape :: "range \<Rightarrow> nat \<times> nat \<times> jsnum" where
  "shape r = (r_start r, r_end r, r_width r)"

lemma shape_upd [simp]: "shape (r\<lparr>r_x := x\<rparr>) = shape r"
  by (simp add: shape_def)

lemma width_upd [simp]: "fin_val (r_width (r\<lparr>r_x := x\<rparr>)) = fin_val (r_width r)"
  by simp

definition fin_ranges :: "range list \<Rightarrow> bool" where
  "fin_ranges rs \<longleftrightarrow> (\<forall>r \<in> set rs. fin_range r)"

lemma fin_ranges_nth: "fin_ranges rs \<Longrightarrow> i < length rs \<Longrightarrow> fin_range (rs ! i)"
  by (simp add: fin_ranges_def)

lemma fin_ranges_update: "fin_ranges rs \<Longrightarrow> fin_range r \<Longrightarrow> fin_ranges (rs[i := r])"
  unfolding fin_ranges_def using set_update_subset_insert[of rs i r] by blast

lemma map_shape_update: "i < length rs \<Longrightarrow> shape r = shape (rs ! i) \<Longrightarrow> map shape (rs[i := r]) = map shape rs"
  by (simp add: map_update) (metis list_update_id nth_map)

text \<open>\<open>apart rs i\<close>: range \<open>i\<close> ends before the next one begins.\<close>

definition apart :: "range list \<Rightarrow> nat \<Rightarrow> bool" where
  "apart rs i \<longleftrightarrow> hi (rs ! i) \<le> lo (rs ! Suc i)"

lemma push_left_fin:
  assumes "fin_ranges rs" "Suc i < length rs"
  shows "fin_ranges (push_left rs i) \<and> map shape (push_left rs i) = map shape rs \<and>
    apart (push_left rs i) i \<and> lo (push_left rs i ! i) \<le> lo (rs ! i) \<and>
    (\<forall>j. j \<noteq> i \<longrightarrow> push_left rs i ! j = rs ! j) \<and> (apart rs i \<longrightarrow> push_left rs i = rs)"
proof -
  have f: "fin_range (rs ! i)" "fin_range (rs ! Suc i)"
    using assms by (auto intro: fin_ranges_nth)
  then obtain x w where xw: "r_x (rs ! i) = Fin x" "r_width (rs ! i) = Fin w"
    by (auto simp: fin_range_def is_fin_conv)
  show ?thesis
  proof (cases "lo (rs ! Suc i) < hi (rs ! i)")
    case True
    define r where "r = (rs ! i)\<lparr>r_x := Fin (x - (hi (rs ! i) - lo (rs ! Suc i)))\<rparr>"
    have pl: "push_left rs i = rs[i := r]"
      using True xw f by (simp add: push_left_def edges_fin Let_def r_def)
    have "fin_range r" "hi r = lo (rs ! Suc i)" "lo r \<le> lo (rs ! i)" "shape r = shape (rs ! i)"
      using xw True by (simp_all add: r_def fin_range_def hi_def lo_def)
    with pl True assms show ?thesis
      by (simp add: fin_ranges_update map_shape_update apart_def)
  next
    case False
    then have "push_left rs i = rs" using f by (simp add: push_left_def edges_fin Let_def)
    with False assms(1) show ?thesis by (simp add: apart_def)
  qed
qed

lemma push_right_fin:
  assumes "fin_ranges rs" "Suc i < length rs"
  shows "fin_ranges (push_right rs (Suc i)) \<and> map shape (push_right rs (Suc i)) = map shape rs \<and>
    apart (push_right rs (Suc i)) i \<and> hi (rs ! Suc i) \<le> hi (push_right rs (Suc i) ! Suc i) \<and>
    (\<forall>j. j \<noteq> Suc i \<longrightarrow> push_right rs (Suc i) ! j = rs ! j) \<and> (apart rs i \<longrightarrow> push_right rs (Suc i) = rs)"
proof -
  have f: "fin_range (rs ! i)" "fin_range (rs ! Suc i)"
    using assms by (auto intro: fin_ranges_nth)
  then obtain x w where xw: "r_x (rs ! Suc i) = Fin x" "r_width (rs ! Suc i) = Fin w"
    by (auto simp: fin_range_def is_fin_conv)
  show ?thesis
  proof (cases "lo (rs ! Suc i) < hi (rs ! i)")
    case True
    define r where "r = (rs ! Suc i)\<lparr>r_x := Fin (x + (hi (rs ! i) - lo (rs ! Suc i)))\<rparr>"
    have pl: "push_right rs (Suc i) = rs[Suc i := r]"
      using True xw f by (simp add: push_right_def edges_fin Let_def r_def)
    have "fin_range r" "lo r = hi (rs ! i)" "hi (rs ! Suc i) \<le> hi r" "shape r = shape (rs ! Suc i)"
      using xw True by (simp_all add: r_def fin_range_def hi_def lo_def)
    with pl True assms show ?thesis
      by (simp add: fin_ranges_update map_shape_update apart_def)
  next
    case False
    then have "push_right rs (Suc i) = rs" using f by (simp add: push_right_def edges_fin Let_def)
    with False assms(1) show ?thesis by (simp add: apart_def)
  qed
qed

lemma split_middle_fin:
  assumes "fin_ranges rs" "Suc s < length rs"
  shows "fin_ranges (split_middle s (Suc s) rs) \<and> map shape (split_middle s (Suc s) rs) = map shape rs \<and>
    apart (split_middle s (Suc s) rs) s \<and> (apart rs s \<longrightarrow> split_middle s (Suc s) rs = rs)"
proof -
  have f: "fin_range (rs ! s)" "fin_range (rs ! Suc s)"
    using assms by (auto intro: fin_ranges_nth)
  then obtain x w y v where xw: "r_x (rs ! s) = Fin x" "r_width (rs ! s) = Fin w"
    "r_x (rs ! Suc s) = Fin y" "r_width (rs ! Suc s) = Fin v"
    by (auto simp: fin_range_def is_fin_conv)
  show ?thesis
  proof (cases "lo (rs ! Suc s) < hi (rs ! s)")
    case True
    define p where "p = (rs ! s)\<lparr>r_x := Fin ((x + y) / 2 - w / 2)\<rparr>"
    define q where "q = (rs ! Suc s)\<lparr>r_x := Fin ((x + y) / 2 + v / 2)\<rparr>"
    have sp: "split_middle s (Suc s) rs = rs[s := p, Suc s := q]"
      using True xw f by (simp add: split_middle_def edges_fin Let_def p_def q_def)
    have "fin_range p" "fin_range q" "hi p = lo q" "shape p = shape (rs ! s)" "shape q = shape (rs ! Suc s)"
      using xw by (simp_all add: p_def q_def fin_range_def hi_def lo_def)
    with sp True assms show ?thesis
      by (simp add: fin_ranges_update map_shape_update apart_def)
  next
    case False
    then have "split_middle s (Suc s) rs = rs" using f by (simp add: split_middle_def edges_fin Let_def)
    with False assms(1) show ?thesis by (simp add: apart_def)
  qed
qed

lemma length_by_shape: "map shape rs = map shape rs' \<Longrightarrow> length rs = length rs'"
  by (metis length_map)

lemma push_left_loop:
  assumes "fin_ranges rs" "k < length rs"
  shows "fin_ranges (foldl push_left rs (rev [0..<k])) \<and>
    map shape (foldl push_left rs (rev [0..<k])) = map shape rs \<and>
    (\<forall>i < k. apart (foldl push_left rs (rev [0..<k])) i) \<and>
    (\<forall>j \<ge> k. foldl push_left rs (rev [0..<k]) ! j = rs ! j) \<and>
    (k = 0 \<or> lo (foldl push_left rs (rev [0..<k]) ! 0) \<le> lo (rs ! 0)) \<and>
    ((\<forall>i < k. apart rs i) \<longrightarrow> foldl push_left rs (rev [0..<k]) = rs)"
  using assms
proof (induction k arbitrary: rs)
  case (Suc k)
  note p = push_left_fin[OF Suc.prems(1), of k]
  define rs1 where "rs1 = push_left rs k"
  have p: "fin_ranges rs1" "map shape rs1 = map shape rs" "apart rs1 k"
    "\<And>j. j \<noteq> k \<Longrightarrow> rs1 ! j = rs ! j" "apart rs k \<Longrightarrow> rs1 = rs" "lo (rs1 ! k) \<le> lo (rs ! k)"
    using p Suc.prems(2) by (auto simp: rs1_def)
  have len: "k < length rs1" using Suc.prems(2) length_by_shape[OF p(2)] by simp
  note ih = Suc.IH[OF p(1) len]
  have unf: "foldl push_left rs (rev [0..<Suc k]) = foldl push_left rs1 (rev [0..<k])"
    by (simp add: rs1_def)
  have ap: "apart (foldl push_left rs1 (rev [0..<k])) i" if "i < Suc k" for i
  proof (cases "i = k")
    case True
    have "foldl push_left rs1 (rev [0..<k]) ! k = rs1 ! k"
      "foldl push_left rs1 (rev [0..<k]) ! Suc k = rs1 ! Suc k" using ih by simp_all
    with p(3) True show ?thesis by (simp add: apart_def)
  qed (use ih that in simp)
  have "lo (foldl push_left rs1 (rev [0..<k]) ! 0) \<le> lo (rs ! 0)"
  proof (cases "k = 0")
    case True
    with p(6) show ?thesis by simp
  next
    case False
    with ih p(4)[of 0] show ?thesis by auto
  qed
  with ih ap p show ?case unfolding unf by auto
qed simp

lemma push_right_loop:
  assumes "fin_ranges rs" "k + m = length rs" "0 < k"
  shows "fin_ranges (foldl push_right rs [k..<k + m]) \<and>
    map shape (foldl push_right rs [k..<k + m]) = map shape rs \<and>
    (\<forall>i. k \<le> Suc i \<and> Suc i < k + m \<longrightarrow> apart (foldl push_right rs [k..<k + m]) i) \<and>
    (\<forall>j < k. foldl push_right rs [k..<k + m] ! j = rs ! j) \<and>
    ((\<forall>i. k \<le> Suc i \<and> Suc i < k + m \<longrightarrow> apart rs i) \<longrightarrow> foldl push_right rs [k..<k + m] = rs)"
  using assms
proof (induction m arbitrary: rs k)
  case (Suc m)
  then obtain i where k: "k = Suc i" by (cases k) auto
  define rs1 where "rs1 = push_right rs k"
  have p: "fin_ranges rs1" "map shape rs1 = map shape rs" "apart rs1 i"
    "\<And>j. j \<noteq> k \<Longrightarrow> rs1 ! j = rs ! j" "apart rs i \<Longrightarrow> rs1 = rs"
    using push_right_fin[OF Suc.prems(1), of i] Suc.prems(2) k by (auto simp: rs1_def)
  have len: "Suc k + m = length rs1" using Suc.prems(2) length_by_shape[OF p(2)] by simp
  note ih = Suc.IH[OF p(1) len]
  have unf: "foldl push_right rs [k..<k + Suc m] = foldl push_right rs1 [Suc k..<Suc k + m]"
    using upt_conv_Cons[of k "k + Suc m"] by (simp add: rs1_def del: upt_Suc)
  have ap: "apart (foldl push_right rs1 [Suc k..<Suc k + m]) j"
    if "k \<le> Suc j" "Suc j < k + Suc m" for j
  proof (cases "j = i")
    case True
    have "foldl push_right rs1 [Suc k..<Suc k + m] ! i = rs1 ! i"
      "foldl push_right rs1 [Suc k..<Suc k + m] ! Suc i = rs1 ! Suc i" using ih k by simp_all
    with p(3) True show ?thesis by (simp add: apart_def)
  next
    case False
    with that k have "Suc k \<le> Suc j \<and> Suc j < Suc k + m" by simp
    with ih show ?thesis by simp
  qed
  have same: "(\<forall>j. k \<le> Suc j \<and> Suc j < k + Suc m \<longrightarrow> apart rs j) \<Longrightarrow>
      foldl push_right rs1 [Suc k..<Suc k + m] = rs"
  proof -
    assume a: "\<forall>j. k \<le> Suc j \<and> Suc j < k + Suc m \<longrightarrow> apart rs j"
    then have "rs1 = rs" using p(5) k by simp
    moreover have "\<forall>j. Suc k \<le> Suc j \<and> Suc j < Suc k + m \<longrightarrow> apart rs j" using a by simp
    ultimately show ?thesis using ih by simp
  qed
  from ih ap p same show ?case unfolding unf by auto
qed auto

text \<open>The two loops from a middle that is already apart to both ends.\<close>

definition push_out :: "nat \<Rightarrow> nat \<Rightarrow> nat \<Rightarrow> range list \<Rightarrow> range list" where
  "push_out b e n rs = foldl push_right (foldl push_left rs (rev [0..<b])) [e..<n]"

lemma push_out_fin:
  assumes rs0: "fin_ranges rs0" and b: "b < length rs0" "b < e" "e \<le> length rs0"
    and mid: "\<And>i. b \<le> i \<Longrightarrow> Suc i < e \<Longrightarrow> apart rs0 i"
  shows "fin_ranges (push_out b e (length rs0) rs0)" "map shape (push_out b e (length rs0) rs0) = map shape rs0"
    "Suc i < length rs0 \<Longrightarrow> apart (push_out b e (length rs0) rs0) i"
    "(\<And>i. Suc i < length rs0 \<Longrightarrow> apart rs0 i) \<Longrightarrow> push_out b e (length rs0) rs0 = rs0"
proof -
  define rs1 where "rs1 = foldl push_left rs0 (rev [0..<b])"
  have l: "fin_ranges rs1" "map shape rs1 = map shape rs0" "\<forall>i < b. apart rs1 i"
    "\<forall>j \<ge> b. rs1 ! j = rs0 ! j" "(\<forall>i < b. apart rs0 i) \<longrightarrow> rs1 = rs0"
    using push_left_loop[OF rs0, of b] b(1) by (auto simp: rs1_def)
  obtain m where m: "length rs0 = e + m" using b(3) le_Suc_ex by blast
  have len1: "e + m = length rs1" using length_by_shape[OF l(2)] m by simp
  define rs2 where "rs2 = foldl push_right rs1 [e..<e + m]"
  have r: "fin_ranges rs2" "map shape rs2 = map shape rs0"
    "\<forall>i. e \<le> Suc i \<and> Suc i < e + m \<longrightarrow> apart rs2 i" "\<forall>j < e. rs2 ! j = rs1 ! j"
    "(\<forall>i. e \<le> Suc i \<and> Suc i < e + m \<longrightarrow> apart rs1 i) \<longrightarrow> rs2 = rs1"
    using push_right_loop[OF l(1) len1] b(2) l(2) by (auto simp: rs2_def)
  have out: "push_out b e (length rs0) rs0 = rs2" by (simp add: push_out_def rs1_def rs2_def m)
  show "fin_ranges (push_out b e (length rs0) rs0)" "map shape (push_out b e (length rs0) rs0) = map shape rs0"
    unfolding out using r(1,2) by blast+
  show "apart (push_out b e (length rs0) rs0) i" if i: "Suc i < length rs0"
  proof (cases "Suc i < e")
    case True
    then have "rs2 ! i = rs1 ! i" "rs2 ! Suc i = rs1 ! Suc i" using r(4) by simp_all
    moreover have "apart rs1 i" using l(3,4) mid[of i] True by (cases "i < b") (simp_all add: apart_def)
    ultimately show ?thesis by (simp add: out apart_def)
  next
    case False
    then show ?thesis unfolding out using r(3) i m by simp
  qed
  show "push_out b e (length rs0) rs0 = rs0" if a: "\<And>i. Suc i < length rs0 \<Longrightarrow> apart rs0 i"
  proof -
    have "rs1 = rs0" using l(5) a b(1) by simp
    then show ?thesis unfolding out using r(5) a m by simp
  qed
qed

text \<open>\<open>space_ranges\<close> is these loops from one middle range, or from two that it first takes apart.\<close>

lemma space_ranges_middle:
  assumes "fin_ranges rs" "rs \<noteq> []"
  obtains rs0 b e where "space_ranges rs = push_out b e (length rs0) rs0" "fin_ranges rs0" "map shape rs0 = map shape rs"
    "b < length rs0" "b < e" "e \<le> length rs0" "\<And>i. b \<le> i \<Longrightarrow> Suc i < e \<Longrightarrow> apart rs0 i"
    "(\<And>i. Suc i < length rs \<Longrightarrow> apart rs i) \<Longrightarrow> rs0 = rs"
proof -
  consider "length rs = 1" | "length rs \<noteq> 1" "length rs mod 2 = 1" | "length rs \<noteq> 1" "length rs mod 2 \<noteq> 1"
    by blast
  then show ?thesis
  proof cases
    case 1
    then show ?thesis using assms by (intro that[of 0 1 rs]) (simp_all add: space_ranges_def push_out_def)
  next
    case 2
    then have "3 \<le> length rs" by presburger
    with 2 assms show ?thesis
      by (intro that[of "(length rs + 1) div 2" "(length rs + 1) div 2 + 1" rs])
        (simp_all add: space_ranges_def push_out_def Let_def)
  next
    case 3
    define s where "s = length rs div 2 - 1"
    have "2 \<le> length rs" using 3 assms(2) by (cases rs) (auto simp: Suc_le_eq)
    then have s: "Suc s = length rs div 2" "Suc s < length rs" using 3 by (auto simp: s_def)
    note sm = split_middle_fin[OF assms(1) s(2)]
    have len: "length (split_middle s (Suc s) rs) = length rs" by (rule length_by_shape) (use sm in blast)
    have e: "length rs div 2 - 1 = s" "length rs div 2 + 1 = s + 2" "length rs div 2 = Suc s" using s(1) by simp_all
    have "space_ranges rs = push_out s (s + 2) (length rs) (split_middle s (Suc s) rs)"
      using 3 unfolding space_ranges_def push_out_def Let_def e by simp
    moreover have "apart (split_middle s (Suc s) rs) i" if "s \<le> i" "Suc i < s + 2" for i
      using that sm by (cases "i = s") auto
    ultimately show ?thesis
      using sm s(2) len by (intro that[of s "s + 2" "split_middle s (Suc s) rs"]) simp_all
  qed
qed

lemma space_ranges_fin:
  assumes "fin_ranges rs" "rs \<noteq> []"
  shows "fin_ranges (space_ranges rs) \<and> map shape (space_ranges rs) = map shape rs \<and>
    (\<forall>i. Suc i < length rs \<longrightarrow> apart (space_ranges rs) i) \<and>
    ((\<forall>i. Suc i < length rs \<longrightarrow> apart rs i) \<longrightarrow> space_ranges rs = rs)"
proof -
  from assms obtain rs0 b e where m: "space_ranges rs = push_out b e (length rs0) rs0" "fin_ranges rs0"
    "map shape rs0 = map shape rs" "b < length rs0" "b < e" "e \<le> length rs0"
    "\<And>i. b \<le> i \<Longrightarrow> Suc i < e \<Longrightarrow> apart rs0 i" "(\<And>i. Suc i < length rs \<Longrightarrow> apart rs i) \<Longrightarrow> rs0 = rs"
    by (rule space_ranges_middle) blast
  note p = push_out_fin[OF m(2,4-7)]
  have len: "length rs0 = length rs" by (rule length_by_shape[OF m(3)])
  have "space_ranges rs = rs" if a: "\<forall>i. Suc i < length rs \<longrightarrow> apart rs i"
  proof -
    have "rs0 = rs" using m(8) a by blast
    then show ?thesis using p(4) a m(1) by simp
  qed
  then show ?thesis using p(1-3) m(1,3) len by simp
qed


subsection \<open>The ranges cover the layer\<close>

text \<open>
  The ranges of a layer are consecutive, and a range's width is the sum of its nodes' widths.
\<close>

definition members :: "range \<Rightarrow> nat list" where
  "members r = [r_start r..<Suc (r_end r)]"

definition covers :: "jsnum list \<Rightarrow> nat \<Rightarrow> range list \<Rightarrow> bool" where
  "covers ws n rs \<longleftrightarrow> concat (map members rs) = [0..<n] \<and>
     (\<forall>r \<in> set rs. r_start r \<le> r_end r \<and> fin_val (r_width r) = sum_list (map (\<lambda>j. fin_val (ws ! j)) (members r)))"

lemma covers_shape: "map shape rs = map shape rs' \<Longrightarrow> covers ws n rs \<longleftrightarrow> covers ws n rs'"
proof -
  assume eq: "map shape rs = map shape rs'"
  define mem where "mem = (\<lambda>(s :: nat \<times> nat \<times> jsnum). [fst s..<Suc (fst (snd s))])"
  have mem: "members r = mem (shape r)" for r by (simp add: members_def shape_def mem_def)
  have all: "(\<forall>r \<in> set rs. P (shape r)) = (\<forall>r \<in> set rs'. P (shape r))" for P
  proof -
    have "(\<forall>r \<in> set rs. P (shape r)) = (\<forall>s \<in> set (map shape rs). P s)" by simp
    also have "\<dots> = (\<forall>r \<in> set rs'. P (shape r))" unfolding eq by simp
    finally show ?thesis .
  qed
  have "concat (map members rs) = concat (map members rs')"
  proof -
    have "map members rs = map mem (map shape rs)" "map members rs' = map mem (map shape rs')"
      by (simp_all add: mem)
    with eq show ?thesis by metis
  qed
  moreover define Q where "Q = (\<lambda>s. fst s \<le> fst (snd s) \<and>
     fin_val (snd (snd s)) = sum_list (map (\<lambda>j. fin_val (ws ! j)) (mem s)))"
  have "covers ws n rs \<longleftrightarrow> concat (map members rs) = [0..<n] \<and> (\<forall>r \<in> set rs. Q (shape r))" for rs
    unfolding covers_def mem Q_def by (simp add: shape_def)
  ultimately show ?thesis using all[of Q] by simp
qed

lemma foldl_add_cell:
  assumes "length ws = n + length cs" "map c_width cs = drop n ws" "covers ws n rs" "rs \<noteq> []"
    "fin_ranges rs" "\<forall>c \<in> set cs. is_fin (c_x c) \<and> is_fin (c_width c)"
  shows "covers ws (length ws) (foldl add_cell rs (zip [n..<n + length cs] cs)) \<and>
    fin_ranges (foldl add_cell rs (zip [n..<n + length cs] cs)) \<and>
    foldl add_cell rs (zip [n..<n + length cs] cs) \<noteq> []"
  using assms
proof (induction cs arbitrary: n rs)
  case (Cons c cs)
  define rs1 where "rs1 = add_cell rs (n, c)"
  have n: "n < length ws" using Cons.prems(1) by simp
  have "c_width c # map c_width cs = ws ! n # drop (Suc n) ws"
    using Cons.prems(2) Cons_nth_drop_Suc[OF n] by simp
  then have w: "ws ! n = c_width c" "map c_width cs = drop (Suc n) ws" by simp_all
  obtain x v where xv: "c_x c = Fin x" "c_width c = Fin v" using Cons.prems(6) by (auto simp: is_fin_conv)
  obtain rs' r where rs: "rs = rs' @ [r]" using Cons.prems(4) by (cases rs rule: rev_cases) auto
  have r: "fin_range r" "r_start r \<le> r_end r" "fin_ranges rs'"
    using Cons.prems(3,5) by (auto simp: rs fin_ranges_def covers_def)
  have "covers ws (Suc n) rs1 \<and> fin_ranges rs1 \<and> rs1 \<noteq> []"
  proof (cases "c_x c - r_x r = Fin 0")
    case True
    define q where "q = r\<lparr>r_end := n, r_width := r_width r + c_width c\<rparr>"
    have rs1: "rs1 = rs' @ [q]" using True by (simp add: rs1_def add_cell_def rs q_def)
    have mr: "concat (map members rs') @ members r = [0..<n]"
      using Cons.prems(3) by (simp add: covers_def rs)
    have "last (concat (map members rs') @ members r) = r_end r"
      "concat (map members rs') @ members r \<noteq> []" using r(2) by (simp_all add: members_def)
    then have "last [0..<n] = r_end r" "[0..<n] \<noteq> []" unfolding mr .
    then have n': "n = Suc (r_end r)" by (cases n) simp_all
    have mq: "members q = members r @ [n]" using n' r(2) by (simp add: members_def q_def)
    have "fin_val (r_width q) = fin_val (r_width r) + v"
      using r(1) xv by (auto simp: q_def fin_range_def is_fin_conv)
    with mq mr Cons.prems(3) w(1) xv r(2) n' have "covers ws (Suc n) rs1"
      by (simp add: covers_def rs rs1 q_def flip: append_assoc)
    moreover have "fin_range q" using r(1) xv by (auto simp: q_def fin_range_def is_fin_conv)
    ultimately show ?thesis using r(3) by (simp add: rs1 fin_ranges_def)
  next
    case False
    then have rs1: "rs1 = rs @ [new_range n c]" by (simp add: rs1_def add_cell_def rs Let_def)
    have "covers ws (Suc n) rs1"
      using Cons.prems(3) w(1) by (simp add: covers_def rs1 new_range_def members_def)
    moreover have "fin_range (new_range n c)" using xv by (simp add: fin_range_def new_range_def)
    ultimately show ?thesis using Cons.prems(5) by (simp add: rs1 fin_ranges_def)
  qed
  then have "covers ws (length ws) (foldl add_cell rs1 (zip [Suc n..<Suc n + length cs] cs)) \<and>
    fin_ranges (foldl add_cell rs1 (zip [Suc n..<Suc n + length cs] cs)) \<and>
    foldl add_cell rs1 (zip [Suc n..<Suc n + length cs] cs) \<noteq> []"
    using Cons.prems w by (intro Cons.IH) auto
  moreover have "zip [n..<n + length (c # cs)] (c # cs) = (n, c) # zip [Suc n..<Suc n + length cs] cs"
    using upt_conv_Cons[of n "n + length (c # cs)"] by (simp del: upt_Suc)
  ultimately show ?case by (simp add: rs1_def)
qed simp

definition fin_cells :: "cell list \<Rightarrow> bool" where
  "fin_cells layer \<longleftrightarrow> (\<forall>c \<in> set layer. is_fin (c_x c) \<and> is_fin (c_width c))"

lemma build_ranges_fin:
  assumes "fin_cells layer" "layer \<noteq> []"
  shows "covers (map c_width layer) (length layer) (build_ranges layer) \<and> fin_ranges (build_ranges layer) \<and>
    build_ranges layer \<noteq> []"
proof -
  obtain c cs where l: "layer = c # cs" using assms(2) by (cases layer) auto
  have "covers (map c_width layer) 1 [new_range 0 c]" "fin_ranges [new_range 0 c]"
    using assms(1) by (simp_all add: covers_def new_range_def members_def l fin_ranges_def fin_range_def fin_cells_def)
  then have "covers (map c_width layer) (length (map c_width layer)) (foldl add_cell [new_range 0 c] (zip [1..<1 + length cs] cs)) \<and>
    fin_ranges (foldl add_cell [new_range 0 c] (zip [1..<1 + length cs] cs)) \<and>
    foldl add_cell [new_range 0 c] (zip [1..<1 + length cs] cs) \<noteq> []"
    using assms(1) by (intro foldl_add_cell) (simp_all add: l fin_cells_def)
  then show ?thesis by (simp only: l build_ranges.simps plus_1_eq_Suc length_map list.size add_Suc_right add_0_right simp_thms)
qed

subsection \<open>Writing the positions back\<close>

definition prefix_width :: "jsnum list \<Rightarrow> nat \<Rightarrow> nat \<Rightarrow> rat" where
  "prefix_width ws a j = (\<Sum>k \<in> {a..<j}. fin_val (ws ! k))"

lemma place_members:
  assumes "\<forall>j < length xs. is_fin (ws ! j)" "a \<le> b" "b \<le> length xs"
  shows "\<exists>ys. foldl (place_member ws) (xs, Fin s) [a..<b] = (ys, Fin (s + prefix_width ws a b)) \<and>
    length ys = length xs \<and>
    (\<forall>j < length xs. ys ! j = (if a \<le> j \<and> j < b
        then Fin (s + prefix_width ws a j + fin_val (ws ! j) / 2) else xs ! j))"
  using assms(2,3)
proof (induction b)
  case (Suc b)
  show ?case
  proof (cases "a = Suc b")
    case True
    then show ?thesis by (auto simp: prefix_width_def)
  next
    case False
    with Suc obtain ys where ys: "foldl (place_member ws) (xs, Fin s) [a..<b] = (ys, Fin (s + prefix_width ws a b))"
      "length ys = length xs" "\<And>j. j < length xs \<Longrightarrow> ys ! j = (if a \<le> j \<and> j < b
          then Fin (s + prefix_width ws a j + fin_val (ws ! j) / 2) else xs ! j)" by auto
    have ab: "a \<le> b" using False Suc.prems by simp
    have "is_fin (ws ! b)" using assms(1) Suc.prems by simp
    then obtain w where w: "ws ! b = Fin w" unfolding is_fin_conv ..
    have sum: "prefix_width ws a (Suc b) = prefix_width ws a b + w"
      using ab w by (simp add: prefix_width_def)
    let ?zs = "ys[b := Fin (s + prefix_width ws a b + w / 2)]"
    have "foldl (place_member ws) (xs, Fin s) [a..<Suc b] = (?zs, Fin (s + prefix_width ws a (Suc b)))"
      using ys(1) ab by (simp add: place_member_def w sum add.assoc)
    moreover have "?zs ! j = (if a \<le> j \<and> j < Suc b
          then Fin (s + prefix_width ws a j + fin_val (ws ! j) / 2) else xs ! j)" if "j < length xs" for j
      using ys(2,3) that ab w by (auto simp: nth_list_update less_Suc_eq)
    ultimately show ?thesis using ys(2) by (intro exI[of _ ?zs]) simp
  qed
qed (auto simp: prefix_width_def)

lemma covers_start:
  assumes "concat (map members (r # rs)) = [m..<n]" "r_start r \<le> r_end r"
  shows "r_start r = m \<and> r_end r < n \<and> concat (map members rs) = [Suc (r_end r)..<n]"
proof -
  have cc: "members r @ concat (map members rs) = [m..<n]" using assms(1) by simp
  have "members r \<noteq> []" "hd (members r) = r_start r" using assms(2) by (simp_all add: members_def del: upt_Suc)
  with cc have "[m..<n] \<noteq> []" "hd [m..<n] = r_start r" by (metis append_is_Nil_conv, metis hd_append2)
  then have ms: "r_start r = m" by (simp add: hd_upt)
  have "r_end r \<in> set (members r @ concat (map members rs))" using assms(2) by (simp add: members_def)
  then have en: "r_end r < n" unfolding cc by simp
  obtain k where k: "n = Suc (r_end r) + k" using en le_Suc_ex[of "Suc (r_end r)" n] by auto
  have "[m..<n] = [m..<Suc (r_end r)] @ [Suc (r_end r)..<n]"
    unfolding k by (rule upt_add_eq_append) (use ms assms(2) in simp)
  with cc ms en show ?thesis by (simp add: members_def del: upt_Suc)
qed

lemma place_range_fin:
  assumes "fin_range r" "\<forall>j < length xs. is_fin (ws ! j)" "r_start r \<le> r_end r" "r_end r < length xs"
    "fin_val (r_width r) = sum_list (map (\<lambda>j. fin_val (ws ! j)) (members r))"
  shows "length (place_range ws xs r) = length xs \<and> (\<forall>j < length xs. place_range ws xs r ! j =
    (if j \<in> set (members r) then Fin (lo r + prefix_width ws (r_start r) j + fin_val (ws ! j) / 2) else xs ! j))"
proof (cases "r_start r = r_end r")
  case True
  obtain x w where xw: "r_x r = Fin x" "r_width r = Fin w" using assms(1) by (auto simp: fin_range_def is_fin_conv)
  have "w = fin_val (ws ! r_start r)" using assms(5) True xw by (simp add: members_def)
  with True xw assms(4) show ?thesis
    by (auto simp: place_range_def members_def lo_def prefix_width_def nth_list_update)
next
  case False
  have se: "r_start r \<le> Suc (r_end r)" "Suc (r_end r) \<le> length xs" using assms(3,4) by simp_all
  obtain ys where ys: "foldl (place_member ws) (xs, Fin (lo r)) [r_start r..<Suc (r_end r)] =
      (ys, Fin (lo r + prefix_width ws (r_start r) (Suc (r_end r))))" "length ys = length xs"
    "\<And>j. j < length xs \<Longrightarrow> ys ! j = (if r_start r \<le> j \<and> j < Suc (r_end r)
        then Fin (lo r + prefix_width ws (r_start r) j + fin_val (ws ! j) / 2) else xs ! j)"
    using place_members[OF assms(2) se, of "lo r"] by blast
  have "place_range ws xs r = ys" using False ys(1) edges_fin(2)[OF assms(1)]
    by (simp add: place_range_def del: upt_Suc)
  with ys(2,3) show ?thesis by (simp add: members_def del: upt_Suc)
qed

text \<open>The first range that holds a position decides it, and consecutive ranges do not meet.\<close>

lemma place_ranges_fin:
  assumes "\<forall>j < length xs. is_fin (ws ! j)" "fin_ranges rs"
    "concat (map members rs) = [m..<length xs]"
    "\<forall>r \<in> set rs. r_start r \<le> r_end r \<and> fin_val (r_width r) = sum_list (map (\<lambda>j. fin_val (ws ! j)) (members r))"
  shows "length (foldl (place_range ws) xs rs) = length xs \<and>
    (\<forall>j < m. j < length xs \<longrightarrow> foldl (place_range ws) xs rs ! j = xs ! j) \<and>
    (\<forall>i < length rs. \<forall>j \<in> set (members (rs ! i)). foldl (place_range ws) xs rs ! j =
       Fin (lo (rs ! i) + prefix_width ws (r_start (rs ! i)) j + fin_val (ws ! j) / 2))"
  using assms
proof (induction rs arbitrary: xs m)
  case (Cons r rs)
  have r: "fin_range r" "r_start r \<le> r_end r" "fin_ranges rs"
    "fin_val (r_width r) = sum_list (map (\<lambda>j. fin_val (ws ! j)) (members r))"
    using Cons.prems(2,4) by (simp_all add: fin_ranges_def)
  have ms: "r_start r = m" and en: "r_end r < length xs"
    and rest: "concat (map members rs) = [Suc (r_end r)..<length xs]"
    using covers_start[OF Cons.prems(3) r(2)] by simp_all
  define xs1 where "xs1 = place_range ws xs r"
  have p: "length xs1 = length xs" "\<And>j. j < length xs \<Longrightarrow> xs1 ! j = (if j \<in> set (members r)
      then Fin (lo r + prefix_width ws (r_start r) j + fin_val (ws ! j) / 2) else xs ! j)"
    using place_range_fin[OF r(1) Cons.prems(1) r(2) en r(4)] by (auto simp: xs1_def)
  have ih: "length (foldl (place_range ws) xs1 rs) = length xs1 \<and>
    (\<forall>j < Suc (r_end r). j < length xs1 \<longrightarrow> foldl (place_range ws) xs1 rs ! j = xs1 ! j) \<and>
    (\<forall>i < length rs. \<forall>j \<in> set (members (rs ! i)). foldl (place_range ws) xs1 rs ! j =
       Fin (lo (rs ! i) + prefix_width ws (r_start (rs ! i)) j + fin_val (ws ! j) / 2))"
    using Cons.prems(1,4) r(3) rest p(1) by (intro Cons.IH) simp_all
  have first: "foldl (place_range ws) xs1 rs ! j = xs1 ! j" if "j \<le> r_end r" for j
    using ih that en p(1) by simp
  have mem: "j \<in> set (members r) \<longleftrightarrow> m \<le> j \<and> j \<le> r_end r" for j using ms r(2) by (auto simp: members_def)
  show ?case
  proof (intro conjI allI impI ballI)
    fix j
    assume "j < m" "j < length xs"
    then show "foldl (place_range ws) xs (r # rs) ! j = xs ! j"
      using first[of j] p(2)[of j] mem[of j] ms r(2) by (simp add: xs1_def[symmetric])
  next
    fix i j
    assume "i < length (r # rs)" and j: "j \<in> set (members ((r # rs) ! i))"
    show "foldl (place_range ws) xs (r # rs) ! j = Fin (lo ((r # rs) ! i) +
        prefix_width ws (r_start ((r # rs) ! i)) j + fin_val (ws ! j) / 2)"
    proof (cases i)
      case 0
      with j mem[of j] have "j \<le> r_end r" "j < length xs" using en by simp_all
      with first[of j] p(2)[of j] j 0 show ?thesis by (simp add: xs1_def[symmetric])
    next
      case (Suc i')
      with \<open>i < length (r # rs)\<close> j ih show ?thesis by (simp add: xs1_def[symmetric])
    qed
  qed (use ih p(1) in \<open>simp add: xs1_def[symmetric]\<close>)
qed simp


subsection \<open>Nodes of a layer do not overlap\<close>

lemma neighbours_in_ranges:
  assumes "concat (map members rs) = [m..<n]" "\<forall>r \<in> set rs. r_start r \<le> r_end r" "m \<le> i" "i < n"
  shows "\<exists>k < length rs. i \<in> set (members (rs ! k)) \<and>
    (Suc i < n \<longrightarrow> Suc i \<in> set (members (rs ! k)) \<or>
      Suc k < length rs \<and> r_end (rs ! k) = i \<and> r_start (rs ! Suc k) = Suc i)"
  using assms
proof (induction rs arbitrary: m)
  case (Cons r rs)
  have r: "r_start r \<le> r_end r" using Cons.prems(2) by simp
  note c = covers_start[OF Cons.prems(1) r]
  have rest: "concat (map members rs) = [Suc (r_end r)..<n]" using c by simp
  consider "i < r_end r" | "i = r_end r" | "r_end r < i" by linarith
  then show ?case
  proof cases
    case 1
    with c Cons.prems show ?thesis by (intro exI[of _ 0]) (auto simp: members_def)
  next
    case 2
    have "Suc i < n \<longrightarrow> rs \<noteq> [] \<and> r_start (rs ! 0) = Suc i"
    proof
      assume i: "Suc i < n"
      have "rs \<noteq> []"
      proof
        assume "rs = []"
        with rest have "[Suc (r_end r)..<n] = []" by simp
        with i 2 show False by simp
      qed
      then obtain r' rs' where rs: "rs = r' # rs'" by (cases rs) auto
      have "r_start r' \<le> r_end r'" using Cons.prems(2) rs by simp
      with covers_start[of r' rs' "Suc (r_end r)" n] rest rs 2 show "rs \<noteq> [] \<and> r_start (rs ! 0) = Suc i" by simp
    qed
    with 2 c Cons.prems show ?thesis by (intro exI[of _ 0]) (simp add: members_def)
  next
    case 3
    then have i: "Suc (r_end r) \<le> i" by simp
    have ok: "\<forall>r \<in> set rs. r_start r \<le> r_end r" using Cons.prems(2) by simp
    obtain k where "k < length rs" "i \<in> set (members (rs ! k))"
      "Suc i < n \<longrightarrow> Suc i \<in> set (members (rs ! k)) \<or>
        Suc k < length rs \<and> r_end (rs ! k) = i \<and> r_start (rs ! Suc k) = Suc i"
      using Cons.IH[OF rest ok i Cons.prems(4)] by blast
    then show ?thesis by (intro exI[of _ "Suc k"]) simp
  qed
next
  case Nil
  then have "[m..<n] = []" by simp
  with Nil show ?case by simp
qed

lemma prefix_width_Suc: "a \<le> j \<Longrightarrow> prefix_width ws a (Suc j) = prefix_width ws a j + fin_val (ws ! j)"
  by (simp add: prefix_width_def)

lemma prefix_width_range:
  "fin_val (r_width r) = sum_list (map (\<lambda>j. fin_val (ws ! j)) (members r)) \<Longrightarrow>
   prefix_width ws (r_start r) (Suc (r_end r)) = fin_val (r_width r)"
  by (simp add: prefix_width_def members_def interv_sum_list_conv_sum_set_nat del: upt_Suc)

text \<open>
  Where the ranges lie apart and every box is at the place its range gives it, the boxes do not overlap:
  two neighbours are in one range, or at the end of one and the start of the next.
\<close>

definition boxes_placed :: "jsnum list \<Rightarrow> range list \<Rightarrow> jsnum list \<Rightarrow> bool" where
  "boxes_placed ws rs xs \<longleftrightarrow> (\<forall>i < length rs. \<forall>j \<in> set (members (rs ! i)).
     xs ! j = Fin (lo (rs ! i) + prefix_width ws (r_start (rs ! i)) j + fin_val (ws ! j) / 2))"

lemma placed_neighbours:
  assumes "covers ws n rs" "boxes_placed ws rs xs" "\<And>i. Suc i < length rs \<Longrightarrow> apart rs i" "Suc i < n"
    "ws ! i = Fin w" "ws ! Suc i = Fin v"
  shows "xs ! i + Fin w / Fin 2 \<le> xs ! Suc i - Fin v / Fin 2"
proof -
  have c: "concat (map members rs) = [0..<n]" "\<forall>r \<in> set rs. r_start r \<le> r_end r"
    "\<forall>r \<in> set rs. fin_val (r_width r) = sum_list (map (\<lambda>j. fin_val (ws ! j)) (members r))"
    using assms(1) by (simp_all add: covers_def)
  have px: "xs ! j = Fin (lo (rs ! i) + prefix_width ws (r_start (rs ! i)) j + fin_val (ws ! j) / 2)"
    if "i < length rs" "j \<in> set (members (rs ! i))" for i j using assms(2) that by (simp add: boxes_placed_def)
  obtain k where k: "k < length rs" "i \<in> set (members (rs ! k))"
    "Suc i \<in> set (members (rs ! k)) \<or> Suc k < length rs \<and> r_end (rs ! k) = i \<and> r_start (rs ! Suc k) = Suc i"
    using neighbours_in_ranges[OF c(1,2), of i] assms(4) by auto
  have st: "r_start (rs ! k) \<le> i" using k(2) by (auto simp: members_def)
  from k(3) show ?thesis
  proof
    assume "Suc i \<in> set (members (rs ! k))"
    with px[OF k(1)] k(2) assms(5,6) prefix_width_Suc[OF st] show ?thesis by simp
  next
    assume e: "Suc k < length rs \<and> r_end (rs ! k) = i \<and> r_start (rs ! Suc k) = Suc i"
    then have "r_start (rs ! Suc k) \<le> r_end (rs ! Suc k)" using c(2) nth_mem by blast
    then have mem: "Suc i \<in> set (members (rs ! Suc k))" using e by (auto simp: members_def)
    have x2: "xs ! Suc i = Fin (lo (rs ! Suc k) + v / 2)" using px[OF _ mem] e assms(6) by (simp add: prefix_width_def)
    have "prefix_width ws (r_start (rs ! k)) (Suc i) = fin_val (r_width (rs ! k))"
      using prefix_width_range[of "rs ! k" ws] c(3) k(1) e by simp
    then have "prefix_width ws (r_start (rs ! k)) i + w = hi (rs ! k) - lo (rs ! k)"
      using prefix_width_Suc[OF st, of ws] assms(5) by (simp add: hi_def lo_def)
    moreover have "hi (rs ! k) \<le> lo (rs ! Suc k)" using assms(3) e by (simp add: apart_def)
    ultimately show ?thesis using px[OF k(1,2)] x2 assms(5) by simp
  qed
qed

lemma spread_layer_spec:
  assumes "fin_cells layer" "layer \<noteq> []"
  shows "\<exists>xs. spreadLayerSmart layer = Inr xs \<and> length xs = length layer \<and>
    (\<forall>i < length layer. is_fin (xs ! i)) \<and>
    (\<forall>i. Suc i < length layer \<longrightarrow>
       xs ! i + c_width (layer ! i) / Fin 2 \<le> xs ! Suc i - c_width (layer ! Suc i) / Fin 2)"
proof -
  let ?ws = "map c_width layer" and ?n = "length layer"
  define rs0 where "rs0 = build_ranges layer"
  define rs where "rs = space_ranges rs0"
  have b: "covers ?ws ?n rs0" "fin_ranges rs0" "rs0 \<noteq> []"
    using build_ranges_fin[OF assms] by (simp_all add: rs0_def)
  have s: "fin_ranges rs" "map shape rs = map shape rs0" "\<And>i. Suc i < length rs0 \<Longrightarrow> apart rs i"
    using space_ranges_fin[OF b(2,3)] by (auto simp: rs_def)
  have ap: "apart rs i" if "Suc i < length rs" for i using s(3) that length_by_shape[OF s(2)] by simp
  have cov: "covers ?ws ?n rs" using b(1) covers_shape[OF s(2)] by blast
  then have c: "concat (map members rs) = [0..<?n]" "\<forall>r \<in> set rs. r_start r \<le> r_end r"
    "\<forall>r \<in> set rs. r_start r \<le> r_end r \<and> fin_val (r_width r) = sum_list (map (\<lambda>j. fin_val (?ws ! j)) (members r))"
    by (simp_all add: covers_def)
  define xs where "xs = foldl (place_range ?ws) (map c_x layer) rs"
  have wfin: "\<forall>j < length (map c_x layer). is_fin (?ws ! j)" using assms(1) by (simp add: fin_cells_def)
  have px: "length xs = ?n" "boxes_placed ?ws rs xs"
    using place_ranges_fin[OF wfin s(1), of 0] c(1,3) by (auto simp: xs_def boxes_placed_def)
  have wv: "?ws ! j = Fin (fin_val (?ws ! j))" if "j < ?n" for j
    using assms(1) that by (simp add: fin_cells_def Fin_fin_val)
  have "is_fin (xs ! i)" if i: "i < ?n" for i
  proof -
    obtain k where "k < length rs" "i \<in> set (members (rs ! k))" using neighbours_in_ranges[OF c(1,2) _ i] by auto
    with px(2) show ?thesis by (simp add: boxes_placed_def)
  qed
  moreover have "xs ! i + c_width (layer ! i) / Fin 2 \<le> xs ! Suc i - c_width (layer ! Suc i) / Fin 2" if i: "Suc i < ?n" for i
    using placed_neighbours[OF cov px(2) ap i wv[OF Suc_lessD[OF i]] wv[OF i]] i wv[OF i, symmetric]
      wv[OF Suc_lessD[OF i], symmetric] by (simp only: nth_map Suc_lessD)
  moreover have "spreadLayerSmart layer = Inr xs"
    using assms(2) by (simp add: spreadLayerSmart_def xs_def rs_def rs0_def)
  ultimately show ?thesis using px(1) by blast
qed

text \<open>
  After \<open>spreadLayerSmart\<close> no two neighbours of a layer overlap: wherever the nodes were before,
  as long as positions and widths are finite, each ends at or before the place where the next begins.
\<close>

theorem spread_no_overlap:
  assumes "fin_cells layer" "layer \<noteq> []"
  shows "\<exists>xs. spreadLayerSmart layer = Inr xs \<and> length xs = length layer \<and>
    (\<forall>i. Suc i < length layer \<longrightarrow>
       xs ! i + c_width (layer ! i) / Fin 2 \<le> xs ! Suc i - c_width (layer ! Suc i) / Fin 2)"
  using spread_layer_spec[OF assms] by blast

definition sample_layer :: "cell list" where
  "sample_layer = [\<lparr>c_x = Fin 5, c_width = Fin 10\<rparr>, \<lparr>c_x = Fin 5, c_width = Fin 4\<rparr>, \<lparr>c_x = Fin 6, c_width = Fin 8\<rparr>]"

theorem spread_no_overlap_witness:
  "fin_cells sample_layer \<and> spreadLayerSmart sample_layer = Inr [Fin (-7 / 2), Fin (7 / 2), Fin (19 / 2)] \<and>
   Fin (-7 / 2) + Fin 10 / Fin 2 \<le> Fin (7 / 2) - Fin 4 / Fin 2"
proof -
  have f: "fin_cells sample_layer" by (simp add: fin_cells_def sample_layer_def)
  have e: "spreadLayerSmart sample_layer = Inr [Fin (-7 / 2), Fin (7 / 2), Fin (19 / 2)]" by code_simp
  have "sample_layer \<noteq> []" by (simp add: sample_layer_def)
  then obtain xs where xs: "spreadLayerSmart sample_layer = Inr xs"
    "\<forall>i. Suc i < length sample_layer \<longrightarrow> xs ! i + c_width (sample_layer ! i) / Fin 2 \<le>
       xs ! Suc i - c_width (sample_layer ! Suc i) / Fin 2"
    using spread_no_overlap[OF f] by blast
  have "Suc 0 < length sample_layer" by (simp add: sample_layer_def)
  with xs(2) have "xs ! 0 + c_width (sample_layer ! 0) / Fin 2 \<le>
       xs ! Suc 0 - c_width (sample_layer ! Suc 0) / Fin 2" by blast
  with e xs(1) f show ?thesis by (simp add: sample_layer_def)
qed

subsection \<open>A layer that is already spread stays where it is\<close>

lemma build_singletons:
  assumes "\<forall>i < length cs. c_x (cs ! i) - (if i = 0 then r_x r else c_x (cs ! (i - 1))) \<noteq> Fin 0"
  shows "foldl add_cell (rs @ [r]) (zip [n..<n + length cs] cs) =
    rs @ [r] @ map (\<lambda>(i, c). new_range i c) (zip [n..<n + length cs] cs)"
  using assms
proof (induction cs arbitrary: n rs r)
  case (Cons c cs)
  have "add_cell (rs @ [r]) (n, c) = (rs @ [r]) @ [new_range n c]"
    using Cons.prems by (auto simp: add_cell_def Let_def)
  moreover have "foldl add_cell ((rs @ [r]) @ [new_range n c]) (zip [Suc n..<Suc n + length cs] cs) =
      (rs @ [r]) @ [new_range n c] @ map (\<lambda>(i, c). new_range i c) (zip [Suc n..<Suc n + length cs] cs)"
  proof (rule Cons.IH, intro allI impI)
    fix i
    assume "i < length cs"
    with Cons.prems have "c_x ((c # cs) ! Suc i) - c_x ((c # cs) ! i) \<noteq> Fin 0" by fastforce
    then show "c_x (cs ! i) - (if i = 0 then r_x (new_range n c) else c_x (cs ! (i - 1))) \<noteq> Fin 0"
      by (cases i) (simp_all add: new_range_def)
  qed
  moreover have "zip [n..<n + length (c # cs)] (c # cs) = (n, c) # zip [Suc n..<Suc n + length cs] cs"
    using upt_conv_Cons[of n "n + length (c # cs)"] by (simp del: upt_Suc)
  ultimately show ?case by simp
qed simp

lemma build_ranges_apart:
  assumes "\<forall>i. Suc i < length layer \<longrightarrow> c_x (layer ! Suc i) - c_x (layer ! i) \<noteq> Fin 0"
  shows "build_ranges layer = map (\<lambda>(i, c). new_range i c) (zip [0..<length layer] layer)"
proof (cases layer)
  case (Cons c cs)
  have "c_x (cs ! i) - (if i = 0 then r_x (new_range 0 c) else c_x (cs ! (i - 1))) \<noteq> Fin 0" if "i < length cs" for i
  proof -
    from that Cons assms have "c_x (layer ! Suc i) - c_x (layer ! i) \<noteq> Fin 0" by simp
    then show ?thesis using Cons by (cases i) (simp_all add: new_range_def)
  qed
  then have "foldl add_cell ([] @ [new_range 0 c]) (zip [1..<1 + length cs] cs) =
      [] @ [new_range 0 c] @ map (\<lambda>(i, c). new_range i c) (zip [1..<1 + length cs] cs)"
    by (intro build_singletons) blast
  moreover have "[0..<length layer] = 0 # [1..<1 + length cs]" using Cons upt_conv_Cons[of 0 "Suc (length cs)"] by (simp del: upt_Suc)
  ultimately show ?thesis using Cons by simp
qed simp

lemma place_singletons:
  "\<forall>r \<in> set rs. r_start r = r_end r \<and> xs ! r_start r = r_x r \<Longrightarrow> foldl (place_range ws) xs rs = xs"
proof (induction rs)
  case (Cons r rs)
  then have "xs[r_start r := r_x r] = xs" by (metis list.set_intros(1) list_update_id)
  then have "place_range ws xs r = xs" using Cons.prems by (simp add: place_range_def)
  moreover have "foldl (place_range ws) xs rs = xs" by (rule Cons.IH) (use Cons.prems in auto)
  ultimately show ?case by simp
qed simp

text \<open>
  \<open>spreadLayerSmart\<close> does not move a layer whose nodes have positive widths and are already apart;
  so doing it a second time changes nothing, and the passes of \<open>layoutGraph\<close> do not drift.
\<close>

theorem spread_stable:
  assumes "\<forall>c \<in> set layer. is_fin (c_x c) \<and> is_fin (c_width c) \<and> Fin 0 < c_width c" "layer \<noteq> []"
    "\<forall>i. Suc i < length layer \<longrightarrow>
       c_x (layer ! i) + c_width (layer ! i) / Fin 2 \<le> c_x (layer ! Suc i) - c_width (layer ! Suc i) / Fin 2"
  shows "spreadLayerSmart layer = Inr (map c_x layer)"
proof -
  let ?n = "length layer"
  define rs where "rs = map (\<lambda>(i, c). new_range i c) (zip [0..<?n] layer)"
  have vals: "\<exists>x w. c_x (layer ! i) = Fin x \<and> c_width (layer ! i) = Fin w \<and> 0 < w" if "i < ?n" for i
    using assms(1) that by (force simp: is_fin_conv)
  have ne: "c_x (layer ! Suc i) - c_x (layer ! i) \<noteq> Fin 0" if i: "Suc i < ?n" for i
  proof -
    obtain x w y v where xw: "c_x (layer ! i) = Fin x" "c_width (layer ! i) = Fin w" "0 < w"
      "c_x (layer ! Suc i) = Fin y" "c_width (layer ! Suc i) = Fin v" "0 < v"
      using vals[of i] vals[of "Suc i"] i by auto
    have "c_x (layer ! i) + c_width (layer ! i) / Fin 2 \<le> c_x (layer ! Suc i) - c_width (layer ! Suc i) / Fin 2"
      using assms(3) i by blast
    with xw show ?thesis by simp
  qed
  then have b: "build_ranges layer = rs" by (simp add: build_ranges_apart rs_def)
  have nth: "rs ! i = new_range i (layer ! i)" if "i < ?n" for i using that by (simp add: rs_def)
  have len: "length rs = ?n" by (simp add: rs_def)
  have fin: "fin_ranges rs"
    unfolding fin_ranges_def
  proof
    fix r
    assume "r \<in> set rs"
    then obtain i where "i < ?n" "r = new_range i (layer ! i)" using nth len by (metis in_set_conv_nth)
    then show "fin_range r" using assms(1) by (simp add: fin_range_def new_range_def)
  qed
  have "apart rs i" if i: "Suc i < length rs" for i
  proof -
    obtain x w y v where xw: "c_x (layer ! i) = Fin x" "c_width (layer ! i) = Fin w" "0 < w"
      "c_x (layer ! Suc i) = Fin y" "c_width (layer ! Suc i) = Fin v" "0 < v"
      using vals[of i] vals[of "Suc i"] i len by auto
    have "c_x (layer ! i) + c_width (layer ! i) / Fin 2 \<le> c_x (layer ! Suc i) - c_width (layer ! Suc i) / Fin 2"
      using assms(3) i len by simp
    with xw show ?thesis using nth[of i] nth[of "Suc i"] i len by (simp add: apart_def hi_def lo_def new_range_def)
  qed
  moreover have "rs \<noteq> []" using len assms(2) by auto
  ultimately have "space_ranges rs = rs" using space_ranges_fin[OF fin] by blast
  moreover have "foldl (place_range (map c_width layer)) (map c_x layer) rs = map c_x layer"
  proof (rule place_singletons, rule ballI)
    fix r
    assume "r \<in> set rs"
    then obtain i where "i < ?n" "r = new_range i (layer ! i)" using nth len by (metis in_set_conv_nth)
    then show "r_start r = r_end r \<and> map c_x layer ! r_start r = r_x r" by (simp add: new_range_def)
  qed
  ultimately show ?thesis using assms(2) b by (simp add: spreadLayerSmart_def)
qed

definition spread_sample :: "cell list" where
  "spread_sample = [\<lparr>c_x = Fin 0, c_width = Fin 10\<rparr>, \<lparr>c_x = Fin 10, c_width = Fin 4\<rparr>]"

theorem spread_stable_witness: "spreadLayerSmart spread_sample = Inr [Fin 0, Fin 10]"
  using spread_stable[of spread_sample] by (simp add: spread_sample_def)

end
