(* ===== verification/LayoutGraph.thy ===== *)
theory LayoutGraph
  imports LayoutLevels LayoutSpread GraphWalk
begin

text \<open>
  \<open>layoutGraph\<close> of \<open>util/layout.js\<close>: from the nodes and edges of a flow to positions and edge
  guides. The objects of the layout (one for each node of the flow, and a dummy wherever an edge
  crosses a level) live in a store and refer to each other by position in it; \<open>layers\<close> maps a
  level to the objects on it.
\<close>

record lnode =
  l_level :: "jsnum option"
  l_in :: "nat list"
  l_out :: "nat list"
  l_width :: jsnum
  l_height :: jsnum
  l_x :: jsnum
  l_y :: jsnum

type_synonym layer_map = "(jsnum option \<times> nat list) list"

record layout =
  lay_nodes :: "lnode list"
  lay_map :: "nat jsobj"
  lay_layers :: layer_map
  lay_max :: jsnum

subsection \<open>The second half of \<open>prepareLayout\<close>\<close>

fun layer_put :: "jsnum option \<Rightarrow> nat list \<Rightarrow> layer_map \<Rightarrow> layer_map" where
  "layer_put l ks [] = [(l, ks)]"
| "layer_put l ks ((l', ks') # m) = (if l = l' then (l, ks) # m else (l', ks') # layer_put l ks m)"

text \<open>\<open>if (!layers[level]) layers[level] = []; layers[level].push(node)\<close>\<close>

definition layer_add :: "jsnum option \<Rightarrow> nat \<Rightarrow> layer_map \<Rightarrow> layer_map" where
  "layer_add l k m = layer_put l (case map_of m l of None \<Rightarrow> [k] | Some ks \<Rightarrow> ks @ [k]) m"

definition node_width :: "gnode \<Rightarrow> jsnum" where
  "node_width n = (if js_truthy (g_width n) then g_width n
     else Fin (of_nat (length (g_label n))) * Fin (23 / 2) + Fin 4)"

definition node_height :: "gnode \<Rightarrow> jsnum" where
  "node_height n = (if js_truthy (g_height n) then g_height n else Fin 1)"

definition add_node :: "jsnum \<Rightarrow> layout \<Rightarrow> gnode \<times> jsnum option \<Rightarrow> layout" where
  "add_node hmargin st nl = (case nl of (n, l) \<Rightarrow>
     (let k = length (lay_nodes st) in
      st\<lparr>lay_nodes := lay_nodes st @ [\<lparr>l_level = l, l_in = [], l_out = [],
           l_width = node_width n + hmargin, l_height = node_height n, l_x = Fin 0, l_y = NaN\<rparr>],
         lay_map := obj_set (g_id n) k (lay_map st),
         lay_max := js_max (as_num l) (lay_max st),
         lay_layers := layer_add l k (lay_layers st)\<rparr>))"

definition prepareLayout :: "nat \<Rightarrow> gnode list \<Rightarrow> jsnum option list \<Rightarrow> jsnum \<Rightarrow> layout result" where
  "prepareLayout fuel ns lv0 hmargin =
     and_then (compute_levels fuel ns lv0) (\<lambda>lv.
       Inr (foldl (add_node hmargin) \<lparr>lay_nodes = [], lay_map = [], lay_layers = [], lay_max = Fin 0\<rparr>
              (js_sort (\<lambda>a b. idSort (fst a) (fst b)) (zip ns lv))))"

subsection \<open>Dummies\<close>

record ledge =
  e_from :: string
  e_to :: string
  e_guides :: "(jsnum \<times> jsnum) list option"

text \<open>The levels strictly between two levels; without a number on both sides the loop does not run.\<close>

fun between :: "jsnum \<Rightarrow> jsnum \<Rightarrow> jsnum list" where
  "between (Fin a) (Fin b) = map (\<lambda>k. Fin (a + 1 + of_nat k)) [0..<nat \<lceil>b - a - 1\<rceil>]"
| "between _ _ = []"

definition link_lnodes :: "nat \<Rightarrow> nat \<Rightarrow> lnode list \<Rightarrow> lnode list" where
  "link_lnodes u v ns =
     upd_at u (\<lambda>n. n\<lparr>l_out := l_out n @ [v]\<rparr>) (upd_at v (\<lambda>n. n\<lparr>l_in := l_in n @ [u]\<rparr>) ns)"

definition push_dummy :: "layout \<times> nat \<times> nat list \<Rightarrow> jsnum \<Rightarrow> (layout \<times> nat \<times> nat list) result" where
  "push_dummy stl j = (case stl of (st, lastNode, guides) \<Rightarrow>
     (case map_of (lay_layers st) (Some j) of
        None \<Rightarrow> Inl TypeError
      | Some ks \<Rightarrow>
          (let k = length (lay_nodes st);
               dummy = \<lparr>l_level = Some j, l_in = [], l_out = [], l_width = Fin 10, l_height = Fin 10,
                        l_x = l_x (lay_nodes st ! lastNode), l_y = NaN\<rparr>
           in Inr (st\<lparr>lay_layers := layer_put (Some j) (ks @ [k]) (lay_layers st),
                      lay_nodes := link_lnodes lastNode k (lay_nodes st @ [dummy])\<rparr>, k, guides @ [k]))))"

definition edge_id :: "ledge \<Rightarrow> string" where
  "edge_id e = e_from e @ ''>>'' @ e_to e"

text \<open>
  \<open>edgeDummies\<close> is an object, so \<open>edgeDummies.length != 0\<close> always holds and the guides are always
  recorded.
\<close>

definition dummies_of_edge :: "layout \<times> (nat list) jsobj \<Rightarrow> ledge \<Rightarrow> (layout \<times> (nat list) jsobj) result" where
  "dummies_of_edge sd e = (case sd of (st, edgeDummies) \<Rightarrow>
     (case (obj_get (lay_map st) (e_from e), obj_get (lay_map st) (e_to e)) of
        (Some s, Some d) \<Rightarrow>
          and_then
            (fold_result push_dummy (st, s, [])
               (between (as_num (l_level (lay_nodes st ! s))) (as_num (l_level (lay_nodes st ! d)))))
            (\<lambda>(st', lastNode, guides).
               Inr (st'\<lparr>lay_nodes := link_lnodes lastNode d (lay_nodes st')\<rparr>,
                    obj_set (edge_id e) guides edgeDummies))
      | _ \<Rightarrow> Inl TypeError))"

subsection \<open>The passes\<close>

definition set_x :: "nat \<Rightarrow> jsnum \<Rightarrow> lnode list \<Rightarrow> lnode list" where
  "set_x k v ns = upd_at k (\<lambda>n. n\<lparr>l_x := v\<rparr>) ns"

definition x_at :: "lnode list \<Rightarrow> nat \<Rightarrow> jsnum" where
  "x_at ns k = l_x (ns ! k)"

definition uncross :: "(lnode \<Rightarrow> nat list) \<Rightarrow> nat list \<Rightarrow> lnode list \<Rightarrow> lnode list" where
  "uncross side ks ns = foldl (\<lambda>ns k. set_x k (findAverage (map (x_at ns) (side (ns ! k)))) ns) ns ks"

definition uncrossWithIn :: "nat list \<Rightarrow> lnode list \<Rightarrow> lnode list" where
  "uncrossWithIn = uncross l_in"

definition uncrossWithOut :: "nat list \<Rightarrow> lnode list \<Rightarrow> lnode list" where
  "uncrossWithOut = uncross l_out"

definition sort_layer :: "lnode list \<Rightarrow> nat list \<Rightarrow> nat list" where
  "sort_layer ns ks = js_sort (by_difference (x_at ns)) ks"

definition cells :: "lnode list \<Rightarrow> nat list \<Rightarrow> cell list" where
  "cells ns ks = map (\<lambda>k. \<lparr>c_x = x_at ns k, c_width = l_width (ns ! k)\<rparr>) ks"

definition spread_layer :: "nat list \<Rightarrow> lnode list \<Rightarrow> lnode list result" where
  "spread_layer ks ns = and_then (spreadLayerSmart (cells ns ks))
     (\<lambda>xs. Inr (foldl (\<lambda>ns kx. set_x (fst kx) (snd kx) ns) ns (zip ks xs)))"

definition layer_at :: "layout \<Rightarrow> nat \<Rightarrow> nat list option" where
  "layer_at st i = map_of (lay_layers st) (Some (Fin (of_nat i)))"

text \<open>Uncross, sort and spread one layer, as the three loops do.\<close>

definition layer_pass :: "(nat list \<Rightarrow> lnode list \<Rightarrow> lnode list) \<Rightarrow> layout \<Rightarrow> nat \<Rightarrow> layout result" where
  "layer_pass unc st i =
     (case layer_at st i of
        None \<Rightarrow> Inl TypeError
      | Some ks \<Rightarrow>
          (let ns = unc ks (lay_nodes st); ks' = sort_layer ns ks in
           and_then (spread_layer ks' ns) (\<lambda>ns'.
             Inr (st\<lparr>lay_nodes := ns', lay_layers := layer_put (Some (Fin (of_nat i))) ks' (lay_layers st)\<rparr>))))"

definition spread_last :: "layout \<Rightarrow> layout result" where
  "spread_last st =
     (case map_of (lay_layers st) (Some (lay_max st)) of
        None \<Rightarrow> Inl TypeError
      | Some ks \<Rightarrow>
          and_then (spread_layer ks (lay_nodes st)) (\<lambda>ns.
            Inr (st\<lparr>lay_nodes := ns, lay_layers := layer_put (Some (lay_max st)) (sort_layer ns ks) (lay_layers st)\<rparr>)))"

fun level_count :: "jsnum \<Rightarrow> nat" where
  "level_count (Fin q) = nat \<lfloor>q\<rfloor>"
| "level_count _ = 0"

definition up_passes :: "layout \<Rightarrow> layout result" where
  "up_passes st = fold_result (layer_pass uncrossWithOut) st (rev [0..<level_count (lay_max st)])"

definition kick_back :: "layout \<Rightarrow> layout result" where
  "kick_back st =
     (if Fin 1 < lay_max st
      then and_then (layer_pass uncrossWithIn st 1) (\<lambda>st. layer_pass uncrossWithOut st 0)
      else Inr st)"

definition down_passes :: "layout \<Rightarrow> layout result" where
  "down_passes st = fold_result (layer_pass uncrossWithIn) st [1..<Suc (level_count (lay_max st))]"

subsection \<open>Vertical positions\<close>

definition set_y :: "nat list \<Rightarrow> jsnum \<Rightarrow> lnode list \<Rightarrow> lnode list" where
  "set_y ks y ns = foldl (\<lambda>ns k. upd_at k (\<lambda>n. n\<lparr>l_y := y\<rparr>) ns) ns ks"

definition layer_height :: "lnode list \<Rightarrow> nat list \<Rightarrow> jsnum" where
  "layer_height ns ks = foldl (\<lambda>h k. js_max h (l_height (ns ! k))) (Fin 1) ks"

definition layer_delta :: "lnode list \<Rightarrow> nat list \<Rightarrow> jsnum" where
  "layer_delta ns ks = foldl (\<lambda>m k.
     foldl (\<lambda>m j. js_max m (js_abs (x_at ns j - x_at ns k))) m (l_in (ns ! k))) (Fin 0) ks"

definition space_step :: "layer_map \<Rightarrow> lnode list \<times> jsnum \<times> jsnum \<Rightarrow> nat \<Rightarrow> (lnode list \<times> jsnum \<times> jsnum) result" where
  "space_step layers s a = (case s of (ns, startY, startMaxHeight) \<Rightarrow>
     (case map_of layers (Some (Fin (of_nat a))) of
        None \<Rightarrow> Inl TypeError
      | Some ks \<Rightarrow>
          (let layerMaxHeight = layer_height ns ks;
               calcHeight = layer_delta ns ks * Fin (1 / 8);
               newMinHeight = Fin 40 + startMaxHeight / Fin 2 + layerMaxHeight / Fin 2;
               startY' = startY + js_max calcHeight newMinHeight
           in Inr (set_y ks startY' ns, startY', layerMaxHeight))))"

definition spaceVertically :: "layout \<Rightarrow> layout result" where
  "spaceVertically st =
     (case layer_at st 0 of
        None \<Rightarrow> Inl TypeError
      | Some ks \<Rightarrow>
          and_then
            (fold_result (space_step (lay_layers st))
               (set_y ks (Fin 0) (lay_nodes st), Fin 0, layer_height (lay_nodes st) ks)
               [1..<Suc (level_count (lay_max st))])
            (\<lambda>(ns, _, _). Inr (st\<lparr>lay_nodes := ns\<rparr>)))"

definition place_layers :: "layout \<Rightarrow> layout result" where
  "place_layers st =
     and_then (spread_last st) (\<lambda>st.
     and_then (up_passes st) (\<lambda>st.
     and_then (kick_back st) (\<lambda>st.
     and_then (down_passes st) spaceVertically)))"

subsection \<open>Edge guides\<close>

definition guide_step :: "lnode list \<Rightarrow> jsnum \<Rightarrow> nat list \<Rightarrow> (jsnum \<times> jsnum) list \<times> jsnum \<Rightarrow> nat \<Rightarrow> (jsnum \<times> jsnum) list \<times> jsnum" where
  "guide_step ns destX dummies gp j = (case gp of (guides, prevX) \<Rightarrow>
     (let x = x_at ns (dummies ! j); y = l_y (ns ! (dummies ! j));
          nextX = (if j = length dummies - 1 then destX else x_at ns (dummies ! (j + 1)));
          gap = (x = NaN \<or> x \<noteq> prevX) \<and> (x = NaN \<or> x \<noteq> nextX) \<and> ((prevX < x) = (nextX < x))
      in (guides @ (x, y) # (if gap then [(x, y + Fin 10)] else []), x)))"

definition edge_guides :: "layout \<Rightarrow> (nat list) jsobj \<Rightarrow> ledge \<Rightarrow> ledge" where
  "edge_guides st edgeDummies e =
     (case (obj_get edgeDummies (edge_id e), obj_get (lay_map st) (e_from e), obj_get (lay_map st) (e_to e)) of
        (Some dummies, Some s, Some d) \<Rightarrow>
          e\<lparr>e_guides := if dummies = [] then None
            else Some (fst (foldl (guide_step (lay_nodes st) (x_at (lay_nodes st) d) dummies)
                   ([], x_at (lay_nodes st) s) [0..<length dummies]))\<rparr>
      | _ \<Rightarrow> e\<lparr>e_guides := None\<rparr>)"

text \<open>The result: each node's position by name, and the edges with their guides.\<close>

definition layoutGraph ::
  "nat \<Rightarrow> gnode list \<Rightarrow> jsnum option list \<Rightarrow> ledge list \<Rightarrow> jsnum \<Rightarrow> ((string \<times> jsnum \<times> jsnum) list \<times> ledge list) result" where
  "layoutGraph fuel ns lv0 es hmargin =
     and_then (prepareLayout fuel ns lv0 (if js_truthy hmargin then hmargin else Fin 8)) (\<lambda>st.
     and_then (fold_result dummies_of_edge (st, []) es) (\<lambda>(st, edgeDummies).
     and_then (place_layers st) (\<lambda>st.
       Inr (map (\<lambda>(name, k). (name, x_at (lay_nodes st) k, l_y (lay_nodes st ! k))) (lay_map st),
            map (edge_guides st edgeDummies) es))))"

end
