(* ===== verification/SvgEdges.thy ===== *)
theory SvgEdges
  imports LayoutGraph
begin

text \<open>
  The edges of the drawn graph: the points of an edge in \<open>view/svg-graph.js\<close> and the animation of a
  polyline from its old points to new ones in \<open>util/svgutils.js\<close>.
\<close>

type_synonym point = "jsnum \<times> jsnum"

text \<open>The transform attribute that \<open>translateStr\<close> builds is modelled by its two numbers.\<close>

definition translateStr :: "jsnum \<Rightarrow> jsnum \<Rightarrow> point" where
  "translateStr x y = (x, y)"

datatype drawn_line = Polyline "point list" | Line point point

record sedge =
  d_from :: string
  d_to :: string
  d_guides :: "point list option"
  d_line :: "drawn_line option"
  d_oldpoints :: "point list option"

subsection \<open>The animation of a polyline\<close>

definition shift_points :: "point list \<Rightarrow> point list \<Rightarrow> point list" where
  "shift_points ps ds = map2 (\<lambda>p d. (fst p + fst d, snd p + snd d)) ps ds"

text \<open>
  The loop; the result lists the points of the line after each \<open>svg.change\<close>. The points are changed
  in place, so each round starts from those of the round before.
\<close>

function animatePolyLineLoop :: "point list \<Rightarrow> point list \<Rightarrow> rat \<Rightarrow> point list list" where
  "animatePolyLineLoop lastPoints deltaEdges step =
     (let ps = shift_points lastPoints deltaEdges
      in ps # (if 0 < step then animatePolyLineLoop ps deltaEdges (step - 1) else []))"
  by pat_completeness auto
termination
  by (relation "measure (\<lambda>(_, _, step). nat \<lceil>step\<rceil>)") auto

declare animatePolyLineLoop.simps [simp del]

text \<open>
  \<open>time / 10\<close> steps; a point of the old line that has no counterpart among the new points is a
  TypeError, and so is an edge that has no old points.
\<close>

definition polyline_deltas :: "rat \<Rightarrow> point list \<Rightarrow> point list \<Rightarrow> point list result" where
  "polyline_deltas numsteps old new =
     (if length new < length old then Inl TypeError
      else Inr (map2 (\<lambda>p q. ((fst q - fst p) / Fin numsteps, (snd q - snd p) / Fin numsteps)) old new))"

definition animatePolylineEdge :: "point list option \<Rightarrow> point list \<Rightarrow> rat \<Rightarrow> point list list result" where
  "animatePolylineEdge oldpoints newPoints time =
     (case oldpoints of
        None \<Rightarrow> Inl TypeError
      | Some old \<Rightarrow> and_then (polyline_deltas (time / 10) old newPoints)
          (\<lambda>deltas. Inr (animatePolyLineLoop old deltas (time / 10))))"

lemma animate_length: "length (animatePolyLineLoop ps ds (of_nat n)) = Suc n"
proof (induction n arbitrary: ps)
  case 0
  show ?case by (subst animatePolyLineLoop.simps) simp
next
  case (Suc n)
  have "animatePolyLineLoop ps ds (of_nat (Suc n)) =
      shift_points ps ds # animatePolyLineLoop (shift_points ps ds) ds (of_nat n)"
    by (subst animatePolyLineLoop.simps) (simp add: Let_def)
  with Suc show ?case by simp
qed

lemma animate_last:
  assumes "\<And>i. i < length ps \<Longrightarrow> ps ! i = (Fin (x i), Fin (y i)) \<and> ds ! i = (Fin (dx i), Fin (dy i))"
    "length ds = length ps" "k \<le> n" "i < length ps"
  shows "animatePolyLineLoop ps ds (of_nat n) ! k ! i =
      (Fin (x i + of_nat (Suc k) * dx i), Fin (y i + of_nat (Suc k) * dy i))"
  using assms(1,2,3,4)
proof (induction k arbitrary: ps n x y)
  case 0
  have "animatePolyLineLoop ps ds (of_nat n) ! 0 = shift_points ps ds"
    by (subst animatePolyLineLoop.simps) (simp add: Let_def)
  with 0 show ?case by (simp add: shift_points_def)
next
  case (Suc k)
  then obtain m where n: "n = Suc m" by (cases n) auto
  let ?ps = "shift_points ps ds"
  have sh: "j < length ?ps \<Longrightarrow> ?ps ! j = (Fin (x j + dx j), Fin (y j + dy j)) \<and> ds ! j = (Fin (dx j), Fin (dy j))" for j
    using Suc.prems(1)[of j] Suc.prems(2) by (simp add: shift_points_def)
  have len: "length ds = length ?ps" "i < length ?ps" using Suc.prems(2,4) by (simp_all add: shift_points_def)
  have "animatePolyLineLoop ps ds (of_nat n) = ?ps # animatePolyLineLoop ?ps ds (of_nat m)"
    by (subst animatePolyLineLoop.simps) (simp add: Let_def n)
  then have "animatePolyLineLoop ps ds (of_nat n) ! Suc k ! i = animatePolyLineLoop ?ps ds (of_nat m) ! k ! i"
    by simp
  also have "\<dots> = (Fin (x i + dx i + of_nat (Suc k) * dx i), Fin (y i + dy i + of_nat (Suc k) * dy i))"
    using Suc.IH[of ?ps "\<lambda>j. x j + dx j" "\<lambda>j. y j + dy j" m] sh len Suc.prems(3) n by simp
  finally show ?case by (simp add: algebra_simps)
qed

definition finite_points :: "point list \<Rightarrow> bool" where
  "finite_points ps \<longleftrightarrow> list_all (\<lambda>p. is_fin (fst p) \<and> is_fin (snd p)) ps"

lemma finite_point: "finite_points ps \<Longrightarrow> i < length ps \<Longrightarrow>
    ps ! i = (Fin (fin_val (fst (ps ! i))), Fin (fin_val (snd (ps ! i))))"
  by (auto simp: finite_points_def list_all_length Fin_fin_val prod_eq_iff)

text \<open>
  The animation of a polyline runs one step too many: made of \<open>n\<close> steps of an \<open>n\<close>-th of the way
  each, it draws \<open>n + 1\<close> lines, and the last one is past the new points by one step.
\<close>

theorem polyline_overshoots:
  assumes "finite_points old" "finite_points new" "length old = length new" "0 < n"
  shows "\<exists>frames. animatePolylineEdge (Some old) new (10 * of_nat n) = Inr frames \<and> length frames = Suc n \<and>
    (\<forall>i < length new. frames ! (n - 1) ! i = new ! i \<and>
       fst (frames ! n ! i) = fst (new ! i) + (fst (new ! i) - fst (old ! i)) / Fin (of_nat n) \<and>
       snd (frames ! n ! i) = snd (new ! i) + (snd (new ! i) - snd (old ! i)) / Fin (of_nat n))"
proof -
  define x where "x i = fin_val (fst (old ! i))" for i
  define y where "y i = fin_val (snd (old ! i))" for i
  define x' where "x' i = fin_val (fst (new ! i))" for i
  define y' where "y' i = fin_val (snd (new ! i))" for i
  define ds where "ds = map2 (\<lambda>p q :: point. ((fst q - fst p) / Fin (of_nat n), (snd q - snd p) / Fin (of_nat n))) old new"
  have p: "i < length new \<Longrightarrow> old ! i = (Fin (x i), Fin (y i)) \<and> new ! i = (Fin (x' i), Fin (y' i))" for i
    using finite_point[OF assms(1), of i] finite_point[OF assms(2), of i] assms(3)
    by (simp add: x_def y_def x'_def y'_def)
  have d: "i < length old \<Longrightarrow> old ! i = (Fin (x i), Fin (y i)) \<and>
      ds ! i = (Fin ((x' i - x i) / of_nat n), Fin ((y' i - y i) / of_nat n))" for i
    using p[of i] assms(3,4) by (simp add: ds_def)
  have len: "length ds = length old" using assms(3) by (simp add: ds_def)
  let ?fr = "animatePolyLineLoop old ds (of_nat n)"
  have st: "?fr ! k ! i = (Fin (x i + of_nat (Suc k) * ((x' i - x i) / of_nat n)), Fin (y i + of_nat (Suc k) * ((y' i - y i) / of_nat n)))"
    if "k \<le> n" "i < length new" for k i
    using animate_last[of old x y ds "\<lambda>i. (x' i - x i) / of_nat n" "\<lambda>i. (y' i - y i) / of_nat n" k n i] d len that assms(3)
    by simp
  have nz: "(of_nat n :: rat) \<noteq> 0" using assms(4) by simp
  have "animatePolylineEdge (Some old) new (10 * of_nat n) = Inr ?fr"
    using assms(3) by (simp add: animatePolylineEdge_def polyline_deltas_def ds_def)
  moreover have "?fr ! (n - 1) ! i = new ! i" if "i < length new" for i
    using st[of "n - 1" i] that p[OF that] assms(4) nz by simp
  moreover have "fst (?fr ! n ! i) = fst (new ! i) + (fst (new ! i) - fst (old ! i)) / Fin (of_nat n) \<and>
      snd (?fr ! n ! i) = snd (new ! i) + (snd (new ! i) - snd (old ! i)) / Fin (of_nat n)" if "i < length new" for i
    using st[of n i] that p[OF that] assms(4) nz by (simp add: field_simps)
  ultimately show ?thesis using animate_length[of old ds n] by blast
qed

theorem polyline_overshoots_witness:
  "\<exists>frames. animatePolylineEdge (Some [(Fin 0, Fin 0)]) [(Fin 50, Fin 100)] 250 = Inr frames \<and>
     length frames = 26 \<and> fst (frames ! 25 ! 0) = Fin 52"
  using polyline_overshoots[of "[(Fin 0, Fin 0)]" "[(Fin 50, Fin 100)]" 25] by (auto simp: finite_points_def)

text \<open>
  The number of points of an edge changes when a bend gains or loses its gap point. With fewer points
  than before the animation throws; with more, the line keeps its old number of points.
\<close>

lemma polyline_fewer_points: "length new < length old \<Longrightarrow> animatePolylineEdge (Some old) new t = Inl TypeError"
  by (simp add: animatePolylineEdge_def polyline_deltas_def)

end
