(* ===== verification/SvgView.thy ===== *)
theory SvgView
  imports Navigate SvgEdges ExecPage
begin

text \<open>
  \<open>view/svg-graph.js\<close>: the drawn graph. A node of the view's tree carries what the view reads of
  the model and what it writes into it: label, size, position, level, and the SVG elements made for
  it. References between the nodes of a flow are their names, since the layout sorts the node
  list in place. The size of a text on the screen is a parameter, \<open>bbox\<close>. An undefined number is NaN.
\<close>

record gel =
  g_class :: "string option"
  g_title :: "string option"
  g_trans :: "point option"
  i_class :: "string option"
  i_trans :: point
  i_rect :: point
  i_label :: point
  i_expanded :: "(bool \<times> point option) option"

record sattr =
  s_id :: string
  s_flowId :: string
  s_type :: string
  s_status :: string
  s_disabled :: bool
  s_label :: string
  s_in :: "string list"
  s_inNodes :: "string list option"
  s_outNodes :: "string list option"
  s_level :: "jsnum option"
  s_nx :: jsnum
  s_ny :: jsnum
  s_width :: jsnum
  s_height :: jsnum
  s_expanded :: bool
  s_expandedW :: jsnum
  s_expandedH :: jsnum
  s_collapsedW :: jsnum
  s_collapsedH :: jsnum
  s_g :: "gel option"
  s_edges :: "sedge list"

datatype snode = SNode (sattr: sattr) (snodes: "snode list")

fun upd_s :: "(sattr \<Rightarrow> sattr) \<Rightarrow> snode \<Rightarrow> snode" where
  "upd_s f (SNode a ns) = SNode (f a) ns"

lemma upd_s_sel [simp]: "sattr (upd_s f n) = f (sattr n)" "snodes (upd_s f n) = snodes n"
  by (cases n; simp)+

definition upd_g :: "(gel \<Rightarrow> gel) \<Rightarrow> sattr \<Rightarrow> sattr" where
  "upd_g f a = a\<lparr>s_g := map_option f (s_g a)\<rparr>"

definition add_g :: "string \<Rightarrow> gel \<Rightarrow> gel" where
  "add_g c g = g\<lparr>g_class := svg_addClass (g_class g) c\<rparr>"

definition rem_g :: "string \<Rightarrow> gel \<Rightarrow> gel" where
  "rem_g c g = g\<lparr>g_class := removeClass (g_class g) c\<rparr>"

definition title_g :: "string \<Rightarrow> gel \<Rightarrow> gel" where
  "title_g s g = g\<lparr>g_title := Some s\<rparr>"

definition title_of :: "string \<Rightarrow> sattr \<Rightarrow> string" where
  "title_of st a = st @ '' ('' @ s_type a @ '')''"

subsection \<open>Drawing the nodes\<close>

definition blank_gel :: "string \<Rightarrow> string \<Rightarrow> gel" where
  "blank_gel c inner = \<lparr>g_class = Some c, g_title = None, g_trans = None, i_class = Some inner,
     i_trans = (Fin 0, Fin 0), i_rect = (Fin 10, Fin 10), i_label = (Fin 0, Fin 0), i_expanded = None\<rparr>"

text \<open>\<open>jobNameText\<close> is moved to the given height; its place is \<open>i_label\<close>.\<close>

definition drawBoxNode :: "(string list \<Rightarrow> rat \<times> rat) \<Rightarrow> sattr \<Rightarrow> sattr" where
  "drawBoxNode bbox a =
     (let (bw, bh) = bbox [s_label a];
          totalWidth = Fin (bw + 2 * 8); totalHeight = Fin (bh + 2 * 2);
          g = (blank_gel ''node jobnode'' ''nodebox'')
            \<lparr>i_rect := (totalWidth, totalHeight),
             i_label := (Fin 8, (totalHeight + Fin bh) / Fin 2 - Fin 3),
             i_trans := translateStr (- totalWidth / Fin 2) (- totalHeight / Fin 2)\<rparr>
      in a\<lparr>s_width := totalWidth, s_height := totalHeight, s_g := Some g\<rparr>)"

text \<open>\<open>layoutFlowNode\<close> needs the node's element: without it reading \<open>innerG\<close> is a TypeError.\<close>

definition layoutFlowNode :: "(string list \<Rightarrow> rat \<times> rat) \<Rightarrow> sattr \<Rightarrow> sattr result" where
  "layoutFlowNode bbox a =
     (case s_g a of
        None \<Rightarrow> Inl TypeError
      | Some g \<Rightarrow>
          (let (bw, bh) = bbox [s_label a, s_flowId a];
               totalWidth = Fin (bw + 2 * 8); totalHeight = Fin (bh + 2 * 2);
               g = g\<lparr>i_label := translateStr (Fin 8) (Fin (bh / 2 + 2)),
                     i_trans := translateStr (- totalWidth / Fin 2) (- totalHeight / Fin 2),
                     i_rect := (totalWidth, totalHeight)\<rparr>
           in Inr (a\<lparr>s_height := totalHeight, s_width := totalWidth, s_collapsedH := totalHeight,
                    s_collapsedW := totalWidth, s_g := Some g\<rparr>)))"

definition drawFlowNode :: "(string list \<Rightarrow> rat \<times> rat) \<Rightarrow> sattr \<Rightarrow> sattr result" where
  "drawFlowNode bbox a = layoutFlowNode bbox (a\<lparr>s_g := Some (blank_gel ''node flownode'' ''nodebox collapsed'')\<rparr>)"

definition drawNode :: "(string list \<Rightarrow> rat \<times> rat) \<Rightarrow> sattr \<Rightarrow> sattr result" where
  "drawNode bbox a = (if s_type a = ''flow'' then drawFlowNode bbox a else Inr (drawBoxNode bbox a))"

subsection \<open>Layout\<close>

fun index_of :: "string \<Rightarrow> string list \<Rightarrow> nat" where
  "index_of k [] = 0"
| "index_of k (k' # ks) = (if k = k' then 0 else Suc (index_of k ks))"

definition to_gnode :: "string list \<Rightarrow> sattr \<Rightarrow> gnode" where
  "to_gnode ids a = \<lparr>g_id = s_id a, g_label = s_label a, g_width = s_width a, g_height = s_height a, g_in = s_in a,
     g_inNodes = map_option (map (\<lambda>k. index_of k ids)) (s_inNodes a),
     g_outNodes = map_option (map (\<lambda>k. index_of k ids)) (s_outNodes a)\<rparr>"

definition to_ledge :: "sedge \<Rightarrow> ledge" where
  "to_ledge d = \<lparr>e_from = d_from d, e_to = d_to d, e_guides = d_guides d\<rparr>"

text \<open>
  \<open>layoutGraph(nodes, edges, 10)\<close> on the nodes of a flow: it leaves levels and positions in the
  nodes, guides in the edges, and the node list sorted by name.
\<close>

definition relayout :: "nat \<Rightarrow> snode \<Rightarrow> snode result" where
  "relayout fuel t =
     (let ns = snodes t; ids = map (s_id \<circ> sattr) ns; gs = map (to_gnode ids \<circ> sattr) ns; lv0 = map (s_level \<circ> sattr) ns
      in and_then (compute_levels fuel gs lv0) (\<lambda>lv.
         and_then (layoutGraph fuel gs lv0 (map to_ledge (s_edges (sattr t))) (Fin 10)) (\<lambda>(pos, es).
         (let ns' = map2 (\<lambda>n l. upd_s (\<lambda>a.
                (case map_of pos (s_id a) of
                   None \<Rightarrow> a\<lparr>s_level := l\<rparr>
                 | Some (x, y) \<Rightarrow> a\<lparr>s_level := l, s_nx := x, s_ny := y\<rparr>)) n) ns lv;
              es' = map2 (\<lambda>d e. d\<lparr>d_guides := e_guides e\<rparr>) (s_edges (sattr t)) es
          in Inr (SNode ((sattr t)\<lparr>s_edges := es'\<rparr>)
                 (js_sort (\<lambda>a b. str_cmp (s_id (sattr a)) (s_id (sattr b))) ns'))))))"

definition moveNodes :: "snode list \<Rightarrow> snode list" where
  "moveNodes ns = map (upd_s (\<lambda>a. upd_g (\<lambda>g. g\<lparr>g_trans := Some (translateStr (s_nx a) (s_ny a))\<rparr>) a)) ns"

subsection \<open>Bounds\<close>

record bounds =
  minX :: jsnum
  minY :: jsnum
  maxX :: jsnum
  maxY :: jsnum

definition box_step :: "bounds \<Rightarrow> sattr \<Rightarrow> bounds" where
  "box_step b a =
     (let centerX = s_width a / Fin 2; centerY = s_height a / Fin 2 in
      \<lparr>minX = js_min (minX b) (s_nx a - centerX), minY = js_min (minY b) (s_ny a - centerY),
       maxX = js_max (maxX b) (s_nx a + centerX), maxY = js_max (maxY b) (s_ny a + centerY)\<rparr>)"

definition calculateBounds :: "sattr list \<Rightarrow> bounds result" where
  "calculateBounds as =
     (case as of
        [] \<Rightarrow> Inl TypeError
      | a # _ \<Rightarrow> Inr (foldl box_step
          \<lparr>minX = s_nx a - Fin 10, minY = s_ny a - Fin 10, maxX = s_nx a + Fin 10, maxY = s_ny a + Fin 10\<rparr> as))"

definition bounds_width :: "bounds \<Rightarrow> jsnum" where
  "bounds_width b = maxX b - minX b"

definition bounds_height :: "bounds \<Rightarrow> jsnum" where
  "bounds_height b = maxY b - minY b"

definition add_margin :: "jsnum \<Rightarrow> bounds \<Rightarrow> bounds" where
  "add_margin margin b =
     \<lparr>minX = (if js_truthy (minX b) then minX b - margin else - margin),
      minY = (if js_truthy (minY b) then minY b - margin else - margin),
      maxX = (if js_truthy (maxX b) then maxX b + margin else margin),
      maxY = (if js_truthy (maxY b) then maxY b + margin else margin)\<rparr>"

subsection \<open>Edges\<close>

definition find_node :: "snode list \<Rightarrow> string \<Rightarrow> sattr option" where
  "find_node ns k = map_option sattr (find (\<lambda>n. s_id (sattr n) = k) ns)"

definition start_point :: "sattr \<Rightarrow> point" where
  "start_point a = (s_nx a, s_ny a + s_height a / Fin 2)"

definition end_point :: "sattr \<Rightarrow> point" where
  "end_point a = (s_nx a, s_ny a - s_height a / Fin 2)"

definition edge_points :: "sattr \<Rightarrow> point list \<Rightarrow> sattr \<Rightarrow> point list" where
  "edge_points a guides b = [start_point a] @ guides @ [end_point b]"

definition drawEdge :: "snode list \<Rightarrow> sedge \<Rightarrow> sedge result" where
  "drawEdge ns d =
     (case (find_node ns (d_from d), find_node ns (d_to d)) of
        (Some a, Some b) \<Rightarrow>
          (case d_guides d of
             Some guides \<Rightarrow>
               Inr (d\<lparr>d_line := Some (Polyline (edge_points a guides b)), d_oldpoints := Some (edge_points a guides b)\<rparr>)
           | None \<Rightarrow> Inr (d\<lparr>d_line := Some (Line (start_point a) (end_point b))\<rparr>))
      | _ \<Rightarrow> Inl TypeError)"

text \<open>
  Moving an edge after a new layout; the polyline keeps the points of its last frame. A line that
  meanwhile got guides is still a \<open>line\<close> element without old points, a TypeError.
\<close>

definition move_edge :: "snode list \<Rightarrow> sedge \<Rightarrow> sedge result" where
  "move_edge ns d =
     (case (find_node ns (d_from d), find_node ns (d_to d)) of
        (Some a, Some b) \<Rightarrow>
          (case d_guides d of
             Some guides \<Rightarrow>
               and_then (animatePolylineEdge (d_oldpoints d) (edge_points a guides b) 250) (\<lambda>frames.
                 Inr (d\<lparr>d_line := Some (Polyline (last frames)), d_oldpoints := Some (edge_points a guides b)\<rparr>))
           | None \<Rightarrow> Inr (d\<lparr>d_line := Some (Line (start_point a) (end_point b))\<rparr>))
      | _ \<Rightarrow> Inl TypeError)"

definition moveNodeEdges :: "snode \<Rightarrow> snode result" where
  "moveNodeEdges t =
     (let ns = moveNodes (snodes t) in
      and_then (map_result (move_edge ns) (s_edges (sattr t))) (\<lambda>es.
        Inr (SNode ((sattr t)\<lparr>s_edges := es\<rparr>) ns)))"

subsection \<open>Rendering a flow\<close>

definition assign_status :: "sattr \<Rightarrow> sattr" where
  "assign_status a =
     (let initialStatus = (if s_status a \<noteq> [] then s_status a else ''READY'');
          a = upd_g (add_g initialStatus) a;
          a = (if s_disabled a then upd_g (add_g ''nodeDisabled'') a else a)
      in upd_g (title_g (title_of (if s_disabled a then ''DISABLED'' else initialStatus) a)) a)"

definition svg_assignInitialStatus :: "snode \<Rightarrow> snode" where
  "svg_assignInitialStatus t = SNode (sattr t) (map (upd_s assign_status) (snodes t))"

text \<open>
  \<open>renderGraph\<close>: the result is the flow with everything drawn and its bounds; without nodes it
  returns early, without bounds.
\<close>

definition renderGraph ::
  "(string list \<Rightarrow> rat \<times> rat) \<Rightarrow> nat \<Rightarrow> jsnum \<Rightarrow> snode \<Rightarrow> (snode \<times> bounds option) result" where
  "renderGraph bbox fuel margin t =
     (if snodes t = [] then Inr (t, None)
      else
        and_then (map_result (\<lambda>n. and_then (drawNode bbox ((sattr n)\<lparr>s_label := s_id (sattr n)\<rparr>))
           (\<lambda>a. Inr (SNode a (snodes n)))) (snodes t)) (\<lambda>ns.
        and_then (relayout fuel (SNode (sattr t) ns)) (\<lambda>t.
        and_then (calculateBounds (map sattr (snodes t))) (\<lambda>b.
        (let ns = moveNodes (snodes t) in
         and_then (map_result (drawEdge ns) (s_edges (sattr t))) (\<lambda>es.
           Inr (svg_assignInitialStatus (SNode ((sattr t)\<lparr>s_edges := es\<rparr>) ns), Some (add_margin margin b))))))))"

subsection \<open>The view\<close>

text \<open>
  \<open>v_zooms\<close> collects the boxes that \<open>panZoom\<close> hands to the navigation; \<open>v_selected\<close> is the path of
  the selected node, the names from the top down.
\<close>

record svg_view =
  v_data :: snode
  v_bounds :: "bounds option"
  v_margin :: jsnum
  v_zooms :: "box_args list"
  v_selected :: "string list option"
  v_autoPanZoom :: bool

definition panZoom :: "box_args \<Rightarrow> svg_view \<Rightarrow> svg_view" where
  "panZoom p v = v\<lparr>v_zooms := v_zooms v @ [p\<lparr>x_maxScale := Fin 2\<rparr>]\<rparr>"

definition resetPanZoom :: "int option \<Rightarrow> svg_view \<Rightarrow> svg_view result" where
  "resetPanZoom duration v =
     (case v_bounds v of
        None \<Rightarrow> Inl TypeError
      | Some b \<Rightarrow> Inr (panZoom \<lparr>x_x = minX b, x_y = minY b, x_width = maxX b - minX b, x_height = maxY b - minY b,
          x_maxScale = NaN, x_minScale = NaN, x_duration = duration\<rparr> v))"

definition svg_render :: "(string list \<Rightarrow> rat \<times> rat) \<Rightarrow> nat \<Rightarrow> svg_view \<Rightarrow> svg_view result" where
  "svg_render bbox fuel v =
     and_then (renderGraph bbox fuel (v_margin v) (v_data v)) (\<lambda>(t, b).
       resetPanZoom (Some 0) (v\<lparr>v_data := t, v_bounds := b\<rparr>))"

definition svg_margin :: "jsnum \<Rightarrow> jsnum" where
  "svg_margin graphMargin = (if js_truthy graphMargin then graphMargin else Fin 25)"

subsection \<open>Expanding and collapsing\<close>

definition by_id :: "string \<Rightarrow> snode \<Rightarrow> bool" where
  "by_id k n \<longleftrightarrow> s_id (sattr n) = k"

text \<open>Changing the node at a path; a path that leads nowhere is a TypeError.\<close>

fun upd_path :: "string list \<Rightarrow> (snode \<Rightarrow> snode result) \<Rightarrow> snode \<Rightarrow> snode result" where
  "upd_path [] f t = f t"
| "upd_path (k # p) f t =
     (if \<exists>n \<in> set (snodes t). by_id k n
      then and_then (map_result (\<lambda>n. if by_id k n then upd_path p f n else Inr n) (snodes t))
             (\<lambda>ns. Inr (SNode (sattr t) ns))
      else Inl TypeError)"

fun node_at :: "string list \<Rightarrow> snode \<Rightarrow> snode option" where
  "node_at [] t = Some t"
| "node_at (k # p) t = (case find (by_id k) (snodes t) of None \<Rightarrow> None | Some n \<Rightarrow> node_at p n)"

definition upd_inner :: "(gel \<Rightarrow> gel) \<Rightarrow> snode \<Rightarrow> snode result" where
  "upd_inner f n = (case s_g (sattr n) of None \<Rightarrow> Inl TypeError | Some _ \<Rightarrow> Inr (upd_s (upd_g f) n))"

definition layoutExpandedFlowNode :: "snode \<Rightarrow> snode result" where
  "layoutExpandedFlowNode n =
     and_then (calculateBounds (map sattr (snodes n))) (\<lambda>b.
     and_then (upd_inner (\<lambda>g. g\<lparr>i_expanded := map_option (\<lambda>(shown, _).
         (shown, Some (translateStr (- minX b + Fin 10) (- minY b + Fin 30)))) (i_expanded g)\<rparr>) n) (\<lambda>n.
       Inr (upd_s (\<lambda>a. a\<lparr>s_height := bounds_height b + Fin 30 + Fin 5, s_width := bounds_width b + Fin 10 * Fin 2\<rparr>) n)))"

definition animateExpandedFlowNode :: "snode \<Rightarrow> snode result" where
  "animateExpandedFlowNode n =
     upd_inner (\<lambda>g. g\<lparr>i_trans := translateStr (- s_width (sattr n) / Fin 2) (- s_height (sattr n) / Fin 2),
       i_rect := (s_width (sattr n), s_height (sattr n))\<rparr>) n"

text \<open>
  \<open>relayoutFlow\<close> goes from the node up to the top; the path is given from the node upwards. The
  top-level flow is never expanded and has no parent.
\<close>

fun relayoutFlow :: "nat \<Rightarrow> string list \<Rightarrow> snode \<Rightarrow> snode result" where
  "relayoutFlow fuel [] t = (if s_expanded (sattr t) then layoutExpandedFlowNode t else Inr t)"
| "relayoutFlow fuel (k # up) t =
     and_then (upd_path (rev (k # up)) (\<lambda>n. if s_expanded (sattr n) then layoutExpandedFlowNode n else Inr n) t) (\<lambda>t.
     and_then (upd_path (rev up) (relayout fuel) t) (\<lambda>t.
     and_then (relayoutFlow fuel up t) (\<lambda>t.
     and_then (upd_path (rev up) moveNodeEdges t) (\<lambda>t.
       upd_path (rev (k # up)) animateExpandedFlowNode t))))"

text \<open>The new bounds are those of the top level, in the order that \<open>expandFlow\<close> sets them.\<close>

definition refresh_bounds :: "svg_view \<Rightarrow> svg_view result" where
  "refresh_bounds v = and_then (calculateBounds (map sattr (snodes (v_data v))))
     (\<lambda>b. Inr (v\<lparr>v_bounds := Some (add_margin (v_margin v) b)\<rparr>))"

definition swap_class :: "string \<Rightarrow> string \<Rightarrow> gel \<Rightarrow> gel" where
  "swap_class old new g = g\<lparr>i_class := svg_addClass (removeClass (i_class g) old) new\<rparr>"

definition expand_node :: "(string list \<Rightarrow> rat \<times> rat) \<Rightarrow> nat \<Rightarrow> jsnum \<Rightarrow> snode \<Rightarrow> snode result" where
  "expand_node bbox fuel margin n =
     (let n = upd_s (\<lambda>a. a\<lparr>s_expanded := True\<rparr>) n in
      case s_g (sattr n) of
        None \<Rightarrow> Inl TypeError
      | Some g \<Rightarrow>
          (case i_expanded g of
             None \<Rightarrow>
               and_then (renderGraph bbox fuel margin n) (\<lambda>(n, _).
               and_then (upd_inner (\<lambda>g. swap_class ''collapsed'' ''expanded'' (g\<lparr>i_expanded := Some (True, None)\<rparr>)) n) (\<lambda>n.
                 Inr (upd_s (\<lambda>a. a\<lparr>s_expandedW := s_width a, s_expandedH := s_height a\<rparr>) n)))
           | Some (_, tr) \<Rightarrow>
               and_then (upd_inner (\<lambda>g. swap_class ''collapsed'' ''expanded'' (g\<lparr>i_expanded := Some (True, tr)\<rparr>)) n) (\<lambda>n.
                 Inr (upd_s (\<lambda>a. a\<lparr>s_width := s_expandedW a, s_height := s_expandedH a\<rparr>) n))))"

definition expandFlow :: "(string list \<Rightarrow> rat \<times> rat) \<Rightarrow> nat \<Rightarrow> string list \<Rightarrow> svg_view \<Rightarrow> svg_view result" where
  "expandFlow bbox fuel p v =
     and_then (upd_path p (expand_node bbox fuel (v_margin v)) (v_data v)) (\<lambda>t.
     and_then (relayoutFlow fuel (rev p) t) (\<lambda>t.
       refresh_bounds (v\<lparr>v_data := t\<rparr>)))"

definition collapse_node :: "snode \<Rightarrow> snode result" where
  "collapse_node n =
     (let n = upd_s (\<lambda>a. a\<lparr>s_expanded := False\<rparr>) n in
      and_then (upd_inner (\<lambda>g. swap_class ''expanded'' ''collapsed'' (g\<lparr>i_expanded := map_option (\<lambda>(_, tr). (False, tr)) (i_expanded g)\<rparr>)) n)
        (\<lambda>n. Inr (upd_s (\<lambda>a. a\<lparr>s_height := s_collapsedH a, s_width := s_collapsedW a\<rparr>) n)))"

definition collapseFlow :: "nat \<Rightarrow> string list \<Rightarrow> svg_view \<Rightarrow> svg_view result" where
  "collapseFlow fuel p v =
     and_then (upd_path p collapse_node (v_data v)) (\<lambda>t.
     and_then (relayoutFlow fuel (rev p) t) (\<lambda>t.
       refresh_bounds (v\<lparr>v_data := t\<rparr>)))"

text \<open>The flows around a node, outermost first: the recursion stops at the top, which has no type.\<close>

fun propagateExpansion :: "(string list \<Rightarrow> rat \<times> rat) \<Rightarrow> nat \<Rightarrow> string list \<Rightarrow> string list \<Rightarrow> svg_view \<Rightarrow> svg_view result" where
  "propagateExpansion bbox fuel outer [] v = Inr v"
| "propagateExpansion bbox fuel outer [k] v = Inr v"
| "propagateExpansion bbox fuel outer (k # k' # p) v =
     and_then (expandFlow bbox fuel (outer @ [k]) v) (propagateExpansion bbox fuel (outer @ [k]) (k' # p))"

subsection \<open>Selection\<close>

text \<open>The place of a node on the screen comes from the browser's matrices, the parameter \<open>ctm\<close>.\<close>

definition centerNode :: "jsnum \<times> jsnum \<Rightarrow> sattr \<Rightarrow> svg_view \<Rightarrow> svg_view" where
  "centerNode ctm a v =
     panZoom \<lparr>x_x = fst ctm - s_width a / Fin 2, x_y = snd ctm - s_height a / Fin 2, x_width = s_width a,
       x_height = s_height a, x_maxScale = NaN, x_minScale = NaN, x_duration = None\<rparr> v"

definition mark_selected :: "(gel \<Rightarrow> gel) \<Rightarrow> string list \<Rightarrow> svg_view \<Rightarrow> svg_view result" where
  "mark_selected f p v = and_then (upd_path p (upd_inner f) (v_data v)) (\<lambda>t. Inr (v\<lparr>v_data := t\<rparr>))"

definition changeSelected ::
  "(string list \<Rightarrow> rat \<times> rat) \<Rightarrow> nat \<Rightarrow> (string list \<Rightarrow> jsnum \<times> jsnum) \<Rightarrow> string list option \<Rightarrow> svg_view \<Rightarrow> svg_view result" where
  "changeSelected bbox fuel ctm previous v =
     and_then (case previous of None \<Rightarrow> Inr v | Some p \<Rightarrow> mark_selected (rem_g ''selected'') p v) (\<lambda>v.
       (case v_selected v of
          None \<Rightarrow> Inr v
        | Some p \<Rightarrow>
            and_then (propagateExpansion bbox fuel [] p v) (\<lambda>v.
            and_then (mark_selected (add_g ''selected'') p v) (\<lambda>v.
              (if v_autoPanZoom v
               then (case node_at p (v_data v) of
                       None \<Rightarrow> Inl TypeError
                     | Some n \<Rightarrow> Inr (centerNode (ctm p) (sattr n) v))
               else Inr v)))))"

text \<open>A click on a node selects it, or unselects it when it is the selected one.\<close>

definition node_click :: "string list \<Rightarrow> svg_view \<Rightarrow> svg_view" where
  "node_click p v = v\<lparr>v_selected := (if v_selected v = Some p then None else Some p)\<rparr>"

subsection \<open>Disabled nodes and statuses\<close>

definition show_disabled :: "sattr \<Rightarrow> sattr" where
  "show_disabled a =
     (if s_disabled a then upd_g (title_g (title_of ''DISABLED'' a) \<circ> add_g ''nodeDisabled'') a
      else upd_g (title_g (title_of (s_status a) a) \<circ> rem_g ''nodeDisabled'') a)"

fun changeDisabled :: "snode \<Rightarrow> snode" where
  "changeDisabled (SNode a ns) = SNode a (map (\<lambda>n.
     upd_s show_disabled (if \<not> s_disabled (sattr n) \<and> s_type (sattr n) = ''flow'' then changeDisabled n else n)) ns)"

definition handleRemoveAllStatus :: "gel \<Rightarrow> gel" where
  "handleRemoveAllStatus g = g\<lparr>g_class := remove_statuses removeClass (g_class g)\<rparr>"

definition paint_status :: "sattr \<Rightarrow> sattr" where
  "paint_status a =
     (let a = upd_g (add_g (s_status a) \<circ> handleRemoveAllStatus) a;
          a = (if s_disabled a then upd_g (add_g ''nodeDisabled'') a else a)
      in upd_g (title_g (title_of (if s_disabled a then ''DISABLED'' else s_status a) a)) a)"

text \<open>
  \<open>updateStatusChanges\<close> recurses over the update; it goes into an embedded flow only when the flow's
  node is drawn. A node of the update that the flow does not have is a TypeError.
\<close>

function updateStatusChanges :: "unode \<Rightarrow> snode \<Rightarrow> snode result" where
  "updateStatusChanges (UNode u us) (SNode a ns) =
     and_then
       (fold_result (\<lambda>ns m.
          (if \<exists>n \<in> set ns. by_id (u_id (uattr m)) n
           then map_result (\<lambda>n.
                  if by_id (u_id (uattr m)) n \<and> s_g (sattr n) \<noteq> None
                  then updateStatusChanges m (upd_s paint_status n) else Inr n) ns
           else Inl TypeError)) ns us)
       (\<lambda>ns'. Inr (SNode a ns'))"
  by pat_completeness auto
termination
  by (relation "measure (\<lambda>(u, _). size u)") (auto simp: less_Suc_eq_le intro: size_list_estimation' trans_le_add1)

declare updateStatusChanges.simps [simp del]

subsection \<open>Right click\<close>

datatype click_target = JobTarget string | LineTarget string | OtherTarget string

text \<open>Which of the given callbacks a right click calls, and whether the event is kept from the browser.\<close>

definition handleRightClick ::
  "(bool \<times> bool \<times> bool) option \<Rightarrow> click_target \<Rightarrow> string option \<times> bool" where
  "handleRightClick rightClick target =
     (case rightClick of
        None \<Rightarrow> (None, True)
      | Some (node, edge, graph) \<Rightarrow>
          (if node \<and> (\<exists>j. target = JobTarget j \<and> j \<noteq> []) then Some ''node''
           else if edge \<and> (target = LineTarget ''polyline'' \<or> target = LineTarget ''line'') then Some ''edge''
           else if graph then Some ''graph'' else None,
           False))"

end
