(* ===== verification/SvgViewProps.thy ===== *)
theory SvgViewProps
  imports SvgView
begin

text \<open>
  What the graph view shows: the bounds of the graph, the marks of disabled jobs, and the colours after
  an update.
\<close>

subsection \<open>Bounds\<close>

definition left_side :: "sattr \<Rightarrow> rat" where "left_side a = fin_val (s_nx a) - fin_val (s_width a) / 2"
definition right_side :: "sattr \<Rightarrow> rat" where "right_side a = fin_val (s_nx a) + fin_val (s_width a) / 2"
definition top_side :: "sattr \<Rightarrow> rat" where "top_side a = fin_val (s_ny a) - fin_val (s_height a) / 2"
definition bottom_side :: "sattr \<Rightarrow> rat" where "bottom_side a = fin_val (s_ny a) + fin_val (s_height a) / 2"

definition placed :: "sattr \<Rightarrow> bool" where
  "placed a \<longleftrightarrow> is_fin (s_nx a) \<and> is_fin (s_ny a) \<and> is_fin (s_width a) \<and> is_fin (s_height a)"

lemma box_steps:
  assumes "\<forall>a \<in> set as. placed a"
  shows "foldl box_step \<lparr>minX = Fin p, minY = Fin q, maxX = Fin r, maxY = Fin s\<rparr> as =
    \<lparr>minX = Fin (foldl min p (map left_side as)), minY = Fin (foldl min q (map top_side as)),
     maxX = Fin (foldl max r (map right_side as)), maxY = Fin (foldl max s (map bottom_side as))\<rparr>"
  using assms
proof (induction as arbitrary: p q r s)
  case (Cons a as)
  then obtain x y w h where "s_nx a = Fin x" "s_ny a = Fin y" "s_width a = Fin w" "s_height a = Fin h"
    by (auto simp: placed_def is_fin_conv)
  then have "box_step \<lparr>minX = Fin p, minY = Fin q, maxX = Fin r, maxY = Fin s\<rparr> a =
      \<lparr>minX = Fin (min p (left_side a)), minY = Fin (min q (top_side a)), maxX = Fin (max r (right_side a)),
       maxY = Fin (max s (bottom_side a))\<rparr>"
    by (simp add: box_step_def Let_def left_side_def top_side_def right_side_def bottom_side_def)
  with Cons show ?case by simp
qed simp

lemma foldl_min: "foldl min p xs \<le> p \<and> (\<forall>x \<in> set xs. foldl min p xs \<le> x) \<and> foldl min p xs \<in> insert p (set xs)"
  for p :: "'a :: linorder"
  by (induction xs rule: rev_induct) (auto simp: min_def)

lemma foldl_max: "p \<le> foldl max p xs \<and> (\<forall>x \<in> set xs. x \<le> foldl max p xs) \<and> foldl max p xs \<in> insert p (set xs)"
  for p :: "'a :: linorder"
  by (induction xs rule: rev_induct) (auto simp: max_def)


definition demo_sattr :: "string \<Rightarrow> rat \<Rightarrow> sattr" where
  "demo_sattr k x = \<lparr>s_id = k, s_flowId = [], s_type = ''command'', s_status = ''READY'', s_disabled = False, s_label = k,
     s_in = [], s_inNodes = None, s_outNodes = None, s_level = None, s_nx = Fin x, s_ny = Fin 0, s_width = Fin 60,
     s_height = Fin 20, s_expanded = False, s_expandedW = NaN, s_expandedH = NaN, s_collapsedW = NaN, s_collapsedH = NaN,
     s_g = None, s_edges = []\<rparr>"


subsection \<open>Disabled jobs\<close>

definition good_g :: "sattr \<Rightarrow> bool" where
  "good_g a \<longleftrightarrow> (\<forall>g. s_g a = Some g \<longrightarrow> svg_good (g_class g))"

fun all_good :: "snode \<Rightarrow> bool" where
  "all_good (SNode a ns) \<longleftrightarrow> (\<forall>n \<in> set ns. good_g (sattr n) \<and> all_good n)"

definition marks_disabled :: "sattr \<Rightarrow> bool" where
  "marks_disabled a \<longleftrightarrow> (\<forall>g. s_g a = Some g \<longrightarrow>
     (''nodeDisabled'' \<in> set (class_words (g_class g)) \<longleftrightarrow> s_disabled a) \<and>
     g_title g = Some (title_of (if s_disabled a then ''DISABLED'' else s_status a) a))"

fun shows_disabled :: "snode \<Rightarrow> bool" where
  "shows_disabled (SNode a ns) \<longleftrightarrow> (\<forall>n \<in> set ns. marks_disabled (sattr n) \<and>
     (\<not> s_disabled (sattr n) \<and> s_type (sattr n) = ''flow'' \<longrightarrow> shows_disabled n))"

lemma word_nodeDisabled: "is_word ''nodeDisabled''"
  by (simp add: is_word_def js_ws_def)

lemma show_disabled_marks:
  "good_g a \<Longrightarrow> marks_disabled (show_disabled a) \<and> good_g (show_disabled a) \<and>
   s_disabled (show_disabled a) = s_disabled a \<and> s_type (show_disabled a) = s_type a"
  using svg_cls.tokens_add[OF _ word_nodeDisabled] svg_cls.tokens_rem[OF _ word_nodeDisabled]
    svg_cls.good_add[OF _ word_nodeDisabled] svg_cls.good_rem[OF _ word_nodeDisabled]
  by (auto simp: show_disabled_def marks_disabled_def good_g_def upd_g_def title_g_def add_g_def rem_g_def title_of_def)

lemma changeDisabled_root: "sattr (changeDisabled n) = sattr n"
  by (cases n) simp

text \<open>
  C27. After the view has handled a change of the selection, every drawn job carries the class
  \<open>nodeDisabled\<close> exactly if it is disabled, with the title to match, inside embedded flows too, except
  below a disabled flow, which the view does not touch.
\<close>

theorem changeDisabled_shows:
  "all_good t \<Longrightarrow> shows_disabled (changeDisabled t) \<and> all_good (changeDisabled t)"
proof (induction t)
  case (SNode a ns)
  define f where "f n = upd_s show_disabled (if \<not> s_disabled (sattr n) \<and> s_type (sattr n) = ''flow'' then changeDisabled n else n)" for n
  have at: "sattr (f n) = show_disabled (sattr n)" for n
    by (simp add: f_def changeDisabled_root)
  have sub: "shows_disabled (upd_s h n) = shows_disabled n" "all_good (upd_s h n) = all_good n" for h n
    by (cases n; simp)+
  have "marks_disabled (sattr (f n)) \<and> good_g (sattr (f n)) \<and> all_good (f n) \<and>
      (\<not> s_disabled (sattr (f n)) \<and> s_type (sattr (f n)) = ''flow'' \<longrightarrow> shows_disabled (f n))" if "n \<in> set ns" for n
  proof -
    have g: "good_g (sattr n)" "all_good n" using SNode.prems that by auto
    have "shows_disabled (changeDisabled n) \<and> all_good (changeDisabled n)" using SNode.IH[OF that g(2)] .
    with show_disabled_marks[OF g(1)] g(2) show ?thesis unfolding at by (simp add: f_def sub)
  qed
  then show ?case unfolding changeDisabled.simps f_def[symmetric] by simp
qed

definition drawn :: "string \<Rightarrow> bool \<Rightarrow> snode" where
  "drawn k d = SNode ((demo_sattr k 0)\<lparr>s_disabled := d, s_g := Some (blank_gel ''node jobnode'' ''nodebox'')\<rparr>) []"

theorem changeDisabled_shows_witness:
  "shows_disabled (changeDisabled (SNode (demo_sattr [] 0) [drawn ''a'' True, drawn ''b'' False]))"
proof -
  have "class_words (Some ''node jobnode'') = [''node'', ''jobnode'']" by code_simp
  then have "all_good (SNode (demo_sattr [] 0) [drawn ''a'' True, drawn ''b'' False])"
    by (simp add: drawn_def good_g_def svg_good_def blank_gel_def)
  from changeDisabled_shows[OF this] show ?thesis by blast
qed

subsection \<open>Colours\<close>

definition status_shown :: "sattr \<Rightarrow> bool" where
  "status_shown a \<longleftrightarrow> (\<forall>g. s_g a = Some g \<longrightarrow> set (class_words (g_class g)) \<inter> set statusList = {s_status a})"

definition listed :: "sattr \<Rightarrow> bool" where
  "listed a \<longleftrightarrow> good_g a \<and> s_status a \<in> set statusList"

fun all_listed :: "snode \<Rightarrow> bool" where
  "all_listed (SNode a ns) \<longleftrightarrow> (\<forall>n \<in> set ns. listed (sattr n) \<and> all_listed n)"

text \<open>
  \<open>t\<close> grows into \<open>t'\<close>: the same drawn nodes, and none that showed its status has stopped doing so.
  \<open>named_shown\<close>: every drawn node that the update names shows its status.
\<close>

definition root_grows :: "sattr \<Rightarrow> sattr \<Rightarrow> bool" where
  "root_grows a b \<longleftrightarrow> s_id a = s_id b \<and> s_status a = s_status b \<and> (s_g a = None \<longleftrightarrow> s_g b = None) \<and> (listed a \<longrightarrow> listed b) \<and> (status_shown a \<longrightarrow> status_shown b)"

fun grows :: "snode \<Rightarrow> snode \<Rightarrow> bool" where
  "grows (SNode a ns) (SNode b ms) \<longleftrightarrow> root_grows a b \<and> list_all2 grows ns ms"

fun named_shown :: "unode \<Rightarrow> snode \<Rightarrow> bool" where
  "named_shown (UNode u us) t \<longleftrightarrow> (\<forall>m \<in> set us. \<forall>n \<in> set (snodes t).
     by_id (u_id (uattr m)) n \<and> s_g (sattr n) \<noteq> None \<longrightarrow> status_shown (sattr n) \<and> named_shown m n)"

lemma grows_root: "grows n n' \<Longrightarrow> root_grows (sattr n) (sattr n')"
  by (cases n; cases n') auto

lemma grows_refl: "grows n n"
proof (induction n)
  case (SNode a ns)
  then have "list_all2 grows ns ns" by (simp add: list_all2_same)
  then show ?case by (simp add: root_grows_def)
qed

lemma grows_trans: "grows n1 n2 \<Longrightarrow> grows n2 n3 \<Longrightarrow> grows n1 n3"
proof (induction n1 arbitrary: n2 n3)
  case (SNode a ns)
  obtain b ms c ls where e: "n2 = SNode b ms" "n3 = SNode c ls" by (cases n2; cases n3) auto
  have g: "list_all2 grows ns ms" "list_all2 grows ms ls" and r: "root_grows a b" "root_grows b c"
    using SNode.prems e by auto
  have "list_all2 grows ns ls"
    using g SNode.IH by (auto simp: list_all2_conv_all_nth)
  with r show ?case by (auto simp: e root_grows_def)
qed

lemma grows_listed: "grows n n' \<Longrightarrow> all_listed n \<Longrightarrow> all_listed n'"
proof (induction n arbitrary: n')
  case (SNode a ns)
  obtain b ms where e: "n' = SNode b ms" by (cases n') auto
  have g: "list_all2 grows ns ms" using SNode.prems(1) e by simp
  have "listed (sattr (ms ! i)) \<and> all_listed (ms ! i)" if "i < length ms" for i
    using g SNode.IH[of "ns ! i"] SNode.prems(2) that grows_root[of "ns ! i" "ms ! i"]
    by (auto simp: list_all2_conv_all_nth root_grows_def)
  then show ?case by (auto simp: e all_set_conv_all_nth)
qed

lemma grows_named: "grows t t' \<Longrightarrow> named_shown u t \<Longrightarrow> named_shown u t'"
proof (induction u arbitrary: t t')
  case (UNode u us)
  obtain a ns b ms where e: "t = SNode a ns" "t' = SNode b ms" by (cases t; cases t') auto
  have g: "list_all2 grows ns ms" using UNode.prems(1) e by simp
  have "status_shown (sattr (ms ! i)) \<and> named_shown m (ms ! i)"
    if m: "m \<in> set us" and i: "i < length ms" and n: "by_id (u_id (uattr m)) (ms ! i)" "s_g (sattr (ms ! i)) \<noteq> None" for m i
  proof -
    have gi: "grows (ns ! i) (ms ! i)" "i < length ns" using g i by (auto simp: list_all2_conv_all_nth)
    have r: "root_grows (sattr (ns ! i)) (sattr (ms ! i))" by (rule grows_root[OF gi(1)])
    then have "status_shown (sattr (ns ! i)) \<and> named_shown m (ns ! i)"
      using UNode.prems(2) m gi(2) n by (auto simp: e by_id_def root_grows_def)
    with r UNode.IH[OF m gi(1)] show ?thesis by (simp add: root_grows_def)
  qed
  then show ?case by (auto simp: e all_set_conv_all_nth)
qed

lemma listed_word: "s_status a \<in> set statusList \<Longrightarrow> is_word (s_status a)"
  using statusList_words by (auto simp: list_all_iff)

lemma nodeDisabled_unlisted: "''nodeDisabled'' \<notin> set statusList"
  by (simp add: statusList_def)

lemma paint_status_shown:
  assumes "listed a"
  shows "status_shown (paint_status a) \<and> listed (paint_status a) \<and> s_id (paint_status a) = s_id a \<and>
    s_status (paint_status a) = s_status a \<and> (s_g (paint_status a) = None \<longleftrightarrow> s_g a = None)"
proof -
  have w: "is_word (s_status a)" "s_status a \<in> set statusList" using assms listed_word by (auto simp: listed_def)
  have "set (class_words (svg_addClass (remove_statuses removeClass (g_class g)) (s_status a))) \<inter> set statusList = {s_status a}"
    "svg_good (svg_addClass (remove_statuses removeClass (g_class g)) (s_status a))" if "s_g a = Some g" for g
    using svg_cls.painted_listed[OF _ w(2)] svg_cls.painted_good[OF _ w(1)] assms that by (auto simp: listed_def good_g_def)
  then show ?thesis
    using w(2) nodeDisabled_unlisted svg_cls.tokens_add[OF _ word_nodeDisabled] svg_cls.good_add[OF _ word_nodeDisabled]
    by (auto simp: paint_status_def Let_def status_shown_def listed_def good_g_def upd_g_def title_g_def add_g_def handleRemoveAllStatus_def)
qed

definition update_child :: "unode \<Rightarrow> snode \<Rightarrow> snode result" where
  "update_child m n = (if by_id (u_id (uattr m)) n \<and> s_g (sattr n) \<noteq> None
     then updateStatusChanges m (upd_s paint_status n) else Inr n)"

lemma update_root: "updateStatusChanges u n = Inr n' \<Longrightarrow> sattr n' = sattr n"
  by (cases u; cases n) (auto simp: updateStatusChanges.simps and_then_Inr_iff)

text \<open>One answer on one child: it grows, and a child it names shows its status.\<close>

lemma update_child_shows:
  assumes "update_child m n = Inr n'" "listed (sattr n)" "all_listed n"
    "\<And>n n'. all_listed n \<Longrightarrow> updateStatusChanges m n = Inr n' \<Longrightarrow> grows n n' \<and> named_shown m n'"
  shows "grows n n' \<and> (by_id (u_id (uattr m)) n' \<and> s_g (sattr n') \<noteq> None \<longrightarrow> status_shown (sattr n') \<and> named_shown m n')"
proof (cases "by_id (u_id (uattr m)) n \<and> s_g (sattr n) \<noteq> None")
  case True
  obtain a cs where n: "n = SNode a cs" by (cases n)
  have up: "updateStatusChanges m (upd_s paint_status n) = Inr n'" using assms(1) True by (simp add: update_child_def)
  have pl: "listed a" "all_listed (upd_s paint_status n)" using assms(2,3) n by auto
  have "grows n (upd_s paint_status n)"
    using paint_status_shown[OF pl(1)] by (simp add: n root_grows_def list_all2_same grows_refl)
  moreover have "grows (upd_s paint_status n) n' \<and> named_shown m n'" using assms(4)[OF pl(2) up] .
  moreover have "status_shown (sattr n')" using update_root[OF up] paint_status_shown[OF pl(1)] by (simp add: n)
  ultimately show ?thesis using grows_trans by blast
next
  case False
  from assms(1) have same: "n' = n" unfolding update_child_def if_not_P[OF False] by simp
  show ?thesis unfolding same using False grows_refl by blast
qed

lemma fold_updates:
  assumes "fold_result (\<lambda>ns m. if \<exists>n \<in> set ns. by_id (u_id (uattr m)) n then map_result (update_child m) ns else Inl TypeError) ns us = Inr ns'"
    "\<forall>n \<in> set ns. listed (sattr n) \<and> all_listed n"
    "\<And>m n n'. m \<in> set us \<Longrightarrow> all_listed n \<Longrightarrow> updateStatusChanges m n = Inr n' \<Longrightarrow> grows n n' \<and> named_shown m n'"
  shows "list_all2 grows ns ns' \<and> (\<forall>m \<in> set us. \<forall>n \<in> set ns'.
     by_id (u_id (uattr m)) n \<and> s_g (sattr n) \<noteq> None \<longrightarrow> status_shown (sattr n) \<and> named_shown m n)"
  using assms
proof (induction us arbitrary: ns' rule: rev_induct)
  case Nil
  then show ?case by (simp add: list_all2_same grows_refl)
next
  case (snoc m us)
  obtain ns1 where f: "fold_result (\<lambda>ns m. if \<exists>n \<in> set ns. by_id (u_id (uattr m)) n then map_result (update_child m) ns else Inl TypeError) ns us = Inr ns1"
    and mr: "map_result (update_child m) ns1 = Inr ns'"
    using snoc.prems(1) by (auto simp: fold_result_append and_then_Inr_iff split: if_splits)
  have ih: "list_all2 grows ns ns1" "\<And>m' n. m' \<in> set us \<Longrightarrow> n \<in> set ns1 \<Longrightarrow> by_id (u_id (uattr m')) n \<Longrightarrow>
      s_g (sattr n) \<noteq> None \<Longrightarrow> status_shown (sattr n) \<and> named_shown m' n"
    using snoc.IH[OF f snoc.prems(2)] snoc.prems(3) by auto
  have len: "length ns' = length ns1" by (rule map_result_length[OF mr])
  have ok1: "listed (sattr (ns1 ! i))" "all_listed (ns1 ! i)" if "i < length ns1" for i
    using ih(1) that snoc.prems(2) grows_root[of "ns ! i" "ns1 ! i"] grows_listed[of "ns ! i" "ns1 ! i"]
    by (auto simp: list_all2_conv_all_nth root_grows_def)
  have step: "grows (ns1 ! i) (ns' ! i) \<and> (by_id (u_id (uattr m)) (ns' ! i) \<and> s_g (sattr (ns' ! i)) \<noteq> None \<longrightarrow>
      status_shown (sattr (ns' ! i)) \<and> named_shown m (ns' ! i))" if i: "i < length ns1" for i
    by (rule update_child_shows[OF map_result_nth[OF mr i] ok1[OF i]]) (rule snoc.prems(3), simp)
  have "list_all2 grows ns1 ns'" using step len by (simp add: list_all2_conv_all_nth)
  then have "list_all2 grows ns ns'" using ih(1) grows_trans by (blast intro: list_all2_trans)
  moreover have "status_shown (sattr (ns' ! i)) \<and> named_shown m' (ns' ! i)"
    if "m' \<in> set us" "i < length ns1" "by_id (u_id (uattr m')) (ns' ! i)" "s_g (sattr (ns' ! i)) \<noteq> None" for m' i
  proof -
    have g: "grows (ns1 ! i) (ns' ! i)" using step that(2) by blast
    then have "status_shown (sattr (ns1 ! i)) \<and> named_shown m' (ns1 ! i)"
      using ih(2)[OF that(1), of "ns1 ! i"] that grows_root[OF g] by (auto simp: root_grows_def by_id_def)
    with g grows_root[OF g] grows_named[OF g] show ?thesis by (auto simp: root_grows_def)
  qed
  ultimately show ?case using step len by (auto simp: all_set_conv_all_nth)
qed

lemma update_shows:
  assumes "all_listed t" "updateStatusChanges u t = Inr t'"
  shows "named_shown u t' \<and> grows t t'"
  using assms
proof (induction u arbitrary: t t')
  case (UNode u us)
  obtain a ns where t: "t = SNode a ns" by (cases t)
  obtain ns' where f: "fold_result (\<lambda>ns m. if \<exists>n \<in> set ns. by_id (u_id (uattr m)) n
      then map_result (update_child m) ns else Inl TypeError) ns us = Inr ns'" and t': "t' = SNode a ns'"
    using UNode.prems(2) unfolding t updateStatusChanges.simps update_child_def[symmetric]
    by (auto simp: and_then_Inr_iff)
  have ok: "\<forall>n \<in> set ns. listed (sattr n) \<and> all_listed n" using UNode.prems(1) t by simp
  have "list_all2 grows ns ns' \<and> (\<forall>m \<in> set us. \<forall>n \<in> set ns'.
     by_id (u_id (uattr m)) n \<and> s_g (sattr n) \<noteq> None \<longrightarrow> status_shown (sattr n) \<and> named_shown m n)"
    by (rule fold_updates[OF f ok]) (use UNode.IH in blast)
  then show ?case by (simp add: t t' root_grows_def)
qed

text \<open>
  C11. After the view has handled an update, every drawn node that the update names, at every level,
  carries exactly one of the status classes, the one of its status; nodes that showed their status
  before still do, whatever the update names.
\<close>

theorem updateStatusChanges_shows:
  assumes "all_listed t" "updateStatusChanges u t = Inr t'"
  shows "named_shown u t' \<and> grows t t'"
  using update_shows[OF assms] .

definition demo_update :: unode where
  "demo_update = UNode \<lparr>u_id = [], u_status = ''RUNNING'', u_startTime = None, u_endTime = None, u_updateTime = None\<rparr>
     [UNode \<lparr>u_id = ''a'', u_status = ''RUNNING'', u_startTime = None, u_endTime = None, u_updateTime = None\<rparr> []]"

theorem updateStatusChanges_shows_witness:
  "\<exists>t'. updateStatusChanges demo_update (SNode (demo_sattr [] 0) [drawn ''a'' True, drawn ''b'' False]) = Inr t' \<and>
     named_shown demo_update t'"
proof -
  have c: "class_words (Some ''node jobnode'') = [''node'', ''jobnode'']" by code_simp
  have "''READY'' \<in> set statusList" by (simp add: statusList_def)
  with c have "all_listed (SNode (demo_sattr [] 0) [drawn ''a'' True, drawn ''b'' False])"
    by (simp add: drawn_def listed_def good_g_def svg_good_def blank_gel_def demo_sattr_def)
  moreover have "\<exists>t'. updateStatusChanges demo_update (SNode (demo_sattr [] 0) [drawn ''a'' True, drawn ''b'' False]) = Inr t'"
    by (simp add: demo_update_def updateStatusChanges.simps drawn_def demo_sattr_def by_id_def)
  ultimately show ?thesis using updateStatusChanges_shows by blast
qed

end
