(* ===== verification/JobList.thy ===== *)
theory JobList
  imports Page JsSort
begin

text \<open>
  \<open>view/job-list.js\<close>: the list of the jobs of a flow beside the graph. The list items are kept in
  \<open>listNodes\<close> under the names of their nodes, an embedded flow's name and a colon in front of the names
  of its nodes.
\<close>

text \<open>The label of an item is its name, or the name with the part that matches the filter marked.\<close>

datatype label = Plain string | Marked string string string

record li =
  li_id :: string
  li_type :: string
  li_status :: string
  li_label :: label
  li_subFilter :: bool
  li_shown :: bool
  li_active :: bool
  li_class :: "string list"
  li_title :: string
  li_arrow :: "string list"
  li_submenu :: bool

datatype jtree = JTree string string jsnum jsnum string "jtree list"

fun jt_id :: "jtree \<Rightarrow> string" where "jt_id (JTree k ty x y st ns) = k"
fun jt_x :: "jtree \<Rightarrow> jsnum" where "jt_x (JTree k ty x y st ns) = x"
fun jt_y :: "jtree \<Rightarrow> jsnum" where "jt_y (JTree k ty x y st ns) = y"

subsection \<open>Drawing the list\<close>

definition place_cmp :: "jtree \<Rightarrow> jtree \<Rightarrow> jsnum" where
  "place_cmp a b = (let diff = jt_y a - jt_y b in if diff = Fin 0 then jt_x a - jt_x b else diff)"

definition new_li :: "string \<Rightarrow> string \<Rightarrow> string \<Rightarrow> li" where
  "new_li k ty st = \<lparr>li_id = k, li_type = ty, li_status = st, li_label = Plain k, li_subFilter = False, li_shown = True,
     li_active = False, li_class = [], li_title = [],
     li_arrow = (if ty = ''flow'' then [''expandarrow'', ''glyphicon'', ''glyphicon-chevron-down''] else []),
     li_submenu = False\<rparr>"

text \<open>
  \<open>renderTree\<close> draws the nodes of a flow by their height and then their distance from the left; the
  keys of the items are entered in this order, those of an embedded flow after its own.
\<close>

function (sequential) renderTree :: "jtree list \<Rightarrow> string \<Rightarrow> li jsobj \<Rightarrow> li jsobj" where
  "renderTree ns prefix listNodes =
     foldl (\<lambda>m n. case n of JTree k ty x y st sub \<Rightarrow>
       (let name = prefix @ k; m = obj_set name (new_li k ty st) m
        in if ty = ''flow'' then renderTree sub (name @ '':'') m else m)) listNodes (js_sort place_cmp ns)"
  by pat_completeness auto
termination
proof (relation "measure (\<lambda>(ns, _). size_list size ns)", simp)
  fix ns prefix and m :: "li jsobj" and n k ty x y st and sub :: "jtree list" and name l l'
  assume "n \<in> set (js_sort place_cmp ns)" "n = JTree k ty x y st sub"
  then have "JTree k ty x y st sub \<in> set ns" by simp
  moreover have "size_list size sub < size (JTree k ty x y st sub)" by simp
  ultimately have "size_list size sub < size_list size ns" by (rule size_list_estimation)
  then show "((sub, name @ '':'', l), (ns, prefix, l')) \<in> measure (\<lambda>(ns, _). size_list size ns)" by simp
qed

declare renderTree.simps [simp del]

subsection \<open>Filtering\<close>

definition show_plain :: "bool \<Rightarrow> li \<Rightarrow> li" where
  "show_plain b l = l\<lparr>li_label := Plain (li_id l), li_subFilter := False, li_shown := b\<rparr>"

definition hideAll :: "li jsobj \<Rightarrow> li jsobj" where
  "hideAll m = map (\<lambda>(k, l). (k, show_plain False l)) m"

definition unfilterAll :: "li jsobj \<Rightarrow> li jsobj" where
  "unfilterAll m = map (\<lambda>(k, l). (k, show_plain True l)) m"

text \<open>The names of the enclosing flows: what is in front of each colon but one at the very start.\<close>

definition parent_keys :: "string \<Rightarrow> string list" where
  "parent_keys key = map (\<lambda>i. take i key) (rev (filter (\<lambda>i. key ! i = CHR '':'') [1..<length key]))"

definition upd_li :: "string \<Rightarrow> (li \<Rightarrow> li) \<Rightarrow> li jsobj \<Rightarrow> li jsobj" where
  "upd_li k f m = (case obj_get m k of None \<Rightarrow> m | Some l \<Rightarrow> obj_set k (f l) m)"

definition filter_step :: "string \<Rightarrow> li jsobj \<Rightarrow> string \<Rightarrow> li jsobj" where
  "filter_step flt m key =
     (case obj_get m key of
        None \<Rightarrow> m
      | Some l \<Rightarrow>
          (case indexOf (li_id l) flt of
             None \<Rightarrow> m
           | Some i \<Rightarrow>
               (let name = li_id l; e = i + length flt;
                    m = upd_li key (\<lambda>l. l\<lparr>li_label := Marked (substring name 0 i) (substring name i e)
                                            (substring name e (length name))\<rparr>) m;
                    m = foldl (\<lambda>m p. upd_li p (\<lambda>l. l\<lparr>li_shown := True, li_subFilter := True\<rparr>) m) m (parent_keys key)
                in upd_li key (\<lambda>l. l\<lparr>li_shown := True\<rparr>) m)))"

definition filterJobs :: "string \<Rightarrow> li jsobj \<Rightarrow> li jsobj" where
  "filterJobs flt m =
     (if flt = [] \<or> trim flt = [] then unfilterAll m
      else foldl (filter_step flt) (hideAll m) (obj_keys m))"

subsection \<open>Statuses\<close>

text \<open>The class of the link in an item, its title, and the recursion into embedded flows.\<close>

definition paint_li :: "string \<Rightarrow> li \<Rightarrow> li" where
  "paint_li st l =
     (if st \<in> set (li_class l) then l
      else l\<lparr>li_class := filter (\<lambda>c. c \<notin> set statusList) (li_class l) @ [st], li_title := st @ '' ('' @ li_type l @ '')''\<rparr>)"

fun changeStatuses :: "string \<Rightarrow> jtree list \<Rightarrow> li jsobj \<Rightarrow> li jsobj" where
  "changeStatuses prefix [] m = m"
| "changeStatuses prefix (JTree k ty x y st sub # ns) m =
     changeStatuses prefix ns
       (changeStatuses (prefix @ k @ '':'') sub (upd_li (prefix @ k) (paint_li st) m))"

text \<open>
  The loop of \<open>changeDisabled\<close> compares its counter with the array of the nodes itself, not with its
  length. As a number an empty array is 0 and an array that holds an object is NaN, so the body
  never runs.
\<close>

definition array_number :: "'a list \<Rightarrow> jsnum" where
  "array_number ns = (if ns = [] then Fin 0 else NaN)"

definition list_changeDisabled :: "(li jsobj \<Rightarrow> li jsobj) \<Rightarrow> jtree list \<Rightarrow> li jsobj \<Rightarrow> li jsobj" where
  "list_changeDisabled body ns m = (if Fin 0 < array_number ns then body m else m)"

definition list_render :: "(li jsobj \<Rightarrow> li jsobj) \<Rightarrow> jtree list \<Rightarrow> li jsobj \<Rightarrow> li jsobj" where
  "list_render body ns m = changeStatuses [] ns (list_changeDisabled body ns (renderTree ns [] m))"

subsection \<open>Menus, selection and buttons\<close>

definition handleMenuExpand :: "string \<Rightarrow> li jsobj \<Rightarrow> li jsobj" where
  "handleMenuExpand key = upd_li key (\<lambda>l. l\<lparr>li_submenu := True,
     li_arrow := (if li_arrow l = [] then [] else filter (\<lambda>c. c \<noteq> ''glyphicon-chevron-down'') (li_arrow l) @ [''glyphicon-chevron-up''])\<rparr>)"

definition handleMenuCollapse :: "string \<Rightarrow> li jsobj \<Rightarrow> li jsobj" where
  "handleMenuCollapse key = upd_li key (\<lambda>l. l\<lparr>li_submenu := False,
     li_arrow := (if li_arrow l = [] then [] else filter (\<lambda>c. c \<noteq> ''glyphicon-chevron-up'') (li_arrow l) @ [''glyphicon-chevron-down''])\<rparr>)"

definition handleToggleMenuExpand :: "string \<Rightarrow> li jsobj \<Rightarrow> li jsobj" where
  "handleToggleMenuExpand key m =
     (case obj_get m key of
        None \<Rightarrow> m
      | Some l \<Rightarrow> if li_submenu l then handleMenuCollapse key m else handleMenuExpand key m)"

text \<open>The items around an item, outermost first, are opened.\<close>

definition list_propagateExpansion :: "string \<Rightarrow> li jsobj \<Rightarrow> li jsobj" where
  "list_propagateExpansion key m = foldl (\<lambda>m p. handleMenuExpand p m) m (rev (parent_keys key))"

definition handleJobClick :: "string \<Rightarrow> string option \<Rightarrow> string option" where
  "handleJobClick key selected = (if selected = Some key then None else Some key)"

definition handleSelectionChange :: "string option \<Rightarrow> string option \<Rightarrow> li jsobj \<Rightarrow> li jsobj" where
  "handleSelectionChange previous current m =
     (if previous = current then m
      else
        (let m = (case previous of None \<Rightarrow> m | Some p \<Rightarrow> upd_li p (\<lambda>l. l\<lparr>li_active := False\<rparr>) m)
         in case current of
              None \<Rightarrow> m
            | Some c \<Rightarrow> list_propagateExpansion c (upd_li c (\<lambda>l. l\<lparr>li_active := True\<rparr>) m)))"

definition handleAutoPanZoom :: "string list \<Rightarrow> string list \<times> bool" where
  "handleAutoPanZoom cs =
     (let cs = (if ''btn-default'' \<in> set cs then filter (\<lambda>c. c \<noteq> ''btn-default'') cs @ [''btn-info'']
                else if ''btn-info'' \<in> set cs then filter (\<lambda>c. c \<noteq> ''btn-info'') cs @ [''btn-default''] else cs)
      in (cs, ''btn-info'' \<in> set cs))"

definition handleResetPanZoom :: "effect list" where
  "handleResetPanZoom = [Trigger ''resetPanZoom'']"

definition list_initialize :: "page \<Rightarrow> page" where
  "list_initialize = hide_el ''#joblist-panel''"

definition handleClose :: "page \<Rightarrow> page" where
  "handleClose = hide_el ''#joblist-panel''"

definition handleOpen :: "page \<Rightarrow> page" where
  "handleOpen = show_el ''#joblist-panel''"

subsection \<open>What the filter shows\<close>

text \<open>The name and the visibility of the item under a key, and what it means to show more items.\<close>

definition vis :: "li jsobj \<Rightarrow> string \<Rightarrow> (string \<times> bool) option" where
  "vis m k = map_option (\<lambda>l. (li_id l, li_shown l)) (obj_get m k)"

definition reveal :: "string set \<Rightarrow> (string \<Rightarrow> (string \<times> bool) option) \<Rightarrow> string \<Rightarrow> (string \<times> bool) option" where
  "reveal S v k = map_option (\<lambda>(i, s). (i, s \<or> k \<in> S)) (v k)"

definition hit :: "string \<Rightarrow> (string \<Rightarrow> (string \<times> bool) option) \<Rightarrow> string \<Rightarrow> bool" where
  "hit flt v k \<longleftrightarrow> (case v k of None \<Rightarrow> False | Some (i, s) \<Rightarrow> indexOf i flt \<noteq> None)"

lemma reveal_empty [simp]: "reveal {} v = v"
  by (auto simp: reveal_def fun_eq_iff option.map_id)

lemma reveal_reveal [simp]: "reveal S (reveal T v) = reveal (T \<union> S) v"
  by (auto simp: reveal_def fun_eq_iff option.map_comp comp_def split_def)

lemma hit_reveal [simp]: "hit flt (reveal S v) = hit flt v"
  by (auto simp: hit_def reveal_def fun_eq_iff split: option.splits)

lemma upd_li_get: "obj_get (upd_li k f m) k' = (if k' = k then map_option f (obj_get m k) else obj_get m k')"
  by (simp add: upd_li_def split: option.split)

lemma vis_label: "vis (upd_li k (\<lambda>l. l\<lparr>li_label := f l\<rparr>) m) = vis m"
  by (auto simp: vis_def fun_eq_iff upd_li_get option.map_comp comp_def)

lemma vis_show:
  "vis (upd_li k (\<lambda>l. l\<lparr>li_shown := True\<rparr>) m) = reveal {k} (vis m)"
  "vis (upd_li k (\<lambda>l. l\<lparr>li_shown := True, li_subFilter := True\<rparr>) m) = reveal {k} (vis m)"
  by (auto simp: vis_def reveal_def fun_eq_iff upd_li_get option.map_comp comp_def)

lemma vis_show_parents:
  "vis (foldl (\<lambda>m p. upd_li p (\<lambda>l. l\<lparr>li_shown := True, li_subFilter := True\<rparr>) m) m ps) = reveal (set ps) (vis m)"
  by (induction ps arbitrary: m) (simp_all add: vis_show)

definition revealed :: "string \<Rightarrow> (string \<Rightarrow> (string \<times> bool) option) \<Rightarrow> string \<Rightarrow> string set" where
  "revealed flt v key = (if hit flt v key then insert key (set (parent_keys key)) else {})"

lemma vis_filter_step: "vis (filter_step flt m key) = reveal (revealed flt (vis m) key) (vis m)"
proof (cases "obj_get m key")
  case None
  then show ?thesis by (simp add: filter_step_def revealed_def hit_def vis_def)
next
  case (Some l)
  then have h: "hit flt (vis m) key \<longleftrightarrow> indexOf (li_id l) flt \<noteq> None" by (simp add: hit_def vis_def)
  show ?thesis
  proof (cases "indexOf (li_id l) flt")
    case None
    then show ?thesis using Some h by (simp add: filter_step_def revealed_def)
  next
    case (Some i)
    then show ?thesis using \<open>obj_get m key = Some l\<close> h
      by (simp add: filter_step_def Let_def vis_show vis_show_parents vis_label revealed_def)
  qed
qed

lemma vis_filter_steps:
  "vis (foldl (filter_step flt) m ks) = reveal (\<Union>k \<in> set ks. revealed flt (vis m) k) (vis m)"
  by (induction ks rule: rev_induct) (simp_all add: vis_filter_step revealed_def Un_commute)

lemma map_get: "obj_get (map (\<lambda>(k, l). (k, f l)) m) k = map_option f (obj_get m k)"
  by (induction m) (auto simp: obj_get_def)

text \<open>
  C22. With a filter the list shows exactly the jobs whose name contains it and the embedded flows
  around such jobs; a filter of white space alone shows everything.
\<close>

theorem filterJobs_shows:
  assumes "obj_get m k = Some l"
  shows "\<exists>l'. obj_get (filterJobs flt m) k = Some l' \<and> li_id l' = li_id l \<and>
    (li_shown l' \<longleftrightarrow> trim flt = [] \<or> indexOf (li_id l) flt \<noteq> None \<or>
       (\<exists>j lj. obj_get m j = Some lj \<and> k \<in> set (parent_keys j) \<and> indexOf (li_id lj) flt \<noteq> None))"
proof (cases "flt = [] \<or> trim flt = []")
  case True
  then have "trim flt = []" by (auto simp: trim_def)
  with True show ?thesis using assms by (simp add: filterJobs_def unfilterAll_def map_get show_plain_def)
next
  case False
  have v: "vis (hideAll m) j = map_option (\<lambda>l. (li_id l, False)) (obj_get m j)" for j
    by (simp add: vis_def hideAll_def map_get option.map_comp comp_def show_plain_def)
  have hit: "hit flt (vis (hideAll m)) j \<longleftrightarrow> (\<exists>lj. obj_get m j = Some lj \<and> indexOf (li_id lj) flt \<noteq> None)" for j
    by (simp add: hit_def v split: option.split)
  have keys: "set (obj_keys m) = {j. obj_get m j \<noteq> None}" by (simp add: obj_get_None_iff)
  let ?S = "\<Union>j \<in> set (obj_keys m). revealed flt (vis (hideAll m)) j"
  have "vis (filterJobs flt m) k = Some (li_id l, k \<in> ?S)"
    using False assms by (simp add: filterJobs_def vis_filter_steps reveal_def v)
  moreover have "k \<in> ?S \<longleftrightarrow> (\<exists>j lj. obj_get m j = Some lj \<and> indexOf (li_id lj) flt \<noteq> None \<and> (k = j \<or> k \<in> set (parent_keys j)))"
    unfolding keys revealed_def hit UN_iff mem_Collect_eq by (auto split: if_split_asm)
  moreover have "(\<exists>j lj. obj_get m j = Some lj \<and> indexOf (li_id lj) flt \<noteq> None \<and> (k = j \<or> k \<in> set (parent_keys j))) \<longleftrightarrow>
      indexOf (li_id l) flt \<noteq> None \<or>
      (\<exists>j lj. obj_get m j = Some lj \<and> k \<in> set (parent_keys j) \<and> indexOf (li_id lj) flt \<noteq> None)"
    (is "?L \<longleftrightarrow> ?R")
  proof
    assume ?R
    then show ?L using assms by blast
  next
    assume ?L
    then obtain j lj where j: "obj_get m j = Some lj" "indexOf (li_id lj) flt \<noteq> None" "k = j \<or> k \<in> set (parent_keys j)"
      by blast
    then show ?R using assms by (cases "k = j") auto
  qed
  ultimately have w: "vis (filterJobs flt m) k = Some (li_id l, indexOf (li_id l) flt \<noteq> None \<or>
      (\<exists>j lj. obj_get m j = Some lj \<and> k \<in> set (parent_keys j) \<and> indexOf (li_id lj) flt \<noteq> None))"
    by simp
  then obtain l' where "obj_get (filterJobs flt m) k = Some l'" by (auto simp: vis_def)
  with w False show ?thesis by (auto simp: vis_def)
qed

definition demo_list :: "li jsobj" where
  "demo_list = renderTree [JTree ''load'' ''flow'' (Fin 0) (Fin 40) ''READY'' [JTree ''parse'' ''command'' (Fin 0) (Fin 0) ''READY'' []],
     JTree ''extract'' ''command'' (Fin 0) (Fin 0) ''READY'' []] [] []"

lemma demo_list_value: "demo_list = [(''extract'', new_li ''extract'' ''command'' ''READY''),
   (''load'', new_li ''load'' ''flow'' ''READY''), (''load:parse'', new_li ''parse'' ''command'' ''READY'')]"
  by (simp add: demo_list_def renderTree.simps place_cmp_def Let_def)

theorem filterJobs_shows_witness:
  "(\<exists>l'. obj_get (filterJobs ''ars'' demo_list) ''load'' = Some l' \<and> li_shown l') \<and>
   (\<exists>l'. obj_get (filterJobs ''ars'' demo_list) ''extract'' = Some l' \<and> \<not> li_shown l')"
proof -
  have g: "obj_get demo_list ''load'' = Some (new_li ''load'' ''flow'' ''READY'')"
    "obj_get demo_list ''extract'' = Some (new_li ''extract'' ''command'' ''READY'')"
    "obj_get demo_list ''load:parse'' = Some (new_li ''parse'' ''command'' ''READY'')"
    by (simp_all add: demo_list_value obj_get_def)
  have p: "parent_keys ''load:parse'' = [''load'']" "parent_keys ''load'' = []" "parent_keys ''extract'' = []"
    and t: "trim ''ars'' \<noteq> []" "indexOf ''parse'' ''ars'' = Some 1" "indexOf ''extract'' ''ars'' = None"
    by code_simp+
  have "\<exists>j lj. obj_get demo_list j = Some lj \<and> ''load'' \<in> set (parent_keys j) \<and> indexOf (li_id lj) ''ars'' \<noteq> None"
    using g(3) p(1) t(2) by (intro exI[of _ "''load:parse''"] exI[of _ "new_li ''parse'' ''command'' ''READY''"]) (simp add: new_li_def)
  then have l: "\<exists>l'. obj_get (filterJobs ''ars'' demo_list) ''load'' = Some l' \<and> li_shown l'"
    using filterJobs_shows[OF g(1), of "''ars''"] by blast
  have "\<not> (\<exists>j lj. obj_get demo_list j = Some lj \<and> ''extract'' \<in> set (parent_keys j))"
  proof clarify
    fix j lj assume "obj_get demo_list j = Some lj" and e: "''extract'' \<in> set (parent_keys j)"
    then have "j \<in> {''extract'', ''load'', ''load:parse''}" by (auto simp: demo_list_value obj_get_def split: if_splits)
    with e p show False by auto
  qed
  moreover have "li_id (new_li ''extract'' ''command'' ''READY'') = ''extract''" by (simp add: new_li_def)
  ultimately have "\<exists>l'. obj_get (filterJobs ''ars'' demo_list) ''extract'' = Some l' \<and> \<not> li_shown l'"
    using filterJobs_shows[OF g(2), of "''ars''"] t by metis
  with l show ?thesis by blast
qed

text \<open>\<open>changeDisabled\<close> never does anything.\<close>

lemma list_changeDisabled_id: "list_changeDisabled body ns m = m"
  by (simp add: list_changeDisabled_def array_number_def)

end
