(* ===== verification/ExecutionList.thy ===== *)
theory ExecutionList
  imports ExecPage JsSort
begin

text \<open>
  \<open>view/flow-execution-list.js\<close>: the table of the jobs of an execution with their time bars. A node keeps
  its row once it has one; an embedded flow also has a table of its own with the rows of its nodes.
\<close>

record bar =
  bar_left :: jsnum
  bar_width :: jsnum
  bar_title :: string

record attempt =
  at_startTime :: int
  at_endTime :: int
  at_box :: "bar option"

record xrow =
  xr_padding :: int
  xr_type :: string
  xr_href :: string
  xr_log :: "string option"
  xr_statusText :: string
  xr_statusClass :: string
  xr_start :: string
  xr_end :: string
  xr_elapsed :: string
  xr_barClass :: "string list"
  xr_bar :: bar
  xr_outer :: "jsnum \<times> jsnum"
  xr_expanded :: bool
  xr_icon :: "string list"
  xr_subShown :: bool

record xattr =
  x_id :: string
  x_nestedId :: string
  x_kind :: string
  x_status :: string
  x_startTime :: int
  x_endTime :: int
  x_attempt :: "int option"
  x_pastAttempts :: "attempt list option"
  x_row :: "xrow option"
  x_body :: "string list"

datatype xnode = XNode (xattr: xattr) (xnodes: "xnode list")

subsection \<open>Rows\<close>

definition no_bar :: bar where
  "no_bar = \<lparr>bar_left = NaN, bar_width = NaN, bar_title = []\<rparr>"

definition log_url :: "env \<Rightarrow> string \<Rightarrow> string" where
  "log_url g nested = contextURL g @ ''/executor?execid='' @ execId g @ ''&job='' @ nested"

definition addNodeRow :: "env \<Rightarrow> int \<Rightarrow> xattr \<Rightarrow> xrow" where
  "addNodeRow g level a =
     \<lparr>xr_padding = 15 * level, xr_type = x_kind a,
      xr_href = contextURL g @ ''/manager?project='' @ projectName g @ ''&job='' @ x_id a @ ''&history'',
      xr_log = (if x_kind a \<noteq> ''flow'' \<and> x_status a \<noteq> ''SKIPPED''
                then Some (log_url g (x_nestedId a) @
                  (case x_attempt a of None \<Rightarrow> [] | Some n \<Rightarrow> if n = 0 then [] else ''&attempt='' @ show_int n))
                else None),
      xr_statusText = [], xr_statusClass = ''status'', xr_start = [], xr_end = [], xr_elapsed = [],
      xr_barClass = [''flow-progress-bar'', ''main-progress''], xr_bar = no_bar, xr_outer = (NaN, NaN),
      xr_expanded = False,
      xr_icon = (if x_kind a = ''flow'' then [''listExpand'', ''expandarrow'', ''glyphicon'', ''glyphicon-chevron-down''] else []),
      xr_subShown = False\<rparr>"

definition paint_bar :: "string \<Rightarrow> string list \<Rightarrow> string list" where
  "paint_bar st cs = (if st \<in> set cs then cs else filter (\<lambda>c. c \<notin> set statusList) cs @ [st])"

definition fill_row :: "calendar \<Rightarrow> int \<Rightarrow> xattr \<Rightarrow> xrow \<Rightarrow> xrow" where
  "fill_row c now a r = r
     \<lparr>xr_statusText := text_of (obj_get statusStringMap (x_status a)),
      xr_statusClass := ''status '' @ x_status a,
      xr_start := getDateFormat c (x_startTime a),
      xr_end := (if x_endTime a = -1 then ''-'' else getDateFormat c (x_endTime a)),
      xr_barClass := paint_bar (x_status a) (xr_barClass r),
      xr_elapsed := getDuration (Some (x_startTime a)) (Some (if x_endTime a = -1 then now else x_endTime a))\<rparr>"

text \<open>A past attempt gets its box the first time.\<close>

definition add_box :: "attempt \<Rightarrow> attempt" where
  "add_box t = (if at_box t = None then t\<lparr>at_box := Some no_bar\<rparr> else t)"

definition show_node :: "env \<Rightarrow> calendar \<Rightarrow> int \<Rightarrow> int \<Rightarrow> xattr \<Rightarrow> xattr" where
  "show_node g c now level a =
     a\<lparr>x_row := Some (fill_row c now a (case x_row a of None \<Rightarrow> addNodeRow g level a | Some r \<Rightarrow> r)),
       x_pastAttempts := map_option (map add_box) (x_pastAttempts a)\<rparr>"

definition by_start :: "xnode \<Rightarrow> xnode \<Rightarrow> jsnum" where
  "by_start a b = Fin (of_int (x_startTime (xattr a) - x_startTime (xattr b)))"

text \<open>
  \<open>updateJobRow\<close> sorts the nodes by their start and brings the rows of those that have started up to
  date; a new row is appended to the table. The nodes of an embedded flow follow, one level deeper.
\<close>

definition new_rows :: "xnode list \<Rightarrow> string list" where
  "new_rows ns = map (\<lambda>n. x_id (xattr n)) (filter (\<lambda>n. 0 \<le> x_startTime (xattr n) \<and> x_row (xattr n) = None) ns)"

function (sequential) updateJobRow :: "env \<Rightarrow> calendar \<Rightarrow> int \<Rightarrow> int \<Rightarrow> xnode \<Rightarrow> xnode" where
  "updateJobRow g c now level (XNode a ns) =
     (let ns' = js_sort by_start ns in
      XNode (a\<lparr>x_body := x_body a @ new_rows ns'\<rparr>)
        (map (\<lambda>n. if x_startTime (xattr n) < 0 then n
                  else updateJobRow g c now (level + 1) (XNode (show_node g c now level (xattr n)) (xnodes n))) ns'))"
  by pat_completeness auto
termination
proof (relation "measure (\<lambda>(g, c, now, level, t). size t)", simp)
  fix g :: env and c :: calendar and now level a ns ns' n
  assume "ns' = js_sort by_start ns" "n \<in> set ns'"
  then have "n \<in> set ns" by simp
  moreover have "size (XNode a' (xnodes n)) = size n" for a' by (cases n) simp
  ultimately show "((g, c, now, level + 1, XNode (show_node g c now level (xattr n)) (xnodes n)), (g, c, now, level, XNode a ns))
      \<in> measure (\<lambda>(g, c, now, level, t). size t)"
    by (simp add: less_Suc_eq_le) (metis \<open>n \<in> set ns\<close> size_list_estimation' order_refl)
qed

declare updateJobRow.simps [simp del]

subsection \<open>Time bars\<close>

text \<open>The width of a line, read from the page: a text such as \<open>480px\<close>, or undefined.\<close>

definition outer_width :: "string option \<Rightarrow> jsnum" where
  "outer_width css =
     (case css of
        None \<Rightarrow> NaN
      | Some w \<Rightarrow>
          if w = [] then NaN
          else parseInt (if substring w (length w - 2) (length w) = ''px'' then substring w 0 (length w - 2) else w))"

definition ms :: "int \<Rightarrow> jsnum" where
  "ms t = Fin (of_int t)"

text \<open>The boxes of the past attempts, from left to right; the offset is where the last one ends.\<close>

definition place_attempt :: "calendar \<Rightarrow> jsnum \<Rightarrow> int \<Rightarrow> attempt list \<times> jsnum \<Rightarrow> attempt \<Rightarrow> attempt list \<times> jsnum" where
  "place_attempt c factor flowStart so t = (case so of (done_, offsetLeft) \<Rightarrow>
     (let left = ms (at_startTime t - flowStart) * factor;
          width = js_max (ms (at_endTime t - at_startTime t) * factor) (Fin 3);
          margin = left - offsetLeft;
          title = ''attempt:'' @ show_nat (length done_) @ ''  start:'' @ getHourMinSec c (at_startTime t) @ ''  end:'' @
                    getHourMinSec c (at_endTime t)
      in (done_ @ [t\<lparr>at_box := map_option (\<lambda>_. \<lparr>bar_left = margin, bar_width = width, bar_title = title\<rparr>) (at_box t)\<rparr>],
          offsetLeft + (width + margin))))"

text \<open>
  The bar of the job itself. A margin beside the attempts is computed and not used: the bar gets
  \<open>left\<close>, the distance from the start of the line.
\<close>

definition main_bar :: "calendar \<Rightarrow> int \<Rightarrow> jsnum \<Rightarrow> jsnum \<Rightarrow> int \<Rightarrow> nat \<Rightarrow> xattr \<Rightarrow> bar" where
  "main_bar c now factor outerWidth parentStart att a =
     (let nodeLastTime = (if x_endTime a = -1 then now else x_endTime a);
          left = js_max (ms (x_startTime a - parentStart) * factor) (Fin 0);
          width = js_min (js_max (ms (nodeLastTime - x_startTime a) * factor) (Fin 3)) outerWidth
      in \<lparr>bar_left = left, bar_width = width,
          bar_title = ''attempt:'' @ show_nat att @ ''  start:'' @ getHourMinSec c (x_startTime a) @ ''  end:'' @
            getHourMinSec c (x_endTime a)\<rparr>)"

definition place_bars ::
  "env \<Rightarrow> calendar \<Rightarrow> int \<Rightarrow> jsnum \<Rightarrow> jsnum \<Rightarrow> int \<Rightarrow> int \<Rightarrow> jsnum \<times> jsnum \<Rightarrow> xattr \<Rightarrow> xattr" where
  "place_bars g c now factor outerWidth flowStart parentStart outer a =
     (let past = x_pastAttempts a;
          n = (case past of None \<Rightarrow> 0 | Some ts \<Rightarrow> length ts);
          has_link = (case x_row a of None \<Rightarrow> False | Some r \<Rightarrow> xr_log r \<noteq> None);
          att = (if past \<noteq> None \<and> has_link then n else 0);
          past' = map_option (\<lambda>ts. fst (foldl (place_attempt c factor flowStart) ([], Fin 0) ts)) past
      in a\<lparr>x_pastAttempts := past',
           x_row := map_option (\<lambda>r. r
             \<lparr>xr_outer := outer,
              xr_log := (if past \<noteq> None \<and> has_link then Some (log_url g (x_nestedId a) @ ''&attempt='' @ show_nat n) else xr_log r),
              xr_bar := main_bar c now factor outerWidth parentStart att a\<rparr>) (x_row a)\<rparr>)"

fun updateProgressBar ::
  "env \<Rightarrow> calendar \<Rightarrow> int \<Rightarrow> jsnum \<Rightarrow> int \<Rightarrow> int \<Rightarrow> xnode \<Rightarrow> xnode" where
  "updateProgressBar g c now outerWidth flowStart flowLast (XNode a ns) =
     (if x_startTime a = -1 then XNode a ns
      else
        (let parentLast = (if x_endTime a = -1 then now else x_endTime a);
             parentStart = x_startTime a;
             factor = outerWidth / ms (flowLast - flowStart);
             outer = (factor * ms (parentLast - parentStart), factor * ms (parentStart - flowStart))
         in XNode a (map (\<lambda>n.
              (case updateProgressBar g c now outerWidth flowStart flowLast n of
                 XNode b ms' \<Rightarrow> XNode (place_bars g c now factor outerWidth flowStart parentStart outer b) ms')) ns)))"

subsection \<open>The handlers\<close>

definition last_time :: "int \<Rightarrow> xattr \<Rightarrow> int" where
  "last_time now a = (if x_endTime a = -1 then now else x_endTime a)"

definition renderJobs :: "env \<Rightarrow> calendar \<Rightarrow> int \<Rightarrow> string option \<Rightarrow> xnode \<Rightarrow> xnode" where
  "renderJobs g c now css t =
     (let t = updateJobRow g c now 0 t
      in updateProgressBar g c now (outer_width css) (x_startTime (xattr t)) (last_time now (xattr t)) t)"

text \<open>
  After an update only the nodes it names get their rows updated, in the order of their start; each
  stands for the node of the data it refers to.
\<close>

definition update_named :: "env \<Rightarrow> calendar \<Rightarrow> int \<Rightarrow> xnode \<Rightarrow> string \<Rightarrow> xnode" where
  "update_named g c now t k =
     XNode ((xattr t)\<lparr>x_body := x_body (xattr t) @ new_rows (filter (\<lambda>n. x_id (xattr n) = k) (xnodes t))\<rparr>)
       (map (\<lambda>n. if x_id (xattr n) = k \<and> 0 \<le> x_startTime (xattr n)
                 then updateJobRow g c now 1 (XNode (show_node g c now 0 (xattr n)) (xnodes n)) else n) (xnodes t))"

definition updateJobs :: "env \<Rightarrow> calendar \<Rightarrow> int \<Rightarrow> string option \<Rightarrow> (string \<times> int) list \<Rightarrow> xnode \<Rightarrow> xnode" where
  "updateJobs g c now css upd t =
     (let t = foldl (update_named g c now) t (map fst (js_sort (\<lambda>a b. Fin (of_int (snd a - snd b))) upd))
      in updateProgressBar g c now (outer_width css) (x_startTime (xattr t)) (last_time now (xattr t)) t)"

definition toggleExpandFlow :: "xrow \<Rightarrow> xrow" where
  "toggleExpandFlow r =
     (if xr_expanded r
      then r\<lparr>xr_expanded := False, xr_subShown := False,
             xr_icon := filter (\<lambda>s. s \<noteq> ''glyphicon-chevron-up'') (xr_icon r) @ [''glyphicon-chevron-down'']\<rparr>
      else r\<lparr>xr_expanded := True, xr_subShown := True,
             xr_icon := filter (\<lambda>s. s \<noteq> ''glyphicon-chevron-down'') (xr_icon r) @ [''glyphicon-chevron-up'']\<rparr>)"

definition attempt_url :: "env \<Rightarrow> string \<Rightarrow> nat \<Rightarrow> string" where
  "attempt_url g job att = contextURL g @ ''/executor?project='' @ projectName g @ ''&execid='' @ execId g @ ''&job='' @ job @
     ''&attempt='' @ show_nat att"

definition attemptRightClick :: "env \<Rightarrow> string \<Rightarrow> nat \<Rightarrow> menu_item list" where
  "attemptRightClick g job att =
     [Item ''Open Attempt Log...'' [Redirect (attempt_url g job att)] [],
      Item ''Open Attempt Log in New Window...'' [OpenWindow (attempt_url g job att)] []]"

subsection \<open>Where the bars are\<close>

text \<open>
  The bar of a job that runs within the time of its flow lies on the line: it starts at the place of
  its start, is as long as its duration, at least three pixels, and reaches beyond the end of the line
  by less than these three.
\<close>

theorem main_bar_on_line:
  assumes "w = Fin q" "3 \<le> q" "flowStart \<le> x_startTime a" "x_startTime a \<le> last_time now a" "last_time now a \<le> flowLast"
    "flowStart < flowLast"
  shows "\<exists>l k. bar_left (main_bar c now (w / ms (flowLast - flowStart)) w flowStart att a) = Fin l \<and>
    bar_width (main_bar c now (w / ms (flowLast - flowStart)) w flowStart att a) = Fin k \<and>
    0 \<le> l \<and> l = q * of_int (x_startTime a - flowStart) / of_int (flowLast - flowStart) \<and>
    k = max (q * of_int (last_time now a - x_startTime a) / of_int (flowLast - flowStart)) 3 \<and> k \<le> q \<and> l + k \<le> q + 3"
proof -
  define d :: rat where "d = of_int (flowLast - flowStart)"
  have d: "0 < d" using assms(6) by (simp add: d_def)
  define s :: rat where "s = of_int (x_startTime a - flowStart)"
  define u :: rat where "u = of_int (last_time now a - x_startTime a)"
  have su: "0 \<le> s" "0 \<le> u" "s + u \<le> d" using assms(3-5) by (simp_all add: s_def u_def d_def flip: of_int_add of_int_diff)
  have f: "w / ms (flowLast - flowStart) = Fin (q / d)" using assms(1) d by (simp add: ms_def d_def)
  have le: "q * s / d + q * u / d \<le> q" "0 \<le> q * s / d" "0 \<le> q * u / d"
    using su d assms(2) by (simp_all add: divide_le_eq mult_left_mono flip: add_divide_distrib distrib_left)
  have ms_s: "ms (x_startTime a - flowStart) = Fin s" and ms_u: "ms (last_time now a - x_startTime a) = Fin u"
    by (simp_all add: ms_def s_def u_def)
  let ?b = "main_bar c now (w / ms (flowLast - flowStart)) w flowStart att a"
  have l: "bar_left ?b = Fin (q * s / d)"
    using le(2) unfolding main_bar_def Let_def f ms_s by (simp add: max_absorb1 mult.commute)
  have "bar_width ?b = Fin (min (max (q * u / d) 3) q)"
    unfolding main_bar_def Let_def f[unfolded assms(1)] last_time_def[symmetric] ms_u assms(1) by (simp add: mult.commute)
  moreover have "min (max (q * u / d) 3) q = max (q * u / d) 3" using le assms(2) by simp
  ultimately have k: "bar_width ?b = Fin (max (q * u / d) 3)" by simp
  have "max (q * u / d) 3 \<le> q" "q * s / d + max (q * u / d) 3 \<le> q + 3" using le assms(2) by (auto simp: max_def)
  with l k le(2) show ?thesis
    unfolding s_def[symmetric] u_def[symmetric] d_def[symmetric] by blast
qed

definition demo_job :: xattr where
  "demo_job = \<lparr>x_id = ''load'', x_nestedId = ''load'', x_kind = ''command'', x_status = ''RUNNING'', x_startTime = 1500,
     x_endTime = -1, x_attempt = None, x_pastAttempts = None, x_row = None, x_body = []\<rparr>"

theorem main_bar_on_line_witness:
  "\<exists>l k. bar_left (main_bar (zone 0) 1800 (Fin 400 / ms 1000) (Fin 400) 1000 0 demo_job) = Fin l \<and>
     bar_width (main_bar (zone 0) 1800 (Fin 400 / ms 1000) (Fin 400) 1000 0 demo_job) = Fin k \<and> l = 200 \<and> k = 120"
proof -
  have l: "last_time 1800 demo_job = 1800" "x_startTime demo_job = 1500" by (simp_all add: last_time_def demo_job_def)
  show ?thesis
    using main_bar_on_line[of "Fin 400" 400 1000 demo_job 1800 2000 "zone 0" 0] l by simp
qed

text \<open>
  The attempts of a job fill the line from its start to the end of the last one, and the bar of the
  job is not moved to the left by them: its distance is counted from the end of the last box.
\<close>

lemma main_bar_ignores_attempts:
  "bar_left (main_bar c now f w s0 att (a\<lparr>x_pastAttempts := ts\<rparr>)) = bar_left (main_bar c now f w s0 att a)"
  by (simp add: main_bar_def Let_def)

subsection \<open>Which jobs have rows\<close>

lemma show_node_has_row: "x_row (show_node g c now level a) \<noteq> None"
  by (simp add: show_node_def)

lemma updateJobRow_root: "xattr (updateJobRow g c now level (XNode a ns)) = a\<lparr>x_body := x_body a @ new_rows (js_sort by_start ns)\<rparr>"
  by (simp add: updateJobRow.simps Let_def)

text \<open>After drawing, exactly the jobs that have started have a row, if none had one before.\<close>

lemma updateJobRow_rows:
  assumes "\<forall>n \<in> set ns. x_row (xattr n) = None"
  shows "\<forall>n \<in> set (xnodes (updateJobRow g c now level (XNode a ns))). x_row (xattr n) \<noteq> None \<longleftrightarrow> 0 \<le> x_startTime (xattr n)"
  using assms
  by (auto simp: updateJobRow.simps Let_def updateJobRow_root show_node_def split: if_splits)

end
