(* ===== verification/LivePage.thy ===== *)
theory LivePage
  imports Polling SvgViewProps JobList ExecutionList
begin

text \<open>
  The page of a running flow as a whole: an answer of the server goes into the data of the flow, and the
  views that listen to the model bring the buttons, the boxes of the graph, the list of jobs, the status
  panel and the table of jobs up to date, in the order in which the page has made them.
\<close>

subsection \<open>Shared nodes\<close>

text \<open>
  All views refer to the same node objects. Each theory of a view has its own part of a node, so the status
  and the times that \<open>updateGraph\<close> writes into a node are carried over to the part of each view, node by
  node.
\<close>

definition partner :: "enode list \<Rightarrow> string \<Rightarrow> enode option" where
  "partner ds k = find (\<lambda>d. e_id (eattr d) = k) ds"

fun svg_share :: "enode \<Rightarrow> snode \<Rightarrow> snode" where
  "svg_share d (SNode a ns) = SNode (a\<lparr>s_status := e_status (eattr d)\<rparr>)
     (map (\<lambda>n. case partner (enodes d) (s_id (sattr n)) of None \<Rightarrow> n | Some e \<Rightarrow> svg_share e n) ns)"

fun list_share :: "enode \<Rightarrow> jtree \<Rightarrow> jtree" where
  "list_share d (JTree k ty x y st ns) = JTree k ty x y (e_status (eattr d))
     (map (\<lambda>n. case partner (enodes d) (jt_id n) of None \<Rightarrow> n | Some e \<Rightarrow> list_share e n) ns)"

definition row_attr :: "eattr \<Rightarrow> xattr \<Rightarrow> xattr" where
  "row_attr e a = a\<lparr>x_status := e_status e,
     x_startTime := (case e_startTime e of None \<Rightarrow> x_startTime a | Some t \<Rightarrow> t),
     x_endTime := (case e_endTime e of None \<Rightarrow> x_endTime a | Some t \<Rightarrow> t)\<rparr>"

fun row_share :: "enode \<Rightarrow> xnode \<Rightarrow> xnode" where
  "row_share d (XNode a ns) = XNode (row_attr (eattr d) a)
     (map (\<lambda>n. case partner (enodes d) (x_id (xattr n)) of None \<Rightarrow> n | Some e \<Rightarrow> row_share e n) ns)"

fun jt_nodes :: "jtree \<Rightarrow> jtree list" where "jt_nodes (JTree k ty x y st ns) = ns"

declare svg_share.simps [simp del] list_share.simps [simp del] row_share.simps [simp del]

subsection \<open>The page\<close>

record live =
  lv_data :: enode
  lv_page :: page
  lv_svg :: snode
  lv_jobs :: jtree
  lv_list :: "li jsobj"
  lv_stats :: stats_view
  lv_rows :: xnode

definition share :: "enode \<Rightarrow> live \<Rightarrow> live" where
  "share d s = s\<lparr>lv_data := d, lv_svg := svg_share d (lv_svg s), lv_jobs := list_share d (lv_jobs s),
     lv_rows := row_share d (lv_rows s)\<rparr>"

text \<open>The handlers of \<open>change:update\<close>; one that throws keeps the later ones from running.\<close>

definition on_update :: "env \<Rightarrow> calendar \<Rightarrow> int \<Rightarrow> string option \<Rightarrow> unode \<Rightarrow> live \<Rightarrow> live result" where
  "on_update g c now css u s =
     (let data = eattr (lv_data s);
          p = handleFlowStatusChange (e_status data) (lv_page s)
      in and_then (updateStatusChanges u (lv_svg s)) (\<lambda>t.
         Inr (s\<lparr>lv_svg := t,
                lv_list := changeStatuses [] (jt_nodes (lv_jobs s)) (lv_list s),
                lv_page := statusUpdate c now data p,
                lv_stats := stats_statusUpdate data (lv_stats s),
                lv_rows := updateJobs g c now css
                  (map (\<lambda>m. (u_id (uattr m), case u_startTime (uattr m) of None \<Rightarrow> 0 | Some t \<Rightarrow> t)) (unodes u)) (lv_rows s)\<rparr>)))"

text \<open>
  The success handler of \<open>updateStatus\<close>. Putting the answer into the model causes the event once when the
  answer is not the same as the last one, as Backbone finds; \<open>trigger\<close> causes it again.
\<close>

definition live_answer :: "env \<Rightarrow> calendar \<Rightarrow> int \<Rightarrow> string option \<Rightarrow> bool \<Rightarrow> unode \<Rightarrow> live \<Rightarrow> live result" where
  "live_answer g c now css changed u s =
     and_then (updateStatus_answer u (lv_data s)) (\<lambda>(d, es).
       (if es = [] then Inr s
        else and_then (if changed then on_update g c now css u (share d s) else Inr (share d s)) (on_update g c now css u)))"

subsection \<open>Names\<close>

lemma partner_eq:
  "distinct (enode_ids ds) \<Longrightarrow> d \<in> set ds \<Longrightarrow> partner ds (e_id (eattr d)) = Some d"
  unfolding partner_def by (induction ds) (auto simp: enode_ids_def)

lemma partner_SomeD: "partner ds k = Some d \<Longrightarrow> d \<in> set ds \<and> e_id (eattr d) = k"
  unfolding partner_def by (auto simp: find_Some_iff)

lemma partner_None: "partner ds k = None \<longleftrightarrow> k \<notin> set (enode_ids ds)"
  unfolding partner_def by (auto simp: find_None_iff enode_ids_def)

subsection \<open>Boxes\<close>

definition box_shows :: "string \<Rightarrow> sattr \<Rightarrow> bool" where
  "box_shows st a \<longleftrightarrow> (\<forall>g. s_g a = Some g \<longrightarrow> set (class_words (g_class g)) \<inter> set statusList = {st})"

fun undrawn :: "snode \<Rightarrow> bool" where
  "undrawn (SNode a ns) \<longleftrightarrow> (\<forall>n \<in> set ns. s_g (sattr n) = None \<and> undrawn n)"

text \<open>
  The graph fits the data: the nodes have the same names at every level, and the boxes of an embedded flow
  are drawn only inside the box of the flow. It shows the data if each box has the colour of its node.
\<close>

definition svg_ids :: "snode list \<Rightarrow> string list" where
  "svg_ids ns = map (\<lambda>n. s_id (sattr n)) ns"

fun fits :: "enode \<Rightarrow> snode \<Rightarrow> bool" where
  "fits d (SNode a ns) \<longleftrightarrow> distinct (enode_ids (enodes d)) \<and> distinct (svg_ids ns) \<and>
     set (enode_ids (enodes d)) = set (svg_ids ns) \<and>
     (\<forall>n \<in> set ns. good_g (sattr n) \<and> (s_g (sattr n) = None \<longrightarrow> undrawn n) \<and>
        (\<forall>e \<in> set (enodes d). e_id (eattr e) = s_id (sattr n) \<longrightarrow> fits e n))"

fun boxes_show :: "enode \<Rightarrow> snode \<Rightarrow> bool" where
  "boxes_show d (SNode a ns) \<longleftrightarrow> (\<forall>n \<in> set ns. \<forall>e \<in> set (enodes d). e_id (eattr e) = s_id (sattr n) \<longrightarrow>
     box_shows (e_status (eattr e)) (sattr n) \<and> boxes_show e n)"

text \<open>The part of the view has taken over the statuses.\<close>

fun carries :: "enode \<Rightarrow> snode \<Rightarrow> bool" where
  "carries d (SNode a ns) \<longleftrightarrow> (\<forall>n \<in> set ns. \<forall>e \<in> set (enodes d). e_id (eattr e) = s_id (sattr n) \<longrightarrow>
     s_status (sattr n) = e_status (eattr e) \<and> carries e n)"

fun statuses_listed :: "enode \<Rightarrow> bool" where
  "statuses_listed (ENode a ns) \<longleftrightarrow> (\<forall>n \<in> set ns. e_status (eattr n) \<in> set statusList \<and> statuses_listed n)"

declare fits.simps [simp del] boxes_show.simps [simp del] carries.simps [simp del] statuses_listed.simps [simp del]

lemma fits_partner:
  assumes "fits d (SNode a ns)" "n \<in> set ns"
  obtains e where "e \<in> set (enodes d)" "e_id (eattr e) = s_id (sattr n)" "partner (enodes d) (s_id (sattr n)) = Some e" "fits e n"
proof -
  have d: "distinct (enode_ids (enodes d))" and "s_id (sattr n) \<in> set (enode_ids (enodes d))"
    using assms by (auto simp: fits.simps svg_ids_def)
  then obtain e where e: "e \<in> set (enodes d)" "e_id (eattr e) = s_id (sattr n)" by (auto simp: enode_ids_def)
  have "fits e n" using assms e unfolding fits.simps by blast
  then show ?thesis using that[OF e] partner_eq[OF d e(1)] e(2) by simp
qed

text \<open>Carrying the statuses over changes nothing else.\<close>

lemma svg_share_root: "s_id (sattr (svg_share d n)) = s_id (sattr n)" "s_g (sattr (svg_share d n)) = s_g (sattr n)"
  "s_status (sattr (svg_share d n)) = e_status (eattr d)"
  by (cases n; simp add: svg_share.simps)+

definition share_node :: "enode \<Rightarrow> snode \<Rightarrow> snode" where
  "share_node d n = (case partner (enodes d) (s_id (sattr n)) of None \<Rightarrow> n | Some e \<Rightarrow> svg_share e n)"

lemma svg_share_eq: "svg_share d (SNode a ns) = SNode (a\<lparr>s_status := e_status (eattr d)\<rparr>) (map (share_node d) ns)"
  by (simp add: svg_share.simps share_node_def)

lemma share_node_root: "s_id (sattr (share_node d n)) = s_id (sattr n)" "s_g (sattr (share_node d n)) = s_g (sattr n)"
  by (auto simp: share_node_def svg_share_root split: option.splits)

lemma undrawn_share: "undrawn (svg_share d n) = undrawn n"
proof (induction n arbitrary: d)
  case (SNode a ns)
  have "undrawn (share_node d n) = undrawn n" if "n \<in> set ns" for n
    using SNode[OF that] by (simp add: share_node_def split: option.splits)
  then show ?case by (simp add: svg_share_eq share_node_root)
qed

lemma good_share: "good_g (sattr (share_node d n)) = good_g (sattr n)"
  by (simp add: good_g_def share_node_root)

lemma fits_share: "fits c t \<Longrightarrow> fits c (svg_share d t)"
proof (induction t arbitrary: c d)
  case (SNode a ns)
  have "fits e (share_node d n)" if n: "n \<in> set ns" "e \<in> set (enodes c)" "e_id (eattr e) = s_id (sattr n)" for n e
  proof -
    have "fits e n" using SNode.prems n by (simp add: fits.simps)
    then show ?thesis using SNode.IH[OF n(1)] by (simp add: share_node_def split: option.splits)
  qed
  moreover have "undrawn (share_node d n) = undrawn n" for n by (simp add: share_node_def undrawn_share split: option.splits)
  ultimately show ?case using SNode.prems by (simp add: svg_share_eq fits.simps svg_ids_def share_node_root good_share comp_def)
qed

lemma carries_share: "fits d t \<Longrightarrow> carries d (svg_share d t)"
proof (induction t arbitrary: d)
  case (SNode a ns)
  have "s_status (sattr (share_node d n)) = e_status (eattr e) \<and> carries e (share_node d n)"
    if n: "n \<in> set ns" "e \<in> set (enodes d)" "e_id (eattr e) = s_id (sattr n)" for n e
  proof -
    have "partner (enodes d) (s_id (sattr n)) = Some e"
      using SNode.prems n(2,3) partner_eq[of "enodes d" e] by (simp add: fits.simps)
    moreover have "fits e n" using SNode.prems n by (simp add: fits.simps)
    ultimately show ?thesis using SNode.IH[OF n(1)] by (simp add: share_node_def svg_share_root)
  qed
  then show ?case by (simp add: svg_share_eq carries.simps share_node_root)
qed

lemma boxes_show_share: "boxes_show c t \<Longrightarrow> boxes_show c (svg_share d t)"
proof (induction t arbitrary: c d)
  case (SNode a ns)
  have "boxes_show e (share_node d n)" if "n \<in> set ns" "e \<in> set (enodes c)" "e_id (eattr e) = s_id (sattr n)" for n e
    using SNode that by (auto simp: share_node_def boxes_show.simps split: option.splits)
  with SNode.prems show ?case by (simp add: svg_share_eq boxes_show.simps share_node_root box_shows_def)
qed

text \<open>The preconditions of the painting.\<close>

lemma fits_listed: "fits d t \<Longrightarrow> carries d t \<Longrightarrow> statuses_listed d \<Longrightarrow> all_listed t"
proof (induction t arbitrary: d)
  case (SNode a ns)
  have "listed (sattr n) \<and> all_listed n" if n: "n \<in> set ns" for n
  proof -
    obtain e where e: "e \<in> set (enodes d)" "e_id (eattr e) = s_id (sattr n)" "fits e n" using fits_partner[OF SNode.prems(1) n] .
    have "s_status (sattr n) = e_status (eattr e)" "carries e n" using SNode.prems(2) n e(1,2) by (simp_all add: carries.simps)
    moreover have "e_status (eattr e) \<in> set statusList" "statuses_listed e"
      using SNode.prems(3) e(1) by (cases d; simp add: statuses_listed.simps)+
    moreover have "good_g (sattr n)" using SNode.prems(1) n by (simp add: fits.simps)
    ultimately show ?thesis using SNode.IH[OF n e(3)] by (simp add: listed_def)
  qed
  then show ?case by simp
qed

lemma undrawn_grows: "grows t t' \<Longrightarrow> undrawn t \<Longrightarrow> undrawn t'"
proof (induction t arbitrary: t')
  case (SNode a ns)
  obtain b ks where e: "t' = SNode b ks" by (cases t') auto
  have g: "list_all2 grows ns ks" using SNode.prems(1) e by simp
  have "s_g (sattr (ks ! i)) = None \<and> undrawn (ks ! i)" if "i < length ks" for i
    using g SNode.IH[of "ns ! i"] SNode.prems(2) that grows_root[of "ns ! i" "ks ! i"]
    by (auto simp: list_all2_conv_all_nth root_grows_def)
  then show ?case by (auto simp: e all_set_conv_all_nth)
qed

lemma grows_fields:
  assumes "grows n n'"
  shows "s_id (sattr n') = s_id (sattr n)" "s_status (sattr n') = s_status (sattr n)" "s_g (sattr n') = None \<longleftrightarrow> s_g (sattr n) = None"
    "listed (sattr n) \<Longrightarrow> good_g (sattr n')" "status_shown (sattr n) \<Longrightarrow> status_shown (sattr n')"
  using grows_root[OF assms] by (auto simp: root_grows_def listed_def)

lemma svg_ids_grows: "list_all2 grows ns ks \<Longrightarrow> svg_ids ks = svg_ids ns"
  unfolding svg_ids_def
  by (intro nth_equalityI) (auto simp: list_all2_conv_all_nth root_grows_def dest!: grows_root)

lemma fits_grows: "grows t t' \<Longrightarrow> fits d t \<Longrightarrow> all_listed t \<Longrightarrow> fits d t'"
proof (induction t arbitrary: t' d)
  case (SNode a ns)
  obtain b ks where e: "t' = SNode b ks" by (cases t') auto
  have g: "list_all2 grows ns ks" using SNode.prems(1) e by simp
  have "good_g (sattr (ks ! i)) \<and> (s_g (sattr (ks ! i)) = None \<longrightarrow> undrawn (ks ! i)) \<and>
      (\<forall>e \<in> set (enodes d). e_id (eattr e) = s_id (sattr (ks ! i)) \<longrightarrow> fits e (ks ! i))" if i: "i < length ks" for i
  proof -
    have gi: "grows (ns ! i) (ks ! i)" "ns ! i \<in> set ns" using g i by (auto simp: list_all2_conv_all_nth)
    have l: "listed (sattr (ns ! i))" "all_listed (ns ! i)" using SNode.prems(3) gi(2) by simp_all
    note r = grows_fields[OF gi(1)]
    have "good_g (sattr (ks ! i))" using r l(1) by (simp add: listed_def)
    moreover have "undrawn (ks ! i)" if "s_g (sattr (ks ! i)) = None"
      using undrawn_grows[OF gi(1)] r that SNode.prems(2) gi(2) by (simp add: fits.simps)
    moreover have "fits e (ks ! i)" if "e \<in> set (enodes d)" "e_id (eattr e) = s_id (sattr (ks ! i))" for e
      using SNode.IH[OF gi(2,1) _ l(2)] SNode.prems(2) gi(2) r that by (simp add: fits.simps)
    ultimately show ?thesis by blast
  qed
  then show ?case using SNode.prems(2) svg_ids_grows[OF g] by (simp add: e fits.simps all_set_conv_all_nth)
qed

lemma carries_grows: "grows t t' \<Longrightarrow> carries d t \<Longrightarrow> carries d t'"
proof (induction t arbitrary: t' d)
  case (SNode a ns)
  obtain b ks where e: "t' = SNode b ks" by (cases t') auto
  have g: "list_all2 grows ns ks" using SNode.prems(1) e by simp
  have "\<forall>e \<in> set (enodes d). e_id (eattr e) = s_id (sattr (ks ! i)) \<longrightarrow> s_status (sattr (ks ! i)) = e_status (eattr e) \<and> carries e (ks ! i)"
    if i: "i < length ks" for i
  proof -
    have gi: "grows (ns ! i) (ks ! i)" "ns ! i \<in> set ns" using g i by (auto simp: list_all2_conv_all_nth)
    note r = grows_fields[OF gi(1)]
    show ?thesis using SNode.IH[OF gi(2,1)] SNode.prems(2) gi(2) r by (simp add: carries.simps)
  qed
  then show ?case by (simp add: e carries.simps all_set_conv_all_nth)
qed

text \<open>What shows its data goes on showing it.\<close>

lemma box_shows_status: "s_status a = st \<Longrightarrow> box_shows st a = status_shown a"
  by (auto simp: box_shows_def status_shown_def)

lemma boxes_show_grows: "grows t t' \<Longrightarrow> carries d t \<Longrightarrow> boxes_show d t \<Longrightarrow> boxes_show d t'"
proof (induction t arbitrary: t' d)
  case (SNode a ns)
  obtain b ks where e: "t' = SNode b ks" by (cases t') auto
  have g: "list_all2 grows ns ks" using SNode.prems(1) e by simp
  have "box_shows (e_status (eattr e)) (sattr (ks ! i)) \<and> boxes_show e (ks ! i)"
    if i: "i < length ks" and e: "e \<in> set (enodes d)" "e_id (eattr e) = s_id (sattr (ks ! i))" for i e
  proof -
    have gi: "grows (ns ! i) (ks ! i)" "ns ! i \<in> set ns" using g i by (auto simp: list_all2_conv_all_nth)
    note r = grows_fields[OF gi(1)]
    have c: "s_status (sattr (ns ! i)) = e_status (eattr e)" "carries e (ns ! i)"
      "box_shows (e_status (eattr e)) (sattr (ns ! i))" "boxes_show e (ns ! i)"
      using SNode.prems(2,3) gi(2) e r by (simp_all add: carries.simps boxes_show.simps)
    have "status_shown (sattr (ns ! i))" using c(1,3) box_shows_status by blast
    then have "box_shows (e_status (eattr e)) (sattr (ks ! i))"
      using r(5) box_shows_status[OF trans[OF r(2) c(1)]] by blast
    with c show ?thesis using SNode.IH[OF gi(2,1)] by blast
  qed
  then show ?case by (auto simp: e boxes_show.simps all_set_conv_all_nth)
qed

lemma undrawn_shows: "undrawn t \<Longrightarrow> boxes_show d t"
  by (induction t arbitrary: d) (simp add: boxes_show.simps box_shows_def)

text \<open>The update names nodes that the graph has.\<close>

fun names_in :: "unode \<Rightarrow> snode \<Rightarrow> bool" where
  "names_in (UNode u us) t \<longleftrightarrow> (\<forall>m \<in> set us. (\<exists>n \<in> set (snodes t). by_id (u_id (uattr m)) n) \<and>
     (\<forall>n \<in> set (snodes t). by_id (u_id (uattr m)) n \<longrightarrow> names_in m n))"

fun distinct_update :: "unode \<Rightarrow> bool" where
  "distinct_update (UNode u us) \<longleftrightarrow> distinct (map (u_id \<circ> uattr) us) \<and> (\<forall>m \<in> set us. distinct_update m)"

lemma all_listed_upd [simp]: "all_listed (upd_s f n) = all_listed n"
  by (cases n) simp

lemma names_in_upd [simp]: "names_in m (upd_s f n) = names_in m n"
  by (cases m) simp

lemma names_in_grows: "grows t t' \<Longrightarrow> names_in u t \<Longrightarrow> names_in u t'"
proof (induction u arbitrary: t t')
  case (UNode u us)
  obtain a ns b ks where e: "t = SNode a ns" "t' = SNode b ks" by (cases t; cases t') auto
  have g: "list_all2 grows ns ks" using UNode.prems(1) e by simp
  have len: "length ks = length ns" using list_all2_lengthD[OF g] by simp
  have gi: "grows (ns ! i) (ks ! i)" if "i < length ns" for i using g that by (simp add: list_all2_conv_all_nth)
  then have id: "by_id k (ks ! i) = by_id k (ns ! i)" if "i < length ns" for i k
    using grows_fields(1)[OF gi[OF that]] by (simp add: by_id_def)
  have "(\<exists>n \<in> set ks. by_id (u_id (uattr m)) n) \<and> (\<forall>n \<in> set ks. by_id (u_id (uattr m)) n \<longrightarrow> names_in m n)" if m: "m \<in> set us" for m
  proof -
    have m': "\<exists>n \<in> set ns. by_id (u_id (uattr m)) n" "\<forall>n \<in> set ns. by_id (u_id (uattr m)) n \<longrightarrow> names_in m n"
      using UNode.prems(2) m e by simp_all
    from m'(1) obtain i where "i < length ns" "by_id (u_id (uattr m)) (ns ! i)" by (auto simp: in_set_conv_nth)
    then have "\<exists>n \<in> set ks. by_id (u_id (uattr m)) n" using id len by (metis nth_mem)
    moreover have "names_in m (ks ! i)" if "i < length ks" "by_id (u_id (uattr m)) (ks ! i)" for i
      using UNode.IH[OF m gi[of i]] m'(2) that id len by simp
    ultimately show ?thesis by (simp add: all_set_conv_all_nth)
  qed
  then show ?case by (simp add: e)
qed

lemma update_succeeds: "all_listed t \<Longrightarrow> names_in u t \<Longrightarrow> \<exists>t'. updateStatusChanges u t = Inr t'"
proof (induction u arbitrary: t)
  case (UNode u us)
  obtain a ns where t: "t = SNode a ns" by (cases t)
  have "\<exists>ns'. fold_result (\<lambda>ns m. if \<exists>n \<in> set ns. by_id (u_id (uattr m)) n
      then map_result (update_child m) ns else Inl TypeError) ns vs = Inr ns'"
    if "set vs \<subseteq> set us" "\<forall>n \<in> set ns. listed (sattr n) \<and> all_listed n" "names_in (UNode u vs) (SNode a ns)" for vs ns
    using that
  proof (induction vs arbitrary: ns)
    case (Cons m vs)
    have m: "m \<in> set us" using Cons.prems(1) by simp
    have "\<exists>y. update_child m n = Inr y" if n: "n \<in> set ns" for n
    proof (cases "by_id (u_id (uattr m)) n \<and> s_g (sattr n) \<noteq> None")
      case True
      then have "names_in m n" using Cons.prems(3) n by simp
      then have "\<exists>y. updateStatusChanges m (upd_s paint_status n) = Inr y"
        using Cons.prems(2) n by (intro UNode.IH[OF m]) simp_all
      then show ?thesis unfolding update_child_def if_P[OF True] .
    next
      case False
      then show ?thesis unfolding update_child_def if_not_P[OF False] by blast
    qed
    then have "\<exists>ns1. map_result (update_child m) ns = Inr ns1" unfolding map_result_Inr_iff by (rule ballI)
    then obtain ns1 where ns1: "map_result (update_child m) ns = Inr ns1" ..
    have g: "grows (ns ! i) (ns1 ! i)" if "i < length ns" for i
      by (rule conjunct1[OF update_child_shows[OF map_result_nth[OF ns1 that]]])
        (use Cons.prems(2) that update_shows in auto)
    then have gs: "grows (SNode a ns) (SNode a ns1)"
      using map_result_length[OF ns1] by (simp add: list_all2_conv_all_nth root_grows_def)
    have "all_listed (SNode a ns1)" using grows_listed[OF gs] Cons.prems(2) by simp
    moreover have "names_in (UNode u vs) (SNode a ns)" using Cons.prems(3) by simp
    then have "names_in (UNode u vs) (SNode a ns1)" by (rule names_in_grows[OF gs])
    ultimately have "\<exists>ns'. fold_result (\<lambda>ns m. if \<exists>n \<in> set ns. by_id (u_id (uattr m)) n
        then map_result (update_child m) ns else Inl TypeError) ns1 vs = Inr ns'"
      using Cons.IH[of ns1] Cons.prems(1) by simp
    with ns1 Cons.prems(3) show ?case by auto
  qed simp
  from this[of us ns] UNode.prems show ?case
    unfolding t updateStatusChanges.simps update_child_def[symmetric] by auto
qed

text \<open>The data before and after an answer.\<close>

lemma step_update_known:
  assumes "step_update ns w = Inr ks" "distinct (enode_ids ns)"
  shows "u_id (uattr w) \<in> set (enode_ids ns)"
proof -
  obtain i where "obj_get (enode_map ns) (u_id (uattr w)) = Some i"
    using assms(1) by (auto simp: step_update_def split: option.splits)
  then have "i < length ns" "e_id (eattr (ns ! i)) = u_id (uattr w)"
    using enode_map_get[of ns "u_id (uattr w)" i] assms(2) by (simp_all add: enode_ids_def)
  then show ?thesis unfolding enode_ids_def by (metis image_eqI list.set_map nth_mem)
qed

lemma steps_ids: "fold_result step_update ns us = Inr ks \<Longrightarrow> enode_ids ks = enode_ids ns"
proof (induction us arbitrary: ns)
  case (Cons w us)
  then obtain n1 where "step_update ns w = Inr n1" "fold_result step_update n1 us = Inr ks" by (auto simp: and_then_Inr_iff)
  with Cons.IH[of n1] step_update_ids[of ns w n1] show ?case by simp
qed simp

lemma steps_known:
  "fold_result step_update ns us = Inr ks \<Longrightarrow> distinct (enode_ids ns) \<Longrightarrow> v \<in> set us \<Longrightarrow> u_id (uattr v) \<in> set (enode_ids ns)"
proof (induction us arbitrary: ns)
  case (Cons w us)
  then obtain n1 where n1: "step_update ns w = Inr n1" "fold_result step_update n1 us = Inr ks" by (auto simp: and_then_Inr_iff)
  show ?case
  proof (cases "v = w")
    case True
    with step_update_known[OF n1(1) Cons.prems(2)] show ?thesis by simp
  next
    case False
    then show ?thesis using Cons.IH[OF n1(2)] Cons.prems(2,3) step_update_ids[OF n1(1)] by simp
  qed
qed simp

text \<open>A node of the new data was named by the answer, or is the old one.\<close>

lemma update_level:
  assumes "updateGraph (UNode u us) c = Inr c'" "distinct (enode_ids (enodes c))" "distinct_update (UNode u us)"
  shows "enode_ids (enodes c') = enode_ids (enodes c)"
    "v \<in> set us \<Longrightarrow> u_id (uattr v) \<in> set (enode_ids (enodes c))"
    "e \<in> set (enodes c) \<Longrightarrow> e' \<in> set (enodes c') \<Longrightarrow> e_id (eattr e') = e_id (eattr e) \<Longrightarrow>
     (\<exists>v \<in> set us. u_id (uattr v) = e_id (eattr e) \<and> updateGraph v e = Inr e' \<and> distinct_update v) \<or>
     e_id (eattr e) \<notin> u_id ` uattr ` set us \<and> e' = e"
proof -
  obtain a ns where c: "c = ENode a ns" by (cases c)
  obtain ks where ks: "fold_result step_update ns us = Inr ks" "enodes c' = ks"
    using assms(1) by (auto simp: c updateGraph_steps and_then_Inr_iff)
  have d: "distinct (enode_ids ns)" "distinct (map (u_id \<circ> uattr) us)" using assms(2,3) by (simp_all add: c)
  note ids = steps_ids[OF ks(1)]
  then show "enode_ids (enodes c') = enode_ids (enodes c)" by (simp add: c ks(2))
  show "u_id (uattr v) \<in> set (enode_ids (enodes c))" if "v \<in> set us"
    using steps_known[OF ks(1) d(1) that] by (simp add: c)
  assume e: "e \<in> set (enodes c)" "e' \<in> set (enodes c')" "e_id (eattr e') = e_id (eattr e)"
  obtain i where i: "i < length ns" "e = ns ! i" using e(1) by (auto simp: c in_set_conv_nth)
  have len: "length ks = length ns" using ids unfolding enode_ids_def by (metis length_map)
  have "e_id (eattr (ks ! i)) = e_id (eattr e)" using arg_cong[OF ids, of "\<lambda>l. l ! i"] i len by (simp add: enode_ids_def)
  then have e': "e' = ks ! i"
    using enode_ids_unique[of ks e' "ks ! i"] ids d(1) e(2,3) i(1) len ks(2) by simp
  note nth = updates_nth[OF ks(1) d i(1)]
  show "(\<exists>v \<in> set us. u_id (uattr v) = e_id (eattr e) \<and> updateGraph v e = Inr e' \<and> distinct_update v) \<or>
     e_id (eattr e) \<notin> u_id ` uattr ` set us \<and> e' = e"
    using nth assms(3) unfolding e' i(2) by auto
qed

lemma fits_update:
  "fits c t \<Longrightarrow> updateGraph u c = Inr c' \<Longrightarrow> distinct_update u \<Longrightarrow> fits c' t \<and> names_in u t"
proof (induction t arbitrary: c c' u)
  case (SNode a ns)
  obtain w us where u: "u = UNode w us" by (cases u)
  have d: "distinct (enode_ids (enodes c))" "distinct (svg_ids ns)" "set (enode_ids (enodes c)) = set (svg_ids ns)"
    using SNode.prems(1) by (simp_all add: fits.simps)
  note lv = update_level[OF SNode.prems(2)[unfolded u] d(1) SNode.prems(3)[unfolded u]]
  have step: "fits e' n \<and> (\<forall>v \<in> set us. u_id (uattr v) = s_id (sattr n) \<longrightarrow> names_in v n)"
    if n: "n \<in> set ns" "e' \<in> set (enodes c')" "e_id (eattr e') = s_id (sattr n)" for n e'
  proof -
    obtain e where e: "e \<in> set (enodes c)" "e_id (eattr e) = s_id (sattr n)" "fits e n" using fits_partner[OF SNode.prems(1) n(1)] .
    from lv(3)[OF e(1) n(2)] n(3) e(2)
    consider v where "v \<in> set us" "u_id (uattr v) = e_id (eattr e)" "updateGraph v e = Inr e'" "distinct_update v"
      | "e_id (eattr e) \<notin> u_id ` uattr ` set us" "e' = e" by auto
    then show ?thesis
    proof cases
      case 1
      have "w = v" if "w \<in> set us" "u_id (uattr w) = s_id (sattr n)" for w
      proof -
        have "inj_on (u_id \<circ> uattr) (set us)" using SNode.prems(3) by (simp add: u distinct_map)
        then show ?thesis using that 1(1,2) e(2) by (auto elim!: inj_onD)
      qed
      with SNode.IH[OF n(1) e(3) 1(3,4)] show ?thesis by blast
    qed (use e in force)
  qed
  have "\<exists>e' \<in> set (enodes c'). e_id (eattr e') = s_id (sattr n)" if "n \<in> set ns" for n
  proof -
    have "s_id (sattr n) \<in> set (enode_ids (enodes c'))" using d(3) lv(1) that by (auto simp: svg_ids_def)
    then show ?thesis by (auto simp: enode_ids_def)
  qed
  with step have "\<forall>n \<in> set ns. \<forall>v \<in> set us. u_id (uattr v) = s_id (sattr n) \<longrightarrow> names_in v n" by blast
  moreover have "\<exists>n \<in> set ns. s_id (sattr n) = u_id (uattr v)" if "v \<in> set us" for v
    using lv(2)[OF that] d(3) by (auto simp: svg_ids_def)
  ultimately have "names_in u (SNode a ns)" by (simp add: u by_id_def)
  moreover have "fits c' (SNode a ns)" using SNode.prems(1) step by (simp add: fits.simps lv(1))
  ultimately show ?case by blast
qed

lemma boxes_show_update:
  "updateGraph u c = Inr c' \<Longrightarrow> distinct_update u \<Longrightarrow> fits c t \<Longrightarrow> boxes_show c t \<Longrightarrow> carries c' t \<Longrightarrow>
   grows t t' \<Longrightarrow> named_shown u t' \<Longrightarrow> boxes_show c' t'"
proof (induction t arbitrary: u c c' t')
  case (SNode a ns)
  obtain w us b ks where e: "u = UNode w us" "t' = SNode b ks" by (cases u; cases t')
  have g: "list_all2 grows ns ks" using SNode.prems(6) e by simp
  note lv = update_level[OF SNode.prems(1)[unfolded e] _ SNode.prems(2)[unfolded e]]
  have "box_shows (e_status (eattr e')) (sattr (ks ! i)) \<and> boxes_show e' (ks ! i)"
    if i: "i < length ks" and e': "e' \<in> set (enodes c')" "e_id (eattr e') = s_id (sattr (ks ! i))" for i e'
  proof -
    have gi: "grows (ns ! i) (ks ! i)" "ns ! i \<in> set ns" using g i by (auto simp: list_all2_conv_all_nth)
    note r = grows_fields[OF gi(1)]
    obtain f where f: "f \<in> set (enodes c)" "e_id (eattr f) = s_id (sattr (ns ! i))" "fits f (ns ! i)"
      using fits_partner[OF SNode.prems(3) gi(2)] .
    have c: "s_status (sattr (ns ! i)) = e_status (eattr e')" "carries e' (ns ! i)"
      "box_shows (e_status (eattr f)) (sattr (ns ! i))" "boxes_show f (ns ! i)"
      using SNode.prems(4,5) gi(2) e' f r(1) by (simp_all add: carries.simps boxes_show.simps)
    have st: "s_status (sattr (ks ! i)) = e_status (eattr e')" using r(2) c(1) by simp
    have id: "e_id (eattr e') = e_id (eattr f)" using e'(2) f(2) r(1) by simp
    have "distinct (enode_ids (enodes c))" using SNode.prems(3) by (simp add: fits.simps)
    from lv(3)[OF this f(1) e'(1) id]
    consider v where "v \<in> set us" "u_id (uattr v) = e_id (eattr f)" "updateGraph v f = Inr e'" "distinct_update v"
      | "e' = f" by auto
    then show ?thesis
    proof cases
      case 1
      have bid: "by_id (u_id (uattr v)) (ks ! i)" using 1(2) f(2) r(1) by (simp add: by_id_def)
      show ?thesis
      proof (cases "s_g (sattr (ks ! i)) = None")
        case True
        then have "undrawn (ns ! i)" using SNode.prems(3) gi(2) r(3) by (simp add: fits.simps)
        then show ?thesis using True undrawn_shows[OF undrawn_grows[OF gi(1)]] by (simp add: box_shows_def)
      next
        case False
        then have "status_shown (sattr (ks ! i))" "named_shown v (ks ! i)"
          using SNode.prems(7) 1(1) bid i by (auto simp: e)
        then show ?thesis
          using SNode.IH[OF gi(2) 1(3,4) f(3) c(4,2) gi(1)] box_shows_status[OF st] by blast
      qed
    next
      case 2
      have "status_shown (sattr (ns ! i))" using box_shows_status[OF c(1)] c(3) 2 by simp
      then show ?thesis using r(5) box_shows_status[OF st] boxes_show_grows[OF gi(1)] c(2,4) 2 by blast
    qed
  qed
  then show ?case by (auto simp: e(2) boxes_show.simps all_set_conv_all_nth)
qed

subsection \<open>The list of jobs\<close>

fun jt_keys :: "string \<Rightarrow> jtree list \<Rightarrow> (string \<times> string) list" where
  "jt_keys prefix [] = []"
| "jt_keys prefix (JTree k ty x y st sub # ns) =
     (prefix @ k, st) # jt_keys (prefix @ k @ '':'') sub @ jt_keys prefix ns"

lemma changeStatuses_keys:
  "changeStatuses prefix ns m = foldl (\<lambda>m (k, st). upd_li k (paint_li st) m) m (jt_keys prefix ns)"
proof (induction prefix ns m rule: changeStatuses.induct)
  case (2 prefix k ty x y st sub ns m)
  show ?case
    by (simp only: changeStatuses.simps 2(2)) (simp only: 2(1) jt_keys.simps foldl.simps foldl_append prod.case)
qed simp

definition item_shows :: "string \<Rightarrow> li \<Rightarrow> bool" where
  "item_shows st l \<longleftrightarrow> set (li_class l) \<inter> set statusList = {st}"

lemma paint_li_shows: "item_shows st' l \<Longrightarrow> st \<in> set statusList \<Longrightarrow> item_shows st (paint_li st l)"
proof (cases "st \<in> set (li_class l)")
  case True
  assume "item_shows st' l" "st \<in> set statusList"
  with True have "st \<in> {st'}" unfolding item_shows_def by blast
  with True \<open>item_shows st' l\<close> show ?thesis by (simp add: paint_li_def)
next
  case False
  assume "st \<in> set statusList"
  then have "(set (li_class l) - set statusList \<union> {st}) \<inter> set statusList = {st}" by blast
  moreover have "set (li_class (paint_li st l)) = set (li_class l) - set statusList \<union> {st}"
    using False by (simp add: paint_li_def set_diff_eq)
  ultimately show ?thesis by (simp add: item_shows_def)
qed

lemma paint_all:
  assumes "distinct (map fst kvs)" "\<forall>(k, st) \<in> set kvs. st \<in> set statusList \<and> (\<exists>l st'. obj_get m k = Some l \<and> item_shows st' l)"
  shows "(\<forall>(k, st) \<in> set kvs. \<exists>l. obj_get (foldl (\<lambda>m (k, st). upd_li k (paint_li st) m) m kvs) k = Some l \<and> item_shows st l) \<and>
    (\<forall>k'. k' \<notin> fst ` set kvs \<longrightarrow> obj_get (foldl (\<lambda>m (k, st). upd_li k (paint_li st) m) m kvs) k' = obj_get m k')"
  using assms
proof (induction kvs arbitrary: m)
  case (Cons kv kvs)
  obtain k st where kv: "kv = (k, st)" by (cases kv)
  let ?m = "upd_li k (paint_li st) m"
  have d: "distinct (map fst kvs)" "k \<notin> fst ` set kvs" using Cons.prems(1) by (simp_all add: kv)
  have get: "obj_get ?m j = (if j = k then map_option (paint_li st) (obj_get m k) else obj_get m j)" for j by (simp add: upd_li_get)
  have ok: "\<forall>(j, s) \<in> set kvs. s \<in> set statusList \<and> (\<exists>l st'. obj_get ?m j = Some l \<and> item_shows st' l)"
  proof clarify
    fix j s
    assume j: "(j, s) \<in> set kvs"
    then have "j \<noteq> k" using d(2) by force
    then show "s \<in> set statusList \<and> (\<exists>l st'. obj_get ?m j = Some l \<and> item_shows st' l)" using Cons.prems(2) j by (auto simp: get)
  qed
  obtain l st' where l: "obj_get m k = Some l" "item_shows st' l" "st \<in> set statusList" using Cons.prems(2) by (auto simp: kv)
  note ih = Cons.IH[OF d(1) ok]
  have "obj_get (foldl (\<lambda>m (k, st). upd_li k (paint_li st) m) ?m kvs) k = Some (paint_li st l)" using ih d(2) l(1) by (simp add: get)
  with ih paint_li_shows[OF l(2,3)] show ?case by (simp add: kv get)
qed simp

text \<open>The list fits the data, and shows it: each item has the colour of its node.\<close>

fun jt_fits :: "enode \<Rightarrow> jtree \<Rightarrow> bool" where
  "jt_fits d (JTree k ty x y st ns) \<longleftrightarrow> distinct (enode_ids (enodes d)) \<and> distinct (map jt_id ns) \<and>
     set (enode_ids (enodes d)) = set (map jt_id ns) \<and>
     (\<forall>n \<in> set ns. \<forall>e \<in> set (enodes d). e_id (eattr e) = jt_id n \<longrightarrow> jt_fits e n)"

fun data_keys :: "string \<Rightarrow> enode \<Rightarrow> (string \<times> string) list" where
  "data_keys prefix (ENode a ns) = concat (map (\<lambda>n. (prefix @ e_id (eattr n), e_status (eattr n)) #
     data_keys (prefix @ e_id (eattr n) @ '':'') n) ns)"

definition items_show :: "enode \<Rightarrow> li jsobj \<Rightarrow> bool" where
  "items_show d m \<longleftrightarrow> (\<forall>(k, st) \<in> set (data_keys [] d). \<exists>l. obj_get m k = Some l \<and> item_shows st l)"

declare jt_fits.simps [simp del] data_keys.simps [simp del]

definition node_keys :: "string \<Rightarrow> jtree \<Rightarrow> (string \<times> string) list" where
  "node_keys prefix n = (case n of JTree k ty x y st sub \<Rightarrow> (prefix @ k, st) # jt_keys (prefix @ k @ '':'') sub)"

lemma jt_keys_concat: "jt_keys prefix ns = concat (map (node_keys prefix) ns)"
  by (induction prefix ns rule: jt_keys.induct) (simp_all add: node_keys_def)

definition share_item :: "enode \<Rightarrow> jtree \<Rightarrow> jtree" where
  "share_item d n = (case partner (enodes d) (jt_id n) of None \<Rightarrow> n | Some e \<Rightarrow> list_share e n)"

lemma jt_nodes_share: "jt_nodes (list_share d t) = map (share_item d) (jt_nodes t)"
  by (cases t) (simp add: list_share.simps share_item_def)

lemma jt_id_share: "jt_id (list_share d t) = jt_id t" "jt_id (share_item d t) = jt_id t"
  by (cases t; simp add: list_share.simps share_item_def split: option.splits)+

lemma node_keys_share: "node_keys prefix (list_share e n) =
    (prefix @ jt_id n, e_status (eattr e)) # jt_keys (prefix @ jt_id n @ '':'') (jt_nodes (list_share e n))"
  by (cases n) (simp add: node_keys_def list_share.simps)

lemma node_keys_fst: "map fst (node_keys prefix n) = (prefix @ jt_id n) # map fst (jt_keys (prefix @ jt_id n @ '':'') (jt_nodes n))"
  by (cases n) (simp add: node_keys_def)

lemma share_fst: "map fst (jt_keys prefix (jt_nodes (list_share d t))) = map fst (jt_keys prefix (jt_nodes t))"
proof (induction t arbitrary: d prefix)
  case (JTree k ty x y st ns)
  have "map fst (node_keys prefix (share_item d n)) = map fst (node_keys prefix n)" if n: "n \<in> set ns" for n
  proof (cases "partner (enodes d) (jt_id n)")
    case (Some e)
    then show ?thesis using JTree[OF n] by (simp add: share_item_def node_keys_fst jt_id_share)
  qed (simp add: share_item_def)
  then show ?case unfolding jt_nodes_share jt_keys_concat by (simp add: map_concat comp_def cong: map_cong)
qed

lemma share_keys: "jt_fits d t \<Longrightarrow> set (jt_keys prefix (jt_nodes (list_share d t))) = set (data_keys prefix d)"
proof (induction t arbitrary: d prefix)
  case (JTree k ty x y st ns)
  obtain a es where d: "d = ENode a es" by (cases d)
  have ids: "distinct (enode_ids es)" "set (enode_ids es) = jt_id ` set ns" using JTree.prems by (simp_all add: d jt_fits.simps)
  have eq: "set (node_keys prefix (share_item d n)) =
      set ((prefix @ e_id (eattr e), e_status (eattr e)) # data_keys (prefix @ e_id (eattr e) @ '':'') e)"
    if n: "n \<in> set ns" "e \<in> set es" "e_id (eattr e) = jt_id n" for n e
  proof -
    have "share_item d n = list_share e n" using partner_eq[OF ids(1) n(2)] n(3) by (simp add: share_item_def d)
    moreover have "jt_fits e n" using JTree.prems n by (simp add: d jt_fits.simps)
    ultimately show ?thesis using JTree.IH[OF n(1)] n(3) by (simp add: node_keys_share)
  qed
  have "(\<exists>n \<in> set ns. kv \<in> set (node_keys prefix (share_item d n))) \<longleftrightarrow>
      (\<exists>e \<in> set es. kv \<in> set ((prefix @ e_id (eattr e), e_status (eattr e)) # data_keys (prefix @ e_id (eattr e) @ '':'') e))" for kv
  proof
    assume "\<exists>n \<in> set ns. kv \<in> set (node_keys prefix (share_item d n))"
    then obtain n where n: "n \<in> set ns" "kv \<in> set (node_keys prefix (share_item d n))" by blast
    then obtain e where "e \<in> set es" "e_id (eattr e) = jt_id n" using ids(2) by (force simp: enode_ids_def)
    with n eq show "\<exists>e \<in> set es. kv \<in> set ((prefix @ e_id (eattr e), e_status (eattr e)) # data_keys (prefix @ e_id (eattr e) @ '':'') e)"
      by blast
  next
    assume "\<exists>e \<in> set es. kv \<in> set ((prefix @ e_id (eattr e), e_status (eattr e)) # data_keys (prefix @ e_id (eattr e) @ '':'') e)"
    then obtain e where e: "e \<in> set es" "kv \<in> set ((prefix @ e_id (eattr e), e_status (eattr e)) # data_keys (prefix @ e_id (eattr e) @ '':'') e)"
      by blast
    then obtain n where "n \<in> set ns" "e_id (eattr e) = jt_id n" using ids(2) by (force simp: enode_ids_def)
    with e eq show "\<exists>n \<in> set ns. kv \<in> set (node_keys prefix (share_item d n))" by blast
  qed
  then show ?case unfolding jt_nodes_share jt_keys_concat d data_keys.simps by (auto simp: set_eq_iff)
qed

lemma list_paint:
  assumes "set (jt_keys [] ns) = set (data_keys [] d)" "distinct (map fst (jt_keys [] ns))"
    "\<forall>(k, st) \<in> set (data_keys [] d). st \<in> set statusList"
    "\<forall>k \<in> fst ` set (jt_keys [] ns). \<exists>l st. obj_get m k = Some l \<and> item_shows st l"
  shows "items_show d (changeStatuses [] ns m)"
proof -
  have "\<forall>(k, st) \<in> set (jt_keys [] ns). st \<in> set statusList \<and> (\<exists>l st'. obj_get m k = Some l \<and> item_shows st' l)"
    using assms(1,3,4) by fastforce
  from paint_all[OF assms(2) this] show ?thesis
    unfolding items_show_def changeStatuses_keys assms(1) by blast
qed

text \<open>The list of jobs keeps fitting.\<close>

lemma jt_fits_partner:
  assumes "jt_fits d (JTree k ty x y st ns)" "n \<in> set ns"
  obtains e where "e \<in> set (enodes d)" "e_id (eattr e) = jt_id n" "jt_fits e n"
proof -
  have "jt_id n \<in> set (enode_ids (enodes d))" using assms by (auto simp: jt_fits.simps)
  then obtain e where e: "e \<in> set (enodes d)" "e_id (eattr e) = jt_id n" by (auto simp: enode_ids_def)
  then show ?thesis using that[OF e] assms by (simp add: jt_fits.simps)
qed

lemma jt_fits_update:
  "jt_fits c t \<Longrightarrow> updateGraph u c = Inr c' \<Longrightarrow> distinct_update u \<Longrightarrow> jt_fits c' t"
proof (induction t arbitrary: c c' u)
  case (JTree k ty x y st ns)
  obtain w us where u: "u = UNode w us" by (cases u)
  have d: "distinct (enode_ids (enodes c))" using JTree.prems(1) by (simp add: jt_fits.simps)
  note lv = update_level[OF JTree.prems(2)[unfolded u] d JTree.prems(3)[unfolded u]]
  have "jt_fits e' n" if n: "n \<in> set ns" "e' \<in> set (enodes c')" "e_id (eattr e') = jt_id n" for n e'
  proof -
    obtain e where e: "e \<in> set (enodes c)" "e_id (eattr e) = jt_id n" "jt_fits e n" using jt_fits_partner[OF JTree.prems(1) n(1)] .
    from lv(3)[OF e(1) n(2)] n(3) e(2)
    consider v where "updateGraph v e = Inr e'" "distinct_update v" | "e' = e" by auto
    then show ?thesis by cases (use e(3) JTree.IH[OF n(1)] in blast)+
  qed
  with JTree.prems(1) lv(1) show ?case by (simp add: jt_fits.simps)
qed

lemma jt_fits_share: "jt_fits c t \<Longrightarrow> jt_fits c (list_share d t)"
proof (induction t arbitrary: c d)
  case (JTree k ty x y st ns)
  have "jt_fits e (share_item d n)" if n: "n \<in> set ns" "e \<in> set (enodes c)" "e_id (eattr e) = jt_id n" for n e
  proof -
    have "jt_fits e n" using JTree.prems n by (simp add: jt_fits.simps)
    then show ?thesis using JTree.IH[OF n(1)] by (simp add: share_item_def split: option.splits)
  qed
  then show ?case using JTree.prems
    by (simp add: list_share.simps share_item_def[symmetric] jt_fits.simps jt_id_share comp_def)
qed

end
