(* ===== verification/LiveSession.thy ===== *)
theory LiveSession
  imports LivePage
begin

text \<open>
  The page of a running flow follows the flow: the session of \<open>Polling\<close> with all views of \<open>LivePage\<close> in
  place of the copy of the flow, and its invariant.
\<close>

subsection \<open>The flow on the server\<close>

lemma agree_names: "agree c r \<Longrightarrow> same_names (enodes c) (enodes r)"
  by (cases c; cases r) (simp add: agree.simps)

lemma agree_sub: "agree c r \<Longrightarrow> e \<in> set (enodes c) \<Longrightarrow> f \<in> set (enodes r) \<Longrightarrow> e_id (eattr e) = e_id (eattr f) \<Longrightarrow> agree e f"
  by (cases c; cases r) (simp add: agree.simps)

lemma agree_left:
  assumes "agree c r" "f \<in> set (enodes r)"
  obtains e where "e \<in> set (enodes c)" "eattr e = eattr f" "agree e f"
proof -
  obtain e where e: "e \<in> set (enodes c)" "e_id (eattr e) = e_id (eattr f)"
    using same_names_partner(2)[OF agree_names[OF assms(1)] assms(2)] by blast
  then have "agree e f" using agree_sub[OF assms(1) e(1) assms(2)] by simp
  then show ?thesis using that e(1) agree_attr by blast
qed

lemma agree_right:
  assumes "agree c r" "e \<in> set (enodes c)"
  obtains f where "f \<in> set (enodes r)" "eattr e = eattr f" "agree e f"
proof -
  obtain f where f: "f \<in> set (enodes r)" "e_id (eattr e) = e_id (eattr f)"
    using same_names_partner(1)[OF agree_names[OF assms(1)] assms(2)] by blast
  then have "agree e f" using agree_sub[OF assms f(1)] by simp
  then show ?thesis using that f(1) agree_attr by blast
qed

lemma agree_listed: "agree c r \<Longrightarrow> statuses_listed r \<Longrightarrow> statuses_listed c"
proof (induction c arbitrary: r)
  case (ENode a ns)
  have "e_status (eattr e) \<in> set statusList \<and> statuses_listed e" if e: "e \<in> set ns" for e
  proof -
    obtain f where f: "f \<in> set (enodes r)" "eattr e = eattr f" "agree e f" using agree_right[OF ENode.prems(1)] e by auto
    have "e_status (eattr f) \<in> set statusList" "statuses_listed f"
      using ENode.prems(2) f(1) by (cases r; simp add: statuses_listed.simps)+
    with f ENode.IH[OF e] show ?thesis by simp
  qed
  then show ?case by (simp add: statuses_listed.simps)
qed

lemma agree_boxes: "agree c r \<Longrightarrow> boxes_show c t \<Longrightarrow> boxes_show r t"
proof (induction t arbitrary: c r)
  case (SNode a ns)
  have "box_shows (e_status (eattr f)) (sattr n) \<and> boxes_show f n"
    if n: "n \<in> set ns" "f \<in> set (enodes r)" "e_id (eattr f) = s_id (sattr n)" for n f
  proof -
    obtain e where e: "e \<in> set (enodes c)" "eattr e = eattr f" "agree e f" using agree_left[OF SNode.prems(1) n(2)] .
    have "e_id (eattr e) = s_id (sattr n)" using e(2) n(3) by simp
    then have "box_shows (e_status (eattr e)) (sattr n)" "boxes_show e n"
      using SNode.prems(2) n(1) e(1) unfolding boxes_show.simps by blast+
    then show ?thesis using SNode.IH[OF n(1) e(3)] e(2) by simp
  qed
  then show ?case by (simp add: boxes_show.simps)
qed

lemma data_keys_mem: "kv \<in> set (data_keys prefix d) \<longleftrightarrow>
    (\<exists>e \<in> set (enodes d). kv = (prefix @ e_id (eattr e), e_status (eattr e)) \<or> kv \<in> set (data_keys (prefix @ e_id (eattr e) @ '':'') e))"
  by (cases d) (auto simp: data_keys.simps)

lemma agree_keys: "agree c r \<Longrightarrow> kv \<in> set (data_keys prefix r) \<Longrightarrow> kv \<in> set (data_keys prefix c)"
proof (induction r arbitrary: c prefix)
  case (ENode b ms)
  obtain f where f: "f \<in> set ms" "kv = (prefix @ e_id (eattr f), e_status (eattr f)) \<or> kv \<in> set (data_keys (prefix @ e_id (eattr f) @ '':'') f)"
    using data_keys_mem[THEN iffD1, OF ENode.prems(2)] by auto
  obtain e where e: "e \<in> set (enodes c)" "eattr e = eattr f" "agree e f" using agree_left[OF ENode.prems(1)] f(1) by auto
  have "kv = (prefix @ e_id (eattr e), e_status (eattr e)) \<or> kv \<in> set (data_keys (prefix @ e_id (eattr e) @ '':'') e)"
    using f(2) ENode.IH[OF f(1) e(3)] unfolding e(2) by blast
  with e(1) show ?case by (intro data_keys_mem[THEN iffD2]) blast
qed

lemma agree_items: "agree c r \<Longrightarrow> items_show c m \<Longrightarrow> items_show r m"
  unfolding items_show_def using agree_keys by blast

lemma keys_listed: "statuses_listed d \<Longrightarrow> (k, st) \<in> set (data_keys prefix d) \<Longrightarrow> st \<in> set statusList"
proof (induction d arbitrary: prefix)
  case (ENode a ns)
  obtain e where e: "e \<in> set ns" "(k, st) = (prefix @ e_id (eattr e), e_status (eattr e)) \<or> (k, st) \<in> set (data_keys (prefix @ e_id (eattr e) @ '':'') e)"
    using data_keys_mem[THEN iffD1, OF ENode.prems(2)] by auto
  have "e_status (eattr e) \<in> set statusList" "statuses_listed e" using ENode.prems(1) e(1) by (simp_all add: statuses_listed.simps)
  with e(2) ENode.IH[OF e(1)] show ?case by auto
qed

lemma info_distinct: "agree m m \<Longrightarrow> getExecutableFlowUpdateInfo T m = Some u \<Longrightarrow> distinct_update u"
proof (induction m arbitrary: u)
  case (ENode b ms)
  have u: "u = UNode (update_of b) (named T ms)"
    using ENode.prems(2) by (simp add: getExecutableFlowUpdateInfo.simps Let_def split: if_splits)
  have "distinct (enode_ids ms)" using ENode.prems(1) by (simp add: agree.simps same_names_def)
  moreover have "distinct_update v" if v: "v \<in> set (named T ms)" for v
  proof -
    obtain m where m: "m \<in> set ms" "getExecutableFlowUpdateInfo T m = Some v" using v unfolding named_mem by blast
    then show ?thesis using ENode.IH[OF m(1)] agree_sub[OF ENode.prems(1)] by simp
  qed
  ultimately show ?case using named_distinct unfolding u distinct_update.simps by blast
qed

lemma answer_distinct:
  assumes "agree r r"
  shows "distinct_update (ajaxFetchExecutableFlowUpdate T r)"
proof -
  have "distinct_update v" if v: "v \<in> set (named T (enodes r))" for v
  proof -
    obtain m where m: "m \<in> set (enodes r)" "getExecutableFlowUpdateInfo T m = Some v" using v unfolding named_mem by blast
    then show ?thesis using info_distinct[OF agree_sub[OF assms m(1) m(1)]] by simp
  qed
  moreover have "distinct (enode_ids (enodes r))" using agree_names[OF assms] by (simp add: same_names_def)
  ultimately show ?thesis
    using named_distinct unfolding ajaxFetchExecutableFlowUpdate_def distinct_update.simps by blast
qed

subsection \<open>The page follows the flow\<close>

definition page_shows :: "eattr \<Rightarrow> page \<Rightarrow> bool" where
  "page_shows a p \<longleftrightarrow> pg_text p ''#flowStatus'' = e_status a \<and>
     (pg_shown p ''#cancelbtn'' \<longleftrightarrow> e_status a \<in> {''PREPARING'', ''FAILED_FINISHING'', ''RUNNING'', ''PAUSED'', ''WAITING''}) \<and>
     (pg_shown p ''#executebtn'' \<longleftrightarrow> e_status a \<in> {''SUCCEEDED'', ''FAILED'', ''KILLED''}) \<and>
     (pg_shown p ''#pausebtn'' \<longleftrightarrow> e_status a = ''RUNNING'') \<and> (pg_shown p ''#resumebtn'' \<longleftrightarrow> e_status a = ''PAUSED'') \<and>
     (pg_shown p ''#retrybtn'' \<longleftrightarrow> e_status a = ''FAILED_FINISHING'')"

text \<open>What the views of the page need to have in common with the data, and what they show of it.\<close>

definition live_ok :: "live \<Rightarrow> bool" where
  "live_ok s \<longleftrightarrow> fits (lv_data s) (lv_svg s) \<and> boxes_show (lv_data s) (lv_svg s) \<and> jt_fits (lv_data s) (lv_jobs s) \<and>
     distinct (map fst (jt_keys [] (jt_nodes (lv_jobs s)))) \<and> items_show (lv_data s) (lv_list s)"

lemma remove_statuses_frame:
  assumes "\<And>p st. pg_shown (f p st) = pg_shown p"
  shows "pg_shown (remove_statuses f p) = pg_shown p"
proof -
  have "pg_shown (foldl f p ks) = pg_shown p" for ks by (induction ks arbitrary: p) (simp_all add: assms)
  then show ?thesis by (simp add: remove_statuses_def)
qed

lemma statusUpdate_frame: "pg_shown (statusUpdate c now data p) = pg_shown p"
  "pg_text (statusUpdate c now data p) ''#flowStatus'' = e_status data"
  by (simp_all add: statusUpdate_def Let_def remove_statuses_frame)

lemma buttons_shown: "page_shows a (statusUpdate c now a (handleFlowStatusChange (e_status a) p))"
  by (simp add: page_shows_def statusUpdate_frame handleFlowStatusChange_def hide_buttons_def Let_def)

text \<open>One run of the handlers.\<close>

definition ready :: "unode \<Rightarrow> live \<Rightarrow> bool" where
  "ready u s \<longleftrightarrow> fits (lv_data s) (lv_svg s) \<and> carries (lv_data s) (lv_svg s) \<and> statuses_listed (lv_data s) \<and> names_in u (lv_svg s) \<and>
     set (jt_keys [] (jt_nodes (lv_jobs s))) = set (data_keys [] (lv_data s)) \<and>
     distinct (map fst (jt_keys [] (jt_nodes (lv_jobs s)))) \<and>
     (\<forall>k \<in> fst ` set (data_keys [] (lv_data s)). \<exists>l st. obj_get (lv_list s) k = Some l \<and> item_shows st l)"

lemma items_present: "items_show d m \<Longrightarrow> \<forall>k \<in> fst ` set (data_keys [] d). \<exists>l st. obj_get m k = Some l \<and> item_shows st l"
  unfolding items_show_def by fastforce

definition shown :: "unode \<Rightarrow> live \<Rightarrow> bool" where
  "shown u s \<longleftrightarrow> named_shown u (lv_svg s) \<and> items_show (lv_data s) (lv_list s) \<and> page_shows (eattr (lv_data s)) (lv_page s) \<and>
     sv_status (lv_stats s) = Some (e_status (eattr (lv_data s)))"

lemma on_update_shows:
  assumes "ready u s"
  shows "\<exists>s'. on_update g c now css u s = Inr s' \<and> lv_data s' = lv_data s \<and> lv_jobs s' = lv_jobs s \<and>
    grows (lv_svg s) (lv_svg s') \<and> shown u s' \<and> ready u s'"
proof -
  let ?d = "lv_data s"
  have l: "all_listed (lv_svg s)" using assms fits_listed by (auto simp: ready_def)
  have "names_in u (lv_svg s)" using assms by (simp add: ready_def)
  from update_succeeds[OF l this] obtain t where t: "updateStatusChanges u (lv_svg s) = Inr t" ..
  then have g: "grows (lv_svg s) t" "named_shown u t" using update_shows[OF l] by auto
  let ?m = "changeStatuses [] (jt_nodes (lv_jobs s)) (lv_list s)"
  have items: "items_show ?d ?m"
    by (rule list_paint) (use assms keys_listed in \<open>auto simp: ready_def\<close>)
  have "ready u (s\<lparr>lv_svg := t, lv_list := ?m\<rparr>)"
    using assms fits_grows[OF g(1) _ l] carries_grows[OF g(1)] names_in_grows[OF g(1)] items_present[OF items]
    by (simp add: ready_def)
  moreover have "ready u (s\<lparr>lv_svg := t, lv_list := ?m, lv_page := p, lv_stats := v, lv_rows := x\<rparr>) = ready u (s\<lparr>lv_svg := t, lv_list := ?m\<rparr>)"
    for p v x by (simp add: ready_def)
  ultimately show ?thesis
    using t g items buttons_shown by (simp add: on_update_def Let_def shown_def stats_statusUpdate_def)
qed

lemma share_ready:
  assumes "live_ok s" "updateGraph u (lv_data s) = Inr d" "distinct_update u" "statuses_listed d"
  shows "ready u (share d s)"
proof -
  have f: "fits d (lv_svg s)" "names_in u (lv_svg s)" and j: "jt_fits d (lv_jobs s)"
    using fits_update jt_fits_update assms by (auto simp: live_ok_def)
  have keys: "set (jt_keys [] (jt_nodes (list_share d (lv_jobs s)))) = set (data_keys [] d)" by (rule share_keys[OF j])
  have "names_in u (svg_share d (lv_svg s))"
    using fits_update[OF fits_share assms(2,3)] assms(1) by (auto simp: live_ok_def)
  moreover have "fst ` set (data_keys [] d) = fst ` set (data_keys [] (lv_data s))"
  proof -
    have "fst ` set (data_keys [] d) = fst ` set (jt_keys [] (jt_nodes (lv_jobs s)))"
      unfolding keys[symmetric] using share_fst[of "[]" d "lv_jobs s"] by (metis list.set_map)
    also have "\<dots> = fst ` set (data_keys [] (lv_data s))"
      using share_fst[of "[]" "lv_data s" "lv_jobs s"] share_keys[of "lv_data s" "lv_jobs s" "[]"] assms(1)
      unfolding live_ok_def by (metis list.set_map)
    finally show ?thesis .
  qed
  ultimately show ?thesis
    using assms(1,4) f j keys fits_share carries_share items_present[of "lv_data s" "lv_list s"]
    by (simp add: ready_def share_def share_fst live_ok_def)
qed

text \<open>One or two runs.\<close>

lemma runs_show:
  assumes "ready u s"
  shows "\<exists>s'. and_then (if again then on_update g c now css u s else Inr s) (on_update g c now css u) = Inr s' \<and>
    lv_data s' = lv_data s \<and> lv_jobs s' = lv_jobs s \<and> grows (lv_svg s) (lv_svg s') \<and> shown u s' \<and> ready u s'"
proof (cases again)
  case True
  obtain s1 where 1: "on_update g c now css u s = Inr s1" "lv_data s1 = lv_data s" "lv_jobs s1 = lv_jobs s"
    "grows (lv_svg s) (lv_svg s1)" "ready u s1" using on_update_shows[OF assms] by blast
  obtain s2 where 2: "on_update g c now css u s1 = Inr s2" "lv_data s2 = lv_data s1" "lv_jobs s2 = lv_jobs s1"
    "grows (lv_svg s1) (lv_svg s2)" "shown u s2" "ready u s2" using on_update_shows[OF 1(5)] by blast
  show ?thesis using True 1 2 grows_trans[OF 1(4) 2(4)] by auto
next
  case False
  then show ?thesis using on_update_shows[OF assms] by simp
qed

lemma answer_shows:
  assumes "live_ok s" "known (lv_data s) r" "T \<le> request_time (eattr (lv_data s))" "timed r" "statuses_listed r"
  shows "\<exists>s'. live_answer g c now css changed (ajaxFetchExecutableFlowUpdate T r) s = Inr s' \<and> agree (lv_data s') r \<and> live_ok s' \<and>
    boxes_show r (lv_svg s') \<and> items_show r (lv_list s') \<and> page_shows (eattr r) (lv_page s') \<and>
    sv_status (lv_stats s') = Some (e_status (eattr r))"
proof -
  let ?u = "ajaxFetchExecutableFlowUpdate T r"
  obtain d where d: "updateStatus_answer ?u (lv_data s) = Inr (d, [Trigger ''change:update''])" "agree d r"
    using receive_agrees[OF assms(2,3,4)] by blast
  then have u: "updateGraph ?u (lv_data s) = Inr d" by (auto simp: updateStatus_answer_def and_then_Inr_iff split: if_splits)
  have dist: "distinct_update ?u" using answer_distinct flow_behind_self assms(2) unfolding known_def by blast
  have "ready ?u (share d s)" by (rule share_ready[OF assms(1) u dist agree_listed[OF d(2) assms(5)]])
  from runs_show[OF this, of changed g c now css] obtain s' where
    s': "and_then (if changed then on_update g c now css ?u (share d s) else Inr (share d s)) (on_update g c now css ?u) = Inr s'"
    "lv_data s' = d" "lv_jobs s' = list_share d (lv_jobs s)" "grows (svg_share d (lv_svg s)) (lv_svg s')" "shown ?u s'" "ready ?u s'"
    unfolding share_def by auto
  have ok: "fits (lv_data s) (svg_share d (lv_svg s))" "boxes_show (lv_data s) (svg_share d (lv_svg s))" "fits d (lv_svg s)" "jt_fits d (lv_jobs s)"
    using assms(1) fits_share boxes_show_share fits_update[OF _ u dist] jt_fits_update[OF _ u dist] by (auto simp: live_ok_def)
  have boxes: "boxes_show d (lv_svg s')"
    using boxes_show_update[OF u dist ok(1,2) carries_share[OF ok(3)] s'(4)] s'(5) by (simp add: shown_def)
  then have "live_ok s'"
    using s' jt_fits_share[OF ok(4)] by (simp add: live_ok_def shown_def ready_def)
  then show ?thesis
    using s' d boxes agree_boxes[OF d(2)] agree_items[OF d(2)] agree_attr[OF d(2)] by (auto simp: live_answer_def shown_def)
qed

subsection \<open>The session\<close>

text \<open>
  The session of \<open>Polling\<close> with the whole page in place of the copy of the flow. The handlers run once or
  twice for an answer.
\<close>

record live_state =
  ls_page :: live
  ls_server :: enode
  ls_requests :: "int list"
  ls_answers :: "unode list"

definition reported :: "enode \<Rightarrow> bool" where
  "reported r \<longleftrightarrow> timed r \<and> statuses_listed r"

inductive live_step :: "live_state \<Rightarrow> live_state \<Rightarrow> bool" where
  live_work: "server_step (ls_server p) s \<Longrightarrow> statuses_listed s \<Longrightarrow> live_step p (p\<lparr>ls_server := s\<rparr>)"
| live_ask: "live_step p (p\<lparr>ls_requests := ls_requests p @ [request_time (eattr (lv_data (ls_page p)))]\<rparr>)"
| live_serve: "ls_requests p = T # Ts \<Longrightarrow>
    live_step p (p\<lparr>ls_requests := Ts, ls_answers := ls_answers p @ [ajaxFetchExecutableFlowUpdate T (ls_server p)]\<rparr>)"
| live_receive: "ls_answers p = u # us \<Longrightarrow> live_answer g c now css changed u (ls_page p) = Inr v \<Longrightarrow>
    live_step p (p\<lparr>ls_page := v, ls_answers := us\<rparr>)"

inductive live_run :: "live \<Rightarrow> enode \<Rightarrow> live_state \<Rightarrow> bool" for v s where
  live_start: "agree (lv_data v) s \<Longrightarrow> live_ok v \<Longrightarrow> reported s \<Longrightarrow>
    live_run v s \<lparr>ls_page = v, ls_server = s, ls_requests = [], ls_answers = []\<rparr>"
| live_next: "live_run v s p \<Longrightarrow> live_step p q \<Longrightarrow> live_run v s q"

definition live_inv :: "live_state \<Rightarrow> bool" where
  "live_inv p \<longleftrightarrow> live_ok (ls_page p) \<and> reported (ls_server p) \<and>
     chain reported (lv_data (ls_page p)) (ls_answers p) (ls_server p) \<and>
     (\<forall>T \<in> set (ls_requests p). T \<le> request_time (eattr (lv_data (ls_page p))))"

lemma live_step_inv: "live_step p q \<Longrightarrow> live_inv p \<Longrightarrow> live_inv q"
proof (induction rule: live_step.induct)
  case (live_work p s)
  then show ?case using chain_server by (auto simp: live_inv_def server_step_def reported_def)
next
  case (live_serve p T Ts)
  then show ?case using chain_serve by (auto simp: live_inv_def)
next
  case (live_receive p u us g c now css changed v)
  then obtain T r where r: "u = ajaxFetchExecutableFlowUpdate T r" "T \<le> request_time (eattr (lv_data (ls_page p)))" "timed r"
    "statuses_listed r" "known (lv_data (ls_page p)) r" "chain reported r us (ls_server p)" by (auto simp: live_inv_def reported_def)
  have "live_ok (ls_page p)" using live_receive.prems by (simp add: live_inv_def)
  from answer_shows[OF this r(5,2,3,4), of g c now css changed] live_receive.hyps(2)
  have a: "agree (lv_data v) r" "live_ok v" by (auto simp: r(1))
  have "request_time (eattr (lv_data (ls_page p))) \<le> request_time (eattr (lv_data v))" using r(5) agree_attr[OF a(1)] by (simp add: known_def)
  with live_receive.prems chain_agree[OF a(1) r(6)] a(2) show ?case by (fastforce simp: live_inv_def)
qed (auto simp: live_inv_def)

lemma live_run_inv: "live_run v s p \<Longrightarrow> live_inv p"
proof (induction rule: live_run.induct)
  case live_start
  then have "known (lv_data v) s" using agree_flow_behind agree_attr by (auto simp: known_def)
  with live_start show ?case by (simp add: live_inv_def)
qed (rule live_step_inv)


definition box_at :: "string \<Rightarrow> string \<Rightarrow> snode" where
  "box_at k st = SNode ((demo_sattr k 0)\<lparr>s_g := Some (blank_gel (''node '' @ st) ''nodebox'')\<rparr>) []"

definition demo_live :: live where
  "demo_live = \<lparr>lv_data = flow_at 20 (''READY'', 5) (''RUNNING'', 20), lv_page = blank_page,
     lv_svg = SNode (demo_sattr ''f'' 0) [box_at ''x'' ''READY'', box_at ''y'' ''RUNNING''],
     lv_jobs = JTree ''f'' ''flow'' (Fin 0) (Fin 0) ''RUNNING''
       [JTree ''x'' ''command'' (Fin 0) (Fin 0) ''READY'' [], JTree ''y'' ''command'' (Fin 0) (Fin 20) ''RUNNING'' []],
     lv_list = [(''x'', paint_li ''READY'' (new_li ''x'' ''command'' ''READY'')), (''y'', paint_li ''RUNNING'' (new_li ''y'' ''command'' ''RUNNING''))],
     lv_stats = stats_initialize, lv_rows = XNode demo_job []\<rparr>"

lemma box_at_shows: "box_shows ''READY'' (sattr (box_at k ''READY''))" "box_shows ''RUNNING'' (sattr (box_at k ''RUNNING''))"
  "good_g (sattr (box_at k ''READY''))" "good_g (sattr (box_at k ''RUNNING''))"
proof -
  have "class_words (Some ''node READY'') = [''node'', ''READY'']" "class_words (Some ''node RUNNING'') = [''node'', ''RUNNING'']" by code_simp+
  then show "box_shows ''READY'' (sattr (box_at k ''READY''))" "box_shows ''RUNNING'' (sattr (box_at k ''RUNNING''))"
    "good_g (sattr (box_at k ''READY''))" "good_g (sattr (box_at k ''RUNNING''))"
    by (simp_all add: box_shows_def box_at_def blank_gel_def statusList_def good_g_def svg_good_def)
qed

lemma box_at_root [simp]: "s_id (sattr (box_at k st)) = k" "snodes (box_at k st) = []" "s_g (sattr (box_at k st)) \<noteq> None"
  by (simp_all add: box_at_def demo_sattr_def)

lemma demo_live_ok: "live_ok demo_live"
proof -
  have leaf: "fits (node_at_time k st t []) (box_at k s2)" "boxes_show (node_at_time k st t []) (box_at k s2)"
    for k st t s2 by (simp_all add: fits.simps boxes_show.simps box_at_def node_at_time_def enode_ids_def svg_ids_def)
  have node: "e_id (eattr (node_at_time k st t [])) = k" "e_status (eattr (node_at_time k st t [])) = st" for k st t
    by (simp_all add: node_at_time_def)
  have data: "enodes (lv_data demo_live) = [node_at_time ''x'' ''READY'' 5 [], node_at_time ''y'' ''RUNNING'' 20 []]"
    by (simp add: demo_live_def flow_at_def node_at_time_def[of "''f''"])
  have "fits (lv_data demo_live) (lv_svg demo_live)" "boxes_show (lv_data demo_live) (lv_svg demo_live)"
    using leaf box_at_shows data node by (simp_all add: demo_live_def fits.simps boxes_show.simps enode_ids_def svg_ids_def)
  moreover have "jt_fits (lv_data demo_live) (lv_jobs demo_live)"
    using data node by (simp add: demo_live_def jt_fits.simps enode_ids_def) (simp add: node_at_time_def enode_ids_def)
  moreover have "distinct (map fst (jt_keys [] (jt_nodes (lv_jobs demo_live))))" by (simp add: demo_live_def)
  moreover have "items_show (lv_data demo_live) (lv_list demo_live)"
    by (simp add: items_show_def demo_live_def flow_at_def node_at_time_def data_keys.simps item_shows_def new_li_def paint_li_def statusList_def obj_get_def)
  ultimately show ?thesis by (simp add: live_ok_def)
qed

definition live_env :: env where
  "live_env = \<lparr>contextURL = ''/azkaban'', projectName = ''dw'', projectId = ''3'', flowId = ''f'', execId = ''12'', jobId = []\<rparr>"


end
