(* ===== verification/SelectFrame.thy ===== *)
theory SelectFrame
  imports LivePage
begin

text \<open>
  What expanding and collapsing embedded flows does to the marks of the graph: the layout moves, sorts and
  redraws nodes, but no box gains or loses the class \<open>selected\<close>.
\<close>

subsection \<open>Marks\<close>

definition selected_box :: "sattr \<Rightarrow> bool" where
  "selected_box a \<longleftrightarrow> (\<exists>g. s_g a = Some g \<and> ''selected'' \<in> set (class_words (g_class g)))"

text \<open>The box at a path of names; the path of the flow itself is empty.\<close>

fun marked :: "string list \<Rightarrow> snode \<Rightarrow> bool" where
  "marked [] n \<longleftrightarrow> selected_box (sattr n)"
| "marked (k # p) n \<longleftrightarrow> (\<exists>m \<in> set (snodes n). by_id k m \<and> marked p m)"

definition opened :: "sattr \<Rightarrow> bool" where
  "opened a \<longleftrightarrow> (\<exists>g. s_g a = Some g \<and> i_expanded g \<noteq> None)"

definition status_ok :: "sattr \<Rightarrow> bool" where
  "status_ok a \<longleftrightarrow> s_status a \<in> set statusList"

text \<open>Nodes have names of their own, and the boxes inside a flow are drawn when it is opened first.\<close>

fun graph_ok :: "snode \<Rightarrow> bool" where
  "graph_ok (SNode a ns) \<longleftrightarrow> distinct (svg_ids ns) \<and> good_g a \<and>
     (s_g a \<noteq> None \<and> \<not> opened a \<longrightarrow> undrawn (SNode a ns)) \<and>
     (\<forall>n \<in> set ns. status_ok (sattr n) \<and> (s_g (sattr n) = None \<longrightarrow> undrawn n) \<and> graph_ok n)"

definition alike :: "snode \<Rightarrow> snode \<Rightarrow> bool" where
  "alike n n' \<longleftrightarrow> s_id (sattr n') = s_id (sattr n) \<and> s_status (sattr n') = s_status (sattr n) \<and>
     (s_g (sattr n') = None \<longleftrightarrow> s_g (sattr n) = None) \<and> graph_ok n' \<and>
     (s_g (sattr n) = None \<and> undrawn n \<longrightarrow> undrawn n')"

definition keeps :: "snode \<Rightarrow> snode \<Rightarrow> bool" where
  "keeps n n' \<longleftrightarrow> alike n n' \<and> (\<forall>p. marked p n' \<longleftrightarrow> marked p n)"

lemma keeps_refl: "graph_ok n \<Longrightarrow> keeps n n"
  by (simp add: keeps_def alike_def)

lemma keeps_ok: "keeps n n' \<Longrightarrow> graph_ok n'"
  by (simp add: keeps_def alike_def)

lemma keeps_trans: "keeps n m \<Longrightarrow> keeps m k \<Longrightarrow> keeps n k"
  by (auto simp: keeps_def alike_def)

lemma undrawn_unmarked: "undrawn n \<Longrightarrow> p \<noteq> [] \<Longrightarrow> \<not> marked p n"
proof (induction p arbitrary: n)
  case (Cons k p)
  obtain a ns where n: "n = SNode a ns" by (cases n)
  show ?case
  proof (cases p)
    case Nil
    then show ?thesis using Cons.prems(1) by (auto simp: n selected_box_def)
  next
    case (Cons j q)
    then show ?thesis using Cons.IH Cons.prems(1) by (auto simp: n)
  qed
qed simp

text \<open>A change of the attributes of one node.\<close>

definition attr_keeps :: "sattr \<Rightarrow> sattr \<Rightarrow> bool" where
  "attr_keeps a b \<longleftrightarrow> s_id b = s_id a \<and> s_status b = s_status a \<and> (s_g b = None \<longleftrightarrow> s_g a = None) \<and>
     (selected_box b \<longleftrightarrow> selected_box a) \<and> (good_g a \<longrightarrow> good_g b) \<and> (opened a \<longrightarrow> opened b)"

lemma root_keeps:
  assumes "graph_ok (SNode a ns)" "attr_keeps a b"
  shows "keeps (SNode a ns) (SNode b ns)"
proof -
  have "marked p (SNode b ns) \<longleftrightarrow> marked p (SNode a ns)" for p
    using assms(2) by (cases p) (auto simp: attr_keeps_def)
  with assms show ?thesis by (auto simp: keeps_def alike_def attr_keeps_def)
qed

lemma upd_keeps: "graph_ok n \<Longrightarrow> attr_keeps (sattr n) (f (sattr n)) \<Longrightarrow> keeps n (upd_s f n)"
  by (cases n) (simp add: root_keeps)

lemma ex_set_nth: "(\<exists>m \<in> set xs. P m) \<longleftrightarrow> (\<exists>i < length xs. P (xs ! i))"
  unfolding Bex_def in_set_conv_nth by blast

text \<open>A change of the nodes inside a flow, in place or in their order.\<close>

lemma children_alike:
  assumes "graph_ok (SNode a ns)" "list_all2 alike ns ks"
  shows "alike (SNode a ns) (SNode a ks)"
proof -
  have k: "alike (ns ! i) (ks ! i)" if "i < length ns" for i using assms(2) that by (simp add: list_all2_conv_all_nth)
  have len: "length ks = length ns" using list_all2_lengthD[OF assms(2)] by simp
  have ids: "svg_ids ks = svg_ids ns" using k len by (auto simp: svg_ids_def alike_def intro!: nth_equalityI)
  have und: "undrawn (SNode a ks)" if "undrawn (SNode a ns)"
  proof -
    have "s_g (sattr (ks ! i)) = None \<and> undrawn (ks ! i)" if i: "i < length ns" for i
      using k[OF i] \<open>undrawn (SNode a ns)\<close> i by (auto simp: alike_def)
    then show ?thesis by (simp add: all_set_conv_all_nth len)
  qed
  have "status_ok (sattr (ks ! i)) \<and> (s_g (sattr (ks ! i)) = None \<longrightarrow> undrawn (ks ! i)) \<and> graph_ok (ks ! i)"
    if i: "i < length ns" for i
  proof -
    have "status_ok (sattr (ns ! i)) \<and> (s_g (sattr (ns ! i)) = None \<longrightarrow> undrawn (ns ! i))" using assms(1) i by simp
    with k[OF i] show ?thesis by (auto simp: alike_def status_ok_def)
  qed
  then have "\<forall>n \<in> set ks. status_ok (sattr n) \<and> (s_g (sattr n) = None \<longrightarrow> undrawn n) \<and> graph_ok n"
    by (simp add: all_set_conv_all_nth len)
  with assms(1) und have "graph_ok (SNode a ks)" unfolding graph_ok.simps ids by blast
  with und show ?thesis unfolding alike_def snode.sel by blast
qed

lemma children_keep:
  assumes "graph_ok (SNode a ns)" "list_all2 keeps ns ks"
  shows "keeps (SNode a ns) (SNode a ks)"
proof -
  have k: "keeps (ns ! i) (ks ! i)" if "i < length ns" for i using assms(2) that by (simp add: list_all2_conv_all_nth)
  have len: "length ks = length ns" using list_all2_lengthD[OF assms(2)] by simp
  have "marked p (SNode a ks) \<longleftrightarrow> marked p (SNode a ns)" for p
  proof (cases p)
    case (Cons j q)
    have "by_id j (ks ! i) \<and> marked q (ks ! i) \<longleftrightarrow> by_id j (ns ! i) \<and> marked q (ns ! i)" if "i < length ns" for i
      using k[OF that] by (auto simp: keeps_def alike_def by_id_def)
    then show ?thesis unfolding Cons by (simp add: ex_set_nth len cong: conj_cong)
  qed simp
  moreover have "list_all2 alike ns ks" using k len by (simp add: list_all2_conv_all_nth keeps_def)
  ultimately show ?thesis using children_alike[OF assms(1)] by (simp add: keeps_def)
qed

lemma permuted_keep:
  assumes "graph_ok (SNode a ns)" "mset ks = mset ns"
  shows "keeps (SNode a ns) (SNode a ks)"
proof -
  have s: "set ks = set ns" using assms(2) by (rule mset_eq_setD)
  have "mset (svg_ids ks) = mset (svg_ids ns)" using assms(2) by (simp add: svg_ids_def)
  then have "distinct (svg_ids ks) = distinct (svg_ids ns)" by (rule mset_eq_imp_distinct_iff)
  moreover have "marked p (SNode a ks) \<longleftrightarrow> marked p (SNode a ns)" for p by (cases p) (simp_all add: s)
  ultimately show ?thesis using assms(1) by (simp add: keeps_def alike_def s)
qed

text \<open>A change of the node at a path.\<close>

lemma upd_path_keeps:
  assumes "upd_path p f t = Inr t'" "graph_ok t" "\<And>n n'. graph_ok n \<Longrightarrow> f n = Inr n' \<Longrightarrow> keeps n n'"
  shows "keeps t t'"
  using assms(1,2)
proof (induction p arbitrary: t t')
  case Nil
  then show ?case using assms(3) by simp
next
  case (Cons k p)
  obtain a ns where t: "t = SNode a ns" by (cases t)
  obtain ks where ks: "map_result (\<lambda>n. if by_id k n then upd_path p f n else Inr n) ns = Inr ks" "t' = SNode a ks"
    using Cons.prems(1) by (auto simp: t and_then_Inr_iff split: if_splits)
  have "keeps (ns ! i) (ks ! i)" if i: "i < length ns" for i
  proof -
    have ok: "graph_ok (ns ! i)" using Cons.prems(2) i by (simp add: t)
    have "(if by_id k (ns ! i) then upd_path p f (ns ! i) else Inr (ns ! i)) = Inr (ks ! i)" using map_result_nth[OF ks(1) i] .
    then show ?thesis using Cons.IH[OF _ ok] keeps_refl[OF ok] by (cases "by_id k (ns ! i)") simp_all
  qed
  then have "list_all2 keeps ns ks" using map_result_length[OF ks(1)] by (simp add: list_all2_conv_all_nth)
  with Cons.prems(2) show ?case unfolding t ks(2) by (rule children_keep)
qed

subsection \<open>Layout\<close>

lemma upd_g_keeps: "(\<And>g. g_class (f g) = g_class g \<and> (i_expanded g \<noteq> None \<longrightarrow> i_expanded (f g) \<noteq> None)) \<Longrightarrow> attr_keeps a (upd_g f a)"
  by (auto simp: attr_keeps_def upd_g_def selected_box_def good_g_def opened_def)

lemma upd_inner_keeps:
  assumes "upd_inner f n = Inr n'" "graph_ok n"
    "\<And>g. g_class (f g) = g_class g \<and> (i_expanded g \<noteq> None \<longrightarrow> i_expanded (f g) \<noteq> None)"
  shows "keeps n n'"
  using assms(1) upd_keeps[where f = "upd_g f", OF assms(2) upd_g_keeps[OF assms(3)]] by (auto simp: upd_inner_def split: option.splits)

lemma plain_keeps: "s_id (f a) = s_id a \<Longrightarrow> s_status (f a) = s_status a \<Longrightarrow> s_g (f a) = s_g a \<Longrightarrow> attr_keeps a (f a)"
  by (simp add: attr_keeps_def selected_box_def good_g_def opened_def)

lemma edges_keep:
  assumes "graph_ok (SNode a ns)"
  shows "keeps (SNode a ns) (SNode (a\<lparr>s_edges := es\<rparr>) ns)"
  using assms by (rule root_keeps) (simp add: attr_keeps_def selected_box_def good_g_def opened_def)

lemma layout_expanded_keeps: "layoutExpandedFlowNode n = Inr n' \<Longrightarrow> graph_ok n \<Longrightarrow> keeps n n'"
proof -
  assume n: "layoutExpandedFlowNode n = Inr n'" "graph_ok n"
  then obtain b m where m: "upd_inner (\<lambda>g. g\<lparr>i_expanded := map_option (\<lambda>(shown, _).
         (shown, Some (translateStr (- minX b + Fin 10) (- minY b + Fin 30)))) (i_expanded g)\<rparr>) n = Inr m"
    "n' = upd_s (\<lambda>a. a\<lparr>s_height := bounds_height b + Fin 30 + Fin 5, s_width := bounds_width b + Fin 10 * Fin 2\<rparr>) m"
    by (auto simp: layoutExpandedFlowNode_def and_then_Inr_iff)
  have k: "keeps n m" by (rule upd_inner_keeps[OF m(1) n(2)]) simp
  then have "keeps m n'" unfolding m(2) by (intro upd_keeps plain_keeps) (simp_all add: keeps_def alike_def)
  with k show ?thesis by (rule keeps_trans)
qed

lemma animate_keeps: "animateExpandedFlowNode n = Inr n' \<Longrightarrow> graph_ok n \<Longrightarrow> keeps n n'"
  unfolding animateExpandedFlowNode_def by (drule (1) upd_inner_keeps) (auto intro: upd_inner_keeps)

lemma move_edges_keeps: "moveNodeEdges t = Inr t' \<Longrightarrow> graph_ok t \<Longrightarrow> keeps t t'"
proof -
  assume t: "moveNodeEdges t = Inr t'" "graph_ok t"
  obtain a ns where n: "t = SNode a ns" by (cases t)
  then obtain es where t': "t' = SNode (a\<lparr>s_edges := es\<rparr>) (moveNodes ns)"
    using t(1) by (auto simp: moveNodeEdges_def and_then_Inr_iff Let_def)
  have "keeps m (upd_s (\<lambda>a. upd_g (\<lambda>g. g\<lparr>g_trans := Some (translateStr (s_nx a) (s_ny a))\<rparr>) a) m)" if "m \<in> set ns" for m
    using t(2) that by (intro upd_keeps upd_g_keeps) (simp_all add: n)
  then have "list_all2 keeps ns (moveNodes ns)" by (simp add: moveNodes_def list_all2_conv_all_nth)
  then have k: "keeps t (SNode a (moveNodes ns))" using t(2) unfolding n by (intro children_keep)
  have "keeps (SNode a (moveNodes ns)) t'" unfolding t' by (rule edges_keep[OF keeps_ok[OF k]])
  with k show ?thesis by (rule keeps_trans)
qed

lemma assign_levels_length: "assign_levels fuel ns q lv = Inr lv' \<Longrightarrow> length lv' = length lv"
  by (induction fuel ns q lv rule: assign_levels.induct) simp_all

text \<open>The layout gives each node a level and a place and sorts the nodes by name.\<close>

definition placed_at :: "(string \<times> jsnum \<times> jsnum) list \<Rightarrow> jsnum option \<Rightarrow> sattr \<Rightarrow> sattr" where
  "placed_at pos l a = (case map_of pos (s_id a) of None \<Rightarrow> a\<lparr>s_level := l\<rparr> | Some (x, y) \<Rightarrow> a\<lparr>s_level := l, s_nx := x, s_ny := y\<rparr>)"

lemma placed_fields [simp]: "s_id (placed_at pos l a) = s_id a" "s_status (placed_at pos l a) = s_status a" "s_g (placed_at pos l a) = s_g a"
  by (auto simp: placed_at_def split: option.splits)

lemma relayout_shape:
  assumes "relayout fuel (SNode a ns) = Inr t'"
  obtains es pos lv where "length lv = length ns"
    "t' = SNode (a\<lparr>s_edges := es\<rparr>) (js_sort (\<lambda>a b. str_cmp (s_id (sattr a)) (s_id (sattr b))) (map2 (\<lambda>n l. upd_s (placed_at pos l) n) ns lv))"
proof -
  from assms show ?thesis
    unfolding relayout_def Let_def placed_at_def[symmetric] snode.sel and_then_Inr_iff
    by (auto simp: and_then_Inr_iff compute_levels_def dest!: assign_levels_length intro: that)
qed

lemma relayout_keeps: "relayout fuel t = Inr t' \<Longrightarrow> graph_ok t \<Longrightarrow> keeps t t'"
proof -
  assume t: "relayout fuel t = Inr t'" "graph_ok t"
  obtain a ns where n: "t = SNode a ns" by (cases t)
  obtain es pos lv where l: "length lv = length ns"
    "t' = SNode (a\<lparr>s_edges := es\<rparr>) (js_sort (\<lambda>a b. str_cmp (s_id (sattr a)) (s_id (sattr b))) (map2 (\<lambda>n l. upd_s (placed_at pos l) n) ns lv))"
    using t(1)[unfolded n] by (rule relayout_shape)
  define ks where "ks = map2 (\<lambda>n l. upd_s (placed_at pos l) n) ns lv"
  have "keeps m (upd_s (placed_at pos x) m)" if "m \<in> set ns" for m x
    using t(2) that by (intro upd_keeps plain_keeps) (simp_all add: n)
  then have "list_all2 keeps ns ks" using l(1) by (simp add: ks_def list_all2_conv_all_nth)
  then have k: "keeps t (SNode a ks)" using t(2) unfolding n by (intro children_keep)
  have e: "keeps (SNode a ks) (SNode (a\<lparr>s_edges := es\<rparr>) ks)" by (rule edges_keep[OF keeps_ok[OF k]])
  have "keeps (SNode (a\<lparr>s_edges := es\<rparr>) ks) t'"
    unfolding l(2) ks_def[symmetric] by (rule permuted_keep[OF keeps_ok[OF e]]) simp
  with k e show ?thesis using keeps_trans by blast
qed

lemma relayout_flow_keeps: "relayoutFlow fuel up t = Inr t' \<Longrightarrow> graph_ok t \<Longrightarrow> keeps t t'"
proof (induction fuel up t arbitrary: t' rule: relayoutFlow.induct)
  case (1 fuel t)
  then show ?case using layout_expanded_keeps keeps_refl by (auto split: if_splits)
next
  case (2 fuel k up t)
  obtain t1 t2 t3 t4 where s: "upd_path (rev (k # up)) (\<lambda>n. if s_expanded (sattr n) then layoutExpandedFlowNode n else Inr n) t = Inr t1"
    "upd_path (rev up) (relayout fuel) t1 = Inr t2" "relayoutFlow fuel up t2 = Inr t3" "upd_path (rev up) moveNodeEdges t3 = Inr t4"
    "upd_path (rev (k # up)) animateExpandedFlowNode t4 = Inr t'"
    using 2(2) unfolding relayoutFlow.simps and_then_Inr_iff by blast
  have "keeps n n'" if "graph_ok n" "(if s_expanded (sattr n) then layoutExpandedFlowNode n else Inr n) = Inr n'" for n n'
    using that layout_expanded_keeps keeps_refl by (cases "s_expanded (sattr n)") simp_all
  then have k1: "keeps t t1" by (rule upd_path_keeps[OF s(1) 2(3)])
  then have k2: "keeps t1 t2" by (intro upd_path_keeps[OF s(2)] relayout_keeps) (auto simp: keeps_def alike_def)
  then have k3: "keeps t2 t3" by (intro 2(1)[OF s(3)]) (auto simp: keeps_def alike_def)
  then have k4: "keeps t3 t4" by (intro upd_path_keeps[OF s(4)] move_edges_keeps) (auto simp: keeps_def alike_def)
  then have k5: "keeps t4 t'" by (intro upd_path_keeps[OF s(5)] animate_keeps) (auto simp: keeps_def alike_def)
  show ?case using keeps_trans k1 k2 k3 k4 k5 by blast
qed

subsection \<open>Drawing\<close>

definition fresh_box :: "sattr \<Rightarrow> bool" where
  "fresh_box a \<longleftrightarrow> status_ok a \<and> (\<exists>g. s_g a = Some g \<and> svg_good (g_class g) \<and>
     ''selected'' \<notin> set (class_words (g_class g)) \<and> i_expanded g = None)"

definition fresh_node :: "snode \<Rightarrow> bool" where
  "fresh_node n \<longleftrightarrow> fresh_box (sattr n) \<and> undrawn n \<and> graph_ok n"

lemma fresh_boxD: "fresh_node n \<Longrightarrow> fresh_box (sattr n)"
  by (simp add: fresh_node_def)

lemma fresh_upd: "fresh_node n \<Longrightarrow> fresh_box (f (sattr n)) \<Longrightarrow> fresh_node (upd_s f n)"
  by (cases n) (auto simp: fresh_node_def fresh_box_def good_g_def)

lemma fresh_unmarked: "fresh_node n \<Longrightarrow> \<not> marked p n"
  using undrawn_unmarked[of n p] by (cases "p = []") (auto simp: fresh_node_def fresh_box_def selected_box_def)

lemma draw_fresh:
  assumes "drawNode bbox a = Inr b" "status_ok a"
  shows "fresh_box b \<and> s_id b = s_id a"
proof -
  have "class_words (Some ''node jobnode'') = [''node'', ''jobnode'']" "class_words (Some ''node flownode'') = [''node'', ''flownode'']"
    by code_simp+
  with assms show ?thesis
    by (auto simp: drawNode_def drawFlowNode_def layoutFlowNode_def drawBoxNode_def blank_gel_def fresh_box_def svg_good_def status_ok_def
       Let_def split: if_splits prod.splits)
qed

lemma status_words: "st \<in> set statusList \<Longrightarrow> is_word st \<and> st \<noteq> ''selected''"
  using statusList_words by (auto simp: list_all_iff statusList_def)

lemma add_g_fields [simp]: "g_class (add_g c g) = svg_addClass (g_class g) c" "i_expanded (add_g c g) = i_expanded g"
  by (simp_all add: add_g_def)

lemma title_g_fields [simp]: "g_class (title_g c g) = g_class g" "i_expanded (title_g c g) = i_expanded g"
  by (simp_all add: title_g_def)

lemma add_fresh: "fresh_box a \<Longrightarrow> is_word c \<Longrightarrow> c \<noteq> ''selected'' \<Longrightarrow> fresh_box (upd_g (add_g c) a)"
  by (auto simp: fresh_box_def upd_g_def status_ok_def svg_cls.tokens_add svg_cls.good_add)

lemma title_fresh: "fresh_box a \<Longrightarrow> fresh_box (upd_g (title_g s) a)"
  by (auto simp: fresh_box_def upd_g_def status_ok_def)

lemma assign_fresh: "fresh_box a \<Longrightarrow> fresh_box (assign_status a)"
proof -
  assume a: "fresh_box a"
  let ?st = "if s_status a \<noteq> [] then s_status a else ''READY''"
  have "?st \<in> set statusList" using a by (auto simp: fresh_box_def status_ok_def statusList_def)
  from add_fresh[OF a] status_words[OF this] have "fresh_box (upd_g (add_g ?st) a)" by blast
  then show ?thesis
    using add_fresh[OF _ word_nodeDisabled] by (simp add: assign_status_def Let_def title_fresh)
qed

lemma move_fresh: "fresh_box a \<Longrightarrow> fresh_box (upd_g (\<lambda>g. g\<lparr>g_trans := x\<rparr>) a)"
  by (auto simp: fresh_box_def upd_g_def status_ok_def)

lemma placed_fresh: "fresh_box a \<Longrightarrow> fresh_box (placed_at pos l a)"
  by (simp add: fresh_box_def status_ok_def)

lemma svg_ids_upd: "(\<And>a. s_id (f a) = s_id a) \<Longrightarrow> svg_ids (map (upd_s f) ns) = svg_ids ns"
  by (simp add: svg_ids_def)

lemma svg_ids_assign: "s_id (assign_status a) = s_id a"
  by (simp add: assign_status_def Let_def upd_g_def)

text \<open>The boxes inside a flow that is opened for the first time.\<close>

lemma draw_nodes_fresh:
  assumes "map_result (\<lambda>n. and_then (drawNode bbox ((sattr n)\<lparr>s_label := s_id (sattr n)\<rparr>)) (\<lambda>a. Inr (SNode a (snodes n)))) ns = Inr ks"
    "graph_ok (SNode a ns)" "undrawn (SNode a ns)"
  shows "(\<forall>n \<in> set ks. fresh_node n) \<and> svg_ids ks = svg_ids ns"
proof -
  have "fresh_node (ks ! i) \<and> s_id (sattr (ks ! i)) = s_id (sattr (ns ! i))" if i: "i < length ns" for i
  proof -
    obtain b cs where n: "ns ! i = SNode b cs" by (cases "ns ! i")
    then obtain d where d: "drawNode bbox (b\<lparr>s_label := s_id b\<rparr>) = Inr d" "ks ! i = SNode d cs"
      using map_result_nth[OF assms(1) i] by (auto simp: and_then_Inr_iff)
    have ok: "status_ok b" "graph_ok (SNode b cs)" "undrawn (SNode b cs)"
      using assms(2,3) nth_mem[OF i] by (auto simp: n)
    then have f: "fresh_box d" "s_id d = s_id b" using draw_fresh[OF d(1)] by (simp_all add: status_ok_def)
    moreover have "good_g d" using f(1) by (auto simp: fresh_box_def good_g_def)
    ultimately show ?thesis using ok by (simp add: d(2) n fresh_node_def)
  qed
  then show ?thesis
    using map_result_length[OF assms(1)] by (auto simp: all_set_conv_all_nth svg_ids_def intro!: nth_equalityI)
qed

lemma render_fresh:
  assumes "renderGraph bbox fuel margin (SNode a ns) = Inr (t', b)" "graph_ok (SNode a ns)" "undrawn (SNode a ns)"
  shows "\<exists>es ks. t' = SNode (a\<lparr>s_edges := es\<rparr>) ks \<and> (\<forall>n \<in> set ks. fresh_node n) \<and> distinct (svg_ids ks)"
proof (cases "ns = []")
  case True
  then have "t' = SNode a []" using assms(1) by (simp add: renderGraph_def)
  then show ?thesis by (intro exI[of _ "s_edges a"] exI[of _ "[]"]) (simp add: svg_ids_def)
next
  case False
  then obtain n1 t2 es where s: "map_result (\<lambda>n. and_then (drawNode bbox ((sattr n)\<lparr>s_label := s_id (sattr n)\<rparr>)) (\<lambda>a. Inr (SNode a (snodes n)))) ns = Inr n1"
    "relayout fuel (SNode a n1) = Inr t2" "t' = svg_assignInitialStatus (SNode ((sattr t2)\<lparr>s_edges := es\<rparr>) (moveNodes (snodes t2)))"
    using assms(1) by (auto simp: renderGraph_def and_then_Inr_iff Let_def)
  have n1: "\<forall>n \<in> set n1. fresh_node n" "svg_ids n1 = svg_ids ns" using draw_nodes_fresh[OF s(1) assms(2,3)] by auto
  obtain es2 pos lv where l: "length lv = length n1"
    "t2 = SNode (a\<lparr>s_edges := es2\<rparr>) (js_sort (\<lambda>a b. str_cmp (s_id (sattr a)) (s_id (sattr b))) (map2 (\<lambda>n l. upd_s (placed_at pos l) n) n1 lv))"
    using s(2) by (rule relayout_shape)
  define n2 where "n2 = map2 (\<lambda>n l. upd_s (placed_at pos l) n) n1 lv"
  have "svg_ids n2 = svg_ids n1" using l(1) by (auto simp: svg_ids_def n2_def intro!: nth_equalityI)
  then have "distinct (svg_ids n2)" using n1(2) assms(2) by simp
  moreover have "mset (svg_ids (snodes t2)) = mset (svg_ids n2)" by (simp add: l(2) svg_ids_def n2_def[symmetric])
  ultimately have "distinct (svg_ids (snodes t2))" using mset_eq_imp_distinct_iff by blast
  moreover have "\<forall>n \<in> set (snodes t2). fresh_node n"
    using n1(1) by (auto simp: l(2) fresh_node_def dest: set_zip_leftD intro!: fresh_upd[unfolded fresh_node_def] placed_fresh)
  then have "\<forall>n \<in> set (snodes t'). fresh_node n"
    by (auto simp: s(3) svg_assignInitialStatus_def moveNodes_def intro!: fresh_upd assign_fresh move_fresh fresh_boxD)
  ultimately show ?thesis
    by (auto simp: s(3) l(2) svg_assignInitialStatus_def moveNodes_def svg_ids_def svg_ids_assign upd_g_def comp_def)
qed

subsection \<open>Opening and closing\<close>

lemma swap_fields [simp]: "g_class (swap_class c d g) = g_class g" "i_expanded (swap_class c d g) = i_expanded g"
  by (simp_all add: swap_class_def)

lemma opening_keeps:
  assumes "graph_ok (SNode a ns)" "undrawn (SNode a ns)" "s_g a = Some g" "\<forall>n \<in> set ks. fresh_node n" "distinct (svg_ids ks)"
    "s_id b = s_id a" "s_status b = s_status a" "s_g b = Some h" "g_class h = g_class g" "i_expanded h \<noteq> None"
  shows "keeps (SNode a ns) (SNode b ks)"
proof -
  have "marked p (SNode b ks) \<longleftrightarrow> marked p (SNode a ns)" for p
  proof (cases p)
    case Nil
    then show ?thesis using assms(3,8,9) by (simp add: selected_box_def)
  next
    case (Cons k q)
    have "\<not> marked (k # q) (SNode b ks)" using assms(4) fresh_unmarked by auto
    then show ?thesis unfolding Cons using undrawn_unmarked[OF assms(2)] by blast
  qed
  moreover have "good_g b" using assms(1,3,8,9) by (simp add: good_g_def)
  then have "graph_ok (SNode b ks)"
    using assms(4,5,8,10) by (auto simp: opened_def fresh_node_def fresh_box_def)
  ultimately show ?thesis using assms(3,6-8) by (simp add: keeps_def alike_def)
qed

lemma expand_node_keeps: "expand_node bbox fuel margin n = Inr n' \<Longrightarrow> graph_ok n \<Longrightarrow> keeps n n'"
proof -
  assume n: "expand_node bbox fuel margin n = Inr n'" "graph_ok n"
  obtain a ns where e: "n = SNode a ns" by (cases n)
  obtain g where g: "s_g a = Some g" using n(1) by (auto simp: e expand_node_def Let_def split: option.splits)
  let ?a = "a\<lparr>s_expanded := True\<rparr>"
  show "keeps n n'"
  proof (cases "i_expanded g")
    case None
    then have und: "undrawn (SNode a ns)" using n(2) g by (simp add: e opened_def)
    then have ok: "graph_ok (SNode ?a ns)" "undrawn (SNode ?a ns)" using n(2) g by (auto simp: e good_g_def opened_def)
    obtain m b m2 where s: "renderGraph bbox fuel margin (SNode ?a ns) = Inr (m, b)"
      "upd_inner (\<lambda>g. swap_class ''collapsed'' ''expanded'' (g\<lparr>i_expanded := Some (True, None)\<rparr>)) m = Inr m2"
      "n' = upd_s (\<lambda>a. a\<lparr>s_expandedW := s_width a, s_expandedH := s_height a\<rparr>) m2"
      using n(1) g None by (auto simp: e expand_node_def Let_def and_then_Inr_iff)
    obtain es ks where k: "m = SNode (?a\<lparr>s_edges := es\<rparr>) ks" "\<forall>n \<in> set ks. fresh_node n" "distinct (svg_ids ks)"
      using render_fresh[OF s(1) ok] by blast
    have "n' = SNode (sattr n') ks" "s_id (sattr n') = s_id a" "s_status (sattr n') = s_status a"
      "s_g (sattr n') = Some (swap_class ''collapsed'' ''expanded'' (g\<lparr>i_expanded := Some (True, None)\<rparr>))"
      using s(2) g by (auto simp: s(3) k(1) upd_inner_def upd_g_def)
    note r = this
    have "keeps (SNode a ns) (SNode (sattr n') ks)"
      by (rule opening_keeps[OF n(2)[unfolded e] und g k(2,3) r(2,3,4)]) simp_all
    then show ?thesis using r(1) e by simp
  next
    case (Some sh)
    obtain m where m: "upd_inner (\<lambda>g. swap_class ''collapsed'' ''expanded'' (g\<lparr>i_expanded := Some (True, snd sh)\<rparr>)) (SNode ?a ns) = Inr m"
      "n' = upd_s (\<lambda>a. a\<lparr>s_width := s_expandedW a, s_height := s_expandedH a\<rparr>) m"
      using n(1) g Some by (cases sh) (auto simp: e expand_node_def Let_def and_then_Inr_iff)
    have k1: "keeps n (SNode ?a ns)" using n(2) unfolding e by (rule root_keeps) (simp add: attr_keeps_def selected_box_def good_g_def opened_def)
    have k2: "keeps (SNode ?a ns) m" by (rule upd_inner_keeps[OF m(1) keeps_ok[OF k1]]) simp
    have "keeps m n'" unfolding m(2) by (intro upd_keeps plain_keeps) (simp_all add: keeps_ok[OF k2])
    with k1 k2 show ?thesis using keeps_trans by blast
  qed
qed

lemma collapse_node_keeps: "collapse_node n = Inr n' \<Longrightarrow> graph_ok n \<Longrightarrow> keeps n n'"
proof -
  assume n: "collapse_node n = Inr n'" "graph_ok n"
  let ?n = "upd_s (\<lambda>a. a\<lparr>s_expanded := False\<rparr>) n"
  have k1: "keeps n ?n" using n(2) by (rule upd_keeps) (simp add: attr_keeps_def selected_box_def good_g_def opened_def)
  obtain m where m: "upd_inner (\<lambda>g. swap_class ''expanded'' ''collapsed'' (g\<lparr>i_expanded := map_option (\<lambda>(_, tr). (False, tr)) (i_expanded g)\<rparr>)) ?n = Inr m"
    "n' = upd_s (\<lambda>a. a\<lparr>s_height := s_collapsedH a, s_width := s_collapsedW a\<rparr>) m"
    using n(1) by (auto simp: collapse_node_def Let_def and_then_Inr_iff)
  have k2: "keeps ?n m" by (rule upd_inner_keeps[OF m(1) keeps_ok[OF k1]]) simp
  have "keeps m n'" unfolding m(2) by (intro upd_keeps plain_keeps) (simp_all add: keeps_ok[OF k2])
  with k1 k2 show ?thesis using keeps_trans by blast
qed

text \<open>The view.\<close>

definition view_keeps :: "svg_view \<Rightarrow> svg_view \<Rightarrow> bool" where
  "view_keeps v w \<longleftrightarrow> keeps (v_data v) (v_data w) \<and> v_selected w = v_selected v \<and> v_autoPanZoom w = v_autoPanZoom v"

lemma view_keeps_trans: "view_keeps v w \<Longrightarrow> view_keeps w x \<Longrightarrow> view_keeps v x"
  using keeps_trans by (auto simp: view_keeps_def)

lemma refresh_fields: "refresh_bounds v = Inr w \<Longrightarrow> v_data w = v_data v \<and> v_selected w = v_selected v \<and> v_autoPanZoom w = v_autoPanZoom v"
  by (auto simp: refresh_bounds_def and_then_Inr_iff)

lemma expandFlow_keeps: "expandFlow bbox fuel p v = Inr w \<Longrightarrow> graph_ok (v_data v) \<Longrightarrow> view_keeps v w"
proof -
  assume v: "expandFlow bbox fuel p v = Inr w" "graph_ok (v_data v)"
  obtain t t2 where s: "upd_path p (expand_node bbox fuel (v_margin v)) (v_data v) = Inr t" "relayoutFlow fuel (rev p) t = Inr t2"
    "refresh_bounds (v\<lparr>v_data := t2\<rparr>) = Inr w" using v(1) by (auto simp: expandFlow_def and_then_Inr_iff)
  have k: "keeps (v_data v) t" using s(1) v(2) expand_node_keeps by (rule upd_path_keeps)
  have "keeps t t2" using s(2) keeps_ok[OF k] by (rule relayout_flow_keeps)
  with k show ?thesis using keeps_trans refresh_fields[OF s(3)] by (auto simp: view_keeps_def)
qed

lemma collapseFlow_keeps: "collapseFlow fuel p v = Inr w \<Longrightarrow> graph_ok (v_data v) \<Longrightarrow> view_keeps v w"
proof -
  assume v: "collapseFlow fuel p v = Inr w" "graph_ok (v_data v)"
  obtain t t2 where s: "upd_path p collapse_node (v_data v) = Inr t" "relayoutFlow fuel (rev p) t = Inr t2"
    "refresh_bounds (v\<lparr>v_data := t2\<rparr>) = Inr w" using v(1) by (auto simp: collapseFlow_def and_then_Inr_iff)
  have k: "keeps (v_data v) t" using s(1) v(2) collapse_node_keeps by (rule upd_path_keeps)
  have "keeps t t2" using s(2) keeps_ok[OF k] by (rule relayout_flow_keeps)
  with k show ?thesis using keeps_trans refresh_fields[OF s(3)] by (auto simp: view_keeps_def)
qed

lemma propagate_keeps: "propagateExpansion bbox fuel outer p v = Inr w \<Longrightarrow> graph_ok (v_data v) \<Longrightarrow> view_keeps v w"
proof (induction bbox fuel outer p v arbitrary: w rule: propagateExpansion.induct)
  case (3 bbox fuel outer k k' p v)
  obtain x where x: "expandFlow bbox fuel (outer @ [k]) v = Inr x" "propagateExpansion bbox fuel (outer @ [k]) (k' # p) x = Inr w"
    using 3(2) by (auto simp: and_then_Inr_iff)
  have k: "view_keeps v x" using x(1) 3(3) by (rule expandFlow_keeps)
  then have "graph_ok (v_data x)" using keeps_ok by (auto simp: view_keeps_def)
  from view_keeps_trans[OF k 3(1)[OF x(2) this]] show ?case .
qed (simp_all add: view_keeps_def keeps_refl)

end
