(* ===== verification/SelectSync.thy ===== *)
theory SelectSync
  imports SelectFrame
begin

text \<open>
  The selection is shared by the graph and the list of jobs: a click in either view changes the model, and
  both views listen to the change. The theory composes the two handlers and shows that the views agree.
\<close>

subsection \<open>The two views\<close>

text \<open>The name under which the list has the node at a path.\<close>

fun path_key :: "string list \<Rightarrow> string" where
  "path_key [] = []"
| "path_key [k] = k"
| "path_key (k # k' # p) = k @ '':'' @ path_key (k' # p)"

record selection =
  sl_view :: svg_view
  sl_list :: "li jsobj"

text \<open>
  The event \<open>change:selected\<close> is caused only by a change; the graph was made before the list, so its
  handler runs first, and the list is not reached if it throws.
\<close>

definition set_selected ::
  "(string list \<Rightarrow> rat \<times> rat) \<Rightarrow> nat \<Rightarrow> (string list \<Rightarrow> jsnum \<times> jsnum) \<Rightarrow> string list option \<Rightarrow> selection \<Rightarrow> selection result" where
  "set_selected bbox fuel ctm new s =
     (let old = v_selected (sl_view s) in
      if new = old then Inr s
      else and_then (changeSelected bbox fuel ctm old ((sl_view s)\<lparr>v_selected := new\<rparr>)) (\<lambda>v.
        Inr \<lparr>sl_view = v, sl_list = handleSelectionChange (map_option path_key old) (map_option path_key new) (sl_list s)\<rparr>))"

definition click_node ::
  "(string list \<Rightarrow> rat \<times> rat) \<Rightarrow> nat \<Rightarrow> (string list \<Rightarrow> jsnum \<times> jsnum) \<Rightarrow> string list \<Rightarrow> selection \<Rightarrow> selection result" where
  "click_node bbox fuel ctm p s = set_selected bbox fuel ctm (v_selected (node_click p (sl_view s))) s"

definition click_item ::
  "(string list \<Rightarrow> rat \<times> rat) \<Rightarrow> nat \<Rightarrow> (string list \<Rightarrow> jsnum \<times> jsnum) \<Rightarrow> string list \<Rightarrow> selection \<Rightarrow> selection result" where
  "click_item bbox fuel ctm p s = set_selected bbox fuel ctm
     (map_option (\<lambda>_. p) (handleJobClick (path_key p) (map_option path_key (v_selected (sl_view s))))) s"

text \<open>
  A session: clicks in both views, opening and closing of embedded flows in the graph, updates of the statuses,
  filtering and opening in the list. A click is on a node that the list has; names have no colons.
\<close>

definition in_list :: "string list \<Rightarrow> selection \<Rightarrow> bool" where
  "in_list p s \<longleftrightarrow> p \<noteq> [] \<and> (\<forall>k \<in> set p. CHR '':'' \<notin> set k) \<and> obj_get (sl_list s) (path_key p) \<noteq> None"

inductive sel_step :: "selection \<Rightarrow> selection \<Rightarrow> bool" where
  sel_node: "in_list p s \<Longrightarrow> click_node bbox fuel ctm p s = Inr s' \<Longrightarrow> sel_step s s'"
| sel_item: "in_list p s \<Longrightarrow> click_item bbox fuel ctm p s = Inr s' \<Longrightarrow> sel_step s s'"
| sel_expand: "expandFlow bbox fuel p (sl_view s) = Inr v \<Longrightarrow> sel_step s (s\<lparr>sl_view := v\<rparr>)"
| sel_collapse: "collapseFlow fuel p (sl_view s) = Inr v \<Longrightarrow> sel_step s (s\<lparr>sl_view := v\<rparr>)"
| sel_update: "statuses_listed d \<Longrightarrow> updateStatusChanges u (svg_share d (v_data (sl_view s))) = Inr t \<Longrightarrow>
    sel_step s (s\<lparr>sl_view := (sl_view s)\<lparr>v_data := t\<rparr>, sl_list := changeStatuses [] ns (sl_list s)\<rparr>)"
| sel_filter: "sel_step s (s\<lparr>sl_list := filterJobs flt (sl_list s)\<rparr>)"
| sel_toggle: "sel_step s (s\<lparr>sl_list := handleToggleMenuExpand key (sl_list s)\<rparr>)"

definition active :: "li jsobj \<Rightarrow> string \<Rightarrow> bool" where
  "active m k \<longleftrightarrow> (\<exists>l. obj_get m k = Some l \<and> li_active l)"

definition unselected :: "selection \<Rightarrow> bool" where
  "unselected s \<longleftrightarrow> v_selected (sl_view s) = None \<and> graph_ok (v_data (sl_view s)) \<and>
     (\<forall>p. \<not> marked p (v_data (sl_view s))) \<and> (\<forall>k. \<not> active (sl_list s) k)"

inductive sel_run :: "selection \<Rightarrow> selection \<Rightarrow> bool" for s where
  sel_start: "unselected s \<Longrightarrow> sel_run s s"
| sel_next: "sel_run s s1 \<Longrightarrow> sel_step s1 s2 \<Longrightarrow> sel_run s s2"

subsection \<open>Names\<close>

lemma split_name:
  assumes "CHR '':'' \<notin> set k" "CHR '':'' \<notin> set j"
  shows "k @ '':'' @ x = j @ '':'' @ y \<longleftrightarrow> k = j \<and> x = y" "k @ '':'' @ x \<noteq> j" "k \<noteq> j @ '':'' @ y"
proof -
  have tw: "takeWhile (\<lambda>c. c \<noteq> CHR '':'') (i @ '':'' @ z) = i" if "CHR '':'' \<notin> set i" for i z
    using that by (subst takeWhile_append2) auto
  show "k @ '':'' @ x = j @ '':'' @ y \<longleftrightarrow> k = j \<and> x = y" using tw[OF assms(1), of x] tw[OF assms(2), of y] by auto
qed (use assms in auto)

lemma path_key_inj:
  "path_key p = path_key q \<Longrightarrow> p \<noteq> [] \<Longrightarrow> q \<noteq> [] \<Longrightarrow> \<forall>k \<in> set p \<union> set q. CHR '':'' \<notin> set k \<Longrightarrow> p = q"
proof (induction p arbitrary: q rule: path_key.induct)
  case (2 k)
  then show ?case using split_name(3)[of k] by (cases q rule: path_key.cases) auto
next
  case (3 k k' p)
  show ?case
  proof (cases q rule: path_key.cases)
    case (2 j)
    then show ?thesis using 3(2,5) split_name(2)[of k j] by auto
  next
    case (3 j j' r)
    then show ?thesis using "3.prems" "3.IH"[of "j' # r"] split_name(1)[of k j] by auto
  qed (use 3(4) in simp)
qed simp

subsection \<open>The list\<close>

lemma upd_li_active: "(\<And>l. li_active (f l) = li_active l) \<Longrightarrow> active (upd_li k f m) j = active m j"
  by (auto simp: active_def upd_li_get)

lemma foldl_active: "(\<And>m x j. active (f m x) j = active m j) \<Longrightarrow> active (foldl f m xs) j = active m j"
  by (induction xs arbitrary: m) simp_all

lemma menu_active: "active (handleMenuExpand k m) j = active m j" "active (handleMenuCollapse k m) j = active m j"
  by (simp_all add: handleMenuExpand_def handleMenuCollapse_def upd_li_active)

lemma toggle_active: "active (handleToggleMenuExpand k m) j = active m j"
  by (simp add: handleToggleMenuExpand_def menu_active split: option.splits)

lemma propagate_active: "active (list_propagateExpansion k m) j = active m j"
  unfolding list_propagateExpansion_def by (rule foldl_active) (rule menu_active)

lemma filter_step_active: "active (filter_step flt m k) j = active m j"
  by (simp add: filter_step_def Let_def upd_li_active foldl_active split: option.splits)

lemma filter_active: "active (filterJobs flt m) j = active m j"
proof -
  have "active (hideAll m) j = active m j" "active (unfilterAll m) j = active m j"
    by (auto simp: active_def hideAll_def unfilterAll_def map_get show_plain_def)
  then show ?thesis by (simp add: filterJobs_def foldl_active filter_step_active)
qed

lemma statuses_active: "active (changeStatuses prefix ns m) j = active m j"
proof -
  have "active (upd_li k (paint_li st) m) j = active m j" for k st m j by (rule upd_li_active) (simp add: paint_li_def)
  then show ?thesis unfolding changeStatuses_keys by (intro foldl_active) (simp split: prod.split)
qed

lemma set_active: "active (upd_li k (\<lambda>l. l\<lparr>li_active := b\<rparr>) m) j = (if j = k then b \<and> obj_get m k \<noteq> None else active m j)"
  by (auto simp: active_def upd_li_get)

lemma selection_active:
  assumes "old \<noteq> new"
  shows "active (handleSelectionChange old new m) j \<longleftrightarrow> (if new = Some j then obj_get m j \<noteq> None else active m j \<and> old \<noteq> Some j)"
  using assms by (cases old; cases new) (auto simp: handleSelectionChange_def Let_def propagate_active set_active upd_li_get)

subsection \<open>The graph\<close>

lemma upd_inner_marks:
  assumes "upd_inner f n = Inr n'" "graph_ok n"
    "\<And>g. svg_good (g_class g) \<Longrightarrow> svg_good (g_class (f g)) \<and> (''selected'' \<in> set (class_words (g_class (f g))) \<longleftrightarrow> b) \<and> i_expanded (f g) = i_expanded g"
  shows "alike n n' \<and> (\<forall>q. marked q n' \<longleftrightarrow> (if q = [] then b else marked q n))"
proof -
  obtain a ns where n: "n = SNode a ns" by (cases n)
  obtain g where g: "s_g a = Some g" "n' = SNode (upd_g f a) ns" using assms(1) by (auto simp: n upd_inner_def split: option.splits)
  have "svg_good (g_class g)" using assms(2) g(1) by (simp add: n good_g_def)
  note f = assms(3)[OF this]
  have "marked q n' \<longleftrightarrow> (if q = [] then b else marked q n)" for q
    using f g by (cases q) (auto simp: n selected_box_def upd_g_def)
  moreover have "alike n n'" using assms(2) f g(1) unfolding g(2) n by (auto simp: alike_def upd_g_def good_g_def opened_def)
  ultimately show ?thesis by blast
qed

lemma upd_path_marks:
  assumes "upd_path p (upd_inner f) t = Inr t'" "graph_ok t"
    "\<And>g. svg_good (g_class g) \<Longrightarrow> svg_good (g_class (f g)) \<and> (''selected'' \<in> set (class_words (g_class (f g))) \<longleftrightarrow> b) \<and> i_expanded (f g) = i_expanded g"
  shows "alike t t' \<and> (\<forall>q. marked q t' \<longleftrightarrow> (if q = p then b else marked q t))"
  using assms(1,2)
proof (induction p arbitrary: t t')
  case Nil
  then show ?case using upd_inner_marks[of f t t' b] assms(3) by simp
next
  case (Cons k p)
  obtain a ns where t: "t = SNode a ns" by (cases t)
  obtain ks where ks: "map_result (\<lambda>n. if by_id k n then upd_path p (upd_inner f) n else Inr n) ns = Inr ks" "t' = SNode a ks"
    and ex: "\<exists>n \<in> set ns. by_id k n"
    using Cons.prems(1) by (auto simp: t and_then_Inr_iff split: if_splits)
  have len: "length ks = length ns" by (rule map_result_length[OF ks(1)])
  have each: "alike (ns ! i) (ks ! i) \<and> (\<forall>q. marked q (ks ! i) \<longleftrightarrow> (if by_id k (ns ! i) \<and> q = p then b else marked q (ns ! i)))"
    if i: "i < length ns" for i
  proof -
    have ok: "graph_ok (ns ! i)" using Cons.prems(2) i by (simp add: t)
    have r: "(if by_id k (ns ! i) then upd_path p (upd_inner f) (ns ! i) else Inr (ns ! i)) = Inr (ks ! i)" using map_result_nth[OF ks(1) i] .
    show ?thesis
    proof (cases "by_id k (ns ! i)")
      case True
      then show ?thesis using Cons.IH[OF _ ok, of "ks ! i"] r by simp
    qed (use r keeps_refl[OF ok] in \<open>simp add: keeps_def\<close>)
  qed
  then have al: "alike t t'" using Cons.prems(2) children_alike[of a ns ks] len by (simp add: t ks(2) list_all2_conv_all_nth)
  have id: "by_id j (ks ! i) = by_id j (ns ! i)" if "i < length ns" for i j using each[OF that] by (simp add: alike_def by_id_def)
  have "marked (j # q) t' \<longleftrightarrow> (if j # q = k # p then b else marked (j # q) t)" for j q
  proof -
    have l: "marked (j # q) t' \<longleftrightarrow> (\<exists>i < length ns. by_id j (ns ! i) \<and> (if by_id k (ns ! i) \<and> q = p then b else marked q (ns ! i)))"
      using each id by (simp add: ks(2) ex_set_nth len cong: conj_cong)
    show ?thesis
    proof (cases "j # q = k # p")
      case True
      then show ?thesis using l ex by (auto simp: ex_set_nth)
    next
      case False
      then have "by_id j (ns ! i) \<and> (if by_id k (ns ! i) \<and> q = p then b else marked q (ns ! i)) \<longleftrightarrow> by_id j (ns ! i) \<and> marked q (ns ! i)" for i
        by (auto simp: by_id_def)
      then have "marked (j # q) t' = marked (j # q) t" using l by (simp add: t ex_set_nth)
      with False show ?thesis by (simp only: if_False)
    qed
  qed
  moreover have "marked [] t' = marked [] t" by (simp add: t ks(2))
  ultimately show ?case using al by (metis list.exhaust list.distinct(1))
qed

lemma word_selected: "is_word ''selected''"
  by (simp add: is_word_def js_ws_def)

lemma mark_selected_marks:
  assumes "mark_selected f p v = Inr w" "graph_ok (v_data v)" "f = add_g ''selected'' \<and> b \<or> f = rem_g ''selected'' \<and> \<not> b"
  shows "alike (v_data v) (v_data w) \<and> (\<forall>q. marked q (v_data w) \<longleftrightarrow> (if q = p then b else marked q (v_data v))) \<and>
    v_selected w = v_selected v"
proof -
  obtain t where t: "upd_path p (upd_inner f) (v_data v) = Inr t" "w = v\<lparr>v_data := t\<rparr>"
    using assms(1) by (auto simp: mark_selected_def and_then_Inr_iff)
  have "svg_good (g_class (f g)) \<and> (''selected'' \<in> set (class_words (g_class (f g))) \<longleftrightarrow> b) \<and> i_expanded (f g) = i_expanded g"
    if "svg_good (g_class g)" for g
    using assms(3) that svg_cls.tokens_add[OF that word_selected] svg_cls.good_add[OF that word_selected]
      svg_cls.tokens_rem[OF that word_selected] svg_cls.good_rem[OF that word_selected]
    by (auto simp: rem_g_def)
  from upd_path_marks[OF t(1) assms(2) this] show ?thesis by (simp add: t(2))
qed

lemma changeSelected_marks:
  assumes "changeSelected bbox fuel ctm old v = Inr w" "graph_ok (v_data v)"
  shows "alike (v_data v) (v_data w) \<and> v_selected w = v_selected v \<and>
    (\<forall>q. marked q (v_data w) \<longleftrightarrow> v_selected v = Some q \<or> marked q (v_data v) \<and> old \<noteq> Some q)"
proof -
  obtain v1 where v1: "(case old of None \<Rightarrow> Inr v | Some p \<Rightarrow> mark_selected (rem_g ''selected'') p v) = Inr v1"
    using assms(1) by (auto simp: changeSelected_def and_then_Inr_iff)
  have m1: "alike (v_data v) (v_data v1) \<and> v_selected v1 = v_selected v \<and>
      (\<forall>q. marked q (v_data v1) \<longleftrightarrow> marked q (v_data v) \<and> old \<noteq> Some q)"
  proof (cases old)
    case None
    then show ?thesis using v1 keeps_refl[OF assms(2)] by (simp add: keeps_def)
  next
    case (Some p)
    then show ?thesis using v1 mark_selected_marks[of "rem_g ''selected''" p v v1 False] assms(2) by auto
  qed
  show ?thesis
  proof (cases "v_selected v")
    case None
    then have "w = v1" using assms(1) v1 m1 by (simp add: changeSelected_def)
    with m1 None show ?thesis by simp
  next
    case (Some p)
    then obtain v2 v3 where v2: "propagateExpansion bbox fuel [] p v1 = Inr v2" and v3: "mark_selected (add_g ''selected'') p v2 = Inr v3"
      and w: "v_data w = v_data v3" "v_selected w = v_selected v3"
      using assms(1) v1 m1 by (auto simp: changeSelected_def and_then_Inr_iff centerNode_def panZoom_def split: if_splits option.splits)
    have k: "view_keeps v1 v2" using propagate_keeps[OF v2] m1 by (simp add: alike_def)
    then have "graph_ok (v_data v2)" using keeps_ok by (auto simp: view_keeps_def)
    from mark_selected_marks[OF v3 this, of True] k m1 Some w show ?thesis
      by (auto simp: view_keeps_def keeps_def alike_def)
  qed
qed

subsection \<open>The session\<close>

definition in_sync :: "selection \<Rightarrow> bool" where
  "in_sync s \<longleftrightarrow> graph_ok (v_data (sl_view s)) \<and>
     (\<forall>p. marked p (v_data (sl_view s)) \<longleftrightarrow> v_selected (sl_view s) = Some p) \<and>
     (\<forall>k. active (sl_list s) k \<longleftrightarrow> map_option path_key (v_selected (sl_view s)) = Some k) \<and>
     (\<forall>p. v_selected (sl_view s) = Some p \<longrightarrow> p \<noteq> [] \<and> (\<forall>k \<in> set p. CHR '':'' \<notin> set k))"

lemma set_selected_sync:
  assumes "set_selected bbox fuel ctm new s = Inr s'" "in_sync s" "\<And>p. new = Some p \<Longrightarrow> in_list p s"
  shows "in_sync s'"
proof (cases "new = v_selected (sl_view s)")
  case True
  with assms show ?thesis by (simp add: set_selected_def)
next
  case False
  let ?old = "v_selected (sl_view s)"
  obtain v where v: "changeSelected bbox fuel ctm ?old ((sl_view s)\<lparr>v_selected := new\<rparr>) = Inr v"
    "s' = \<lparr>sl_view = v, sl_list = handleSelectionChange (map_option path_key ?old) (map_option path_key new) (sl_list s)\<rparr>"
    using assms(1) False by (auto simp: set_selected_def Let_def and_then_Inr_iff)
  have g: "graph_ok (v_data ((sl_view s)\<lparr>v_selected := new\<rparr>))" using assms(2) by (simp add: in_sync_def)
  note c = changeSelected_marks[OF v(1) g]
  have names: "p \<noteq> [] \<and> (\<forall>k \<in> set p. CHR '':'' \<notin> set k)" if "?old = Some p \<or> new = Some p" for p
    using that assms(2,3) by (auto simp: in_sync_def in_list_def)
  have "map_option path_key ?old \<noteq> map_option path_key new"
  proof
    assume "map_option path_key ?old = map_option path_key new"
    then show False
      using False names path_key_inj[of "the ?old" "the new"] by (cases ?old; cases new) auto
  qed
  note l = selection_active[OF this]
  have "active (sl_list s') k \<longleftrightarrow> map_option path_key new = Some k" for k
    using assms(2,3) unfolding v(2) selection.simps l by (auto simp: in_sync_def in_list_def)
  with c assms(2) names show ?thesis by (auto simp: in_sync_def alike_def v(2))
qed

text \<open>An update paints boxes, it selects none.\<close>

lemma paint_keeps: "status_ok a \<Longrightarrow> good_g a \<Longrightarrow> attr_keeps a (paint_status a)"
proof -
  assume a: "status_ok a" "good_g a"
  have w: "is_word (s_status a)" "s_status a \<in> set statusList" "s_status a \<noteq> ''selected''" using a(1) status_words by (auto simp: status_ok_def)
  have "''selected'' \<notin> set statusList" by (simp add: statusList_def)
  then have "svg_good (svg_addClass (remove_statuses removeClass (g_class g)) (s_status a)) \<and>
      (''selected'' \<in> set (class_words (svg_addClass (remove_statuses removeClass (g_class g)) (s_status a))) \<longleftrightarrow>
       ''selected'' \<in> set (class_words (g_class g)))" if "s_g a = Some g" for g
    using svg_cls.painted[OF _ w(1), of "g_class g"] svg_cls.painted_good[OF _ w(1)] a(2) that w(3) by (auto simp: good_g_def)
  then show ?thesis
    using svg_cls.tokens_add[OF _ word_nodeDisabled] svg_cls.good_add[OF _ word_nodeDisabled]
    by (auto simp: attr_keeps_def paint_status_def Let_def selected_box_def good_g_def opened_def upd_g_def title_g_def add_g_def handleRemoveAllStatus_def)
qed

lemma update_keeps: "updateStatusChanges u t = Inr t' \<Longrightarrow> graph_ok t \<Longrightarrow> keeps t t'"
proof (induction u arbitrary: t t')
  case (UNode u us)
  obtain a ns where t: "t = SNode a ns" by (cases t)
  obtain ks where ks: "fold_result (\<lambda>ns m. if \<exists>n \<in> set ns. by_id (u_id (uattr m)) n
      then map_result (update_child m) ns else Inl TypeError) ns us = Inr ks" "t' = SNode a ks"
    using UNode.prems(1) unfolding t updateStatusChanges.simps update_child_def[symmetric] by (auto simp: and_then_Inr_iff)
  have "keeps (SNode a ns) (SNode a ks)"
    if "fold_result (\<lambda>ns m. if \<exists>n \<in> set ns. by_id (u_id (uattr m)) n
      then map_result (update_child m) ns else Inl TypeError) ns vs = Inr ks" "set vs \<subseteq> set us" "graph_ok (SNode a ns)" for vs ns ks
    using that
  proof (induction vs arbitrary: ns)
    case Nil
    then show ?case using keeps_refl by simp
  next
    case (Cons m vs)
    obtain n1 where n1: "map_result (update_child m) ns = Inr n1"
      "fold_result (\<lambda>ns m. if \<exists>n \<in> set ns. by_id (u_id (uattr m)) n
        then map_result (update_child m) ns else Inl TypeError) n1 vs = Inr ks"
      using Cons.prems(1) by (auto simp: and_then_Inr_iff split: if_splits)
    have "keeps n n'" if n: "n \<in> set ns" "update_child m n = Inr n'" for n n'
    proof (cases "by_id (u_id (uattr m)) n \<and> s_g (sattr n) \<noteq> None")
      case True
      have ok: "graph_ok n" "status_ok (sattr n)" using Cons.prems(3) n(1) by auto
      then have "good_g (sattr n)" by (cases n) simp
      then have k: "keeps n (upd_s paint_status n)" using ok by (intro upd_keeps paint_keeps)
      have "updateStatusChanges m (upd_s paint_status n) = Inr n'" using n(2) True by (simp add: update_child_def)
      then have "keeps (upd_s paint_status n) n'" using UNode.IH[of m] Cons.prems(2) keeps_ok[OF k] by simp
      with k show ?thesis by (rule keeps_trans)
    next
      case False
      then have "n' = n" using n(2) unfolding update_child_def if_not_P[OF False] by simp
      then show ?thesis using keeps_refl Cons.prems(3) n(1) by simp
    qed
    then have "list_all2 keeps ns n1"
      using map_result_nth[OF n1(1)] map_result_length[OF n1(1)] by (simp add: list_all2_conv_all_nth)
    then have k: "keeps (SNode a ns) (SNode a n1)" by (rule children_keep[OF Cons.prems(3)])
    with Cons.IH[OF n1(2) _ keeps_ok[OF k]] Cons.prems(2) show ?case using keeps_trans by auto
  qed
  from this[OF ks(1) order_refl] UNode.prems(2) show ?case by (simp add: t ks(2))
qed

lemma share_marks: "graph_ok t \<Longrightarrow> statuses_listed d \<Longrightarrow> graph_ok (svg_share d t) \<and> (\<forall>p. marked p (svg_share d t) \<longleftrightarrow> marked p t)"
proof (induction t arbitrary: d)
  case (SNode a ns)
  obtain b es where d: "d = ENode b es" by (cases d)
  have n: "graph_ok (share_node d n) \<and> status_ok (sattr (share_node d n)) \<and> (\<forall>p. marked p (share_node d n) \<longleftrightarrow> marked p n)"
    if n: "n \<in> set ns" for n
  proof (cases "partner es (s_id (sattr n))")
    case None
    then show ?thesis using SNode.prems(1) n by (simp add: share_node_def d)
  next
    case (Some e)
    then have e: "e \<in> set es" using partner_SomeD by blast
    then have "e_status (eattr e) \<in> set statusList" "statuses_listed e" using SNode.prems(2) by (simp_all add: d statuses_listed.simps)
    then show ?thesis using SNode.IH[OF n, of e] SNode.prems(1) n Some by (simp add: share_node_def d status_ok_def svg_share_root)
  qed
  have und: "undrawn (share_node d m) = undrawn m" for m by (simp add: share_node_def undrawn_share split: option.splits)
  have "marked p (svg_share d (SNode a ns)) \<longleftrightarrow> marked p (SNode a ns)" for p
    using n by (cases p) (auto simp: svg_share_eq selected_box_def by_id_def share_node_root)
  moreover have "graph_ok (svg_share d (SNode a ns))"
    using SNode.prems(1) n by (auto simp: svg_share_eq svg_ids_def share_node_root comp_def good_g_def opened_def und)
  ultimately show ?case by blast
qed

lemma keeps_sync:
  assumes "in_sync s" "keeps (v_data (sl_view s)) (v_data v)" "v_selected v = v_selected (sl_view s)" "\<And>k. active m k = active (sl_list s) k"
  shows "in_sync \<lparr>sl_view = v, sl_list = m\<rparr>"
  using assms by (simp add: in_sync_def keeps_def alike_def)

lemma sel_step_sync: "sel_step s s' \<Longrightarrow> in_sync s \<Longrightarrow> in_sync s'"
proof (induction rule: sel_step.induct)
  case (sel_node p s bbox fuel ctm s')
  then show ?case by (intro set_selected_sync[of bbox fuel ctm _ s s']) (auto simp: click_node_def node_click_def split: if_splits)
next
  case (sel_item p s bbox fuel ctm s')
  then show ?case by (intro set_selected_sync[of bbox fuel ctm _ s s']) (auto simp: click_item_def)
next
  case (sel_expand bbox fuel p s v)
  then show ?case using keeps_sync[of s v "sl_list s"] expandFlow_keeps by (cases s) (auto simp: view_keeps_def in_sync_def)
next
  case (sel_collapse fuel p s v)
  then show ?case using keeps_sync[of s v "sl_list s"] collapseFlow_keeps by (cases s) (auto simp: view_keeps_def in_sync_def)
next
  case (sel_update d u s t ns)
  have g: "graph_ok (v_data (sl_view s))" using sel_update.prems by (simp add: in_sync_def)
  note sh = share_marks[OF g sel_update.hyps(1)]
  have "keeps (svg_share d (v_data (sl_view s))) t" using update_keeps sel_update.hyps(2) sh by blast
  then show ?case using sel_update.prems sh by (simp add: in_sync_def keeps_def alike_def statuses_active)
next
  case (sel_filter s flt)
  then show ?case by (simp add: in_sync_def filter_active)
next
  case (sel_toggle s key)
  then show ?case by (simp add: in_sync_def toggle_active)
qed

lemma sel_run_sync: "sel_run s0 s \<Longrightarrow> in_sync s"
proof (induction rule: sel_run.induct)
  case sel_start
  then show ?case by (simp add: unselected_def in_sync_def)
next
  case (sel_next s1 s2)
  then show ?case using sel_step_sync by blast
qed

text \<open>
  C99. The two views agree about the selection: whatever is clicked in the graph and in the list, opened, closed,
  updated and filtered, a box of the graph has the class \<open>selected\<close> exactly if its node is the selected one, and
  the item of the list is active exactly if it is the item of that node.
\<close>

theorem selection_in_sync:
  assumes "sel_run s0 s"
  shows "(\<forall>p. marked p (v_data (sl_view s)) \<longleftrightarrow> v_selected (sl_view s) = Some p) \<and>
    (\<forall>k. active (sl_list s) k \<longleftrightarrow> (\<exists>p. v_selected (sl_view s) = Some p \<and> path_key p = k))"
  using sel_run_sync[OF assms] by (auto simp: in_sync_def)

definition demo_selection :: selection where
  "demo_selection = \<lparr>
     sl_view = \<lparr>v_data = SNode (demo_sattr [] 0) [drawn ''a'' False, drawn ''b'' False], v_bounds = None, v_margin = Fin 25,
       v_zooms = [], v_selected = None, v_autoPanZoom = False\<rparr>,
     sl_list = [(''a'', new_li ''a'' ''command'' ''READY''), (''b'', new_li ''b'' ''command'' ''READY'')]\<rparr>"

lemma demo_unselected: "unselected demo_selection"
proof -
  have c: "class_words (Some ''node jobnode'') = [''node'', ''jobnode'']" by code_simp
  have "marked p (drawn k False) = False" for p k
    using c by (cases p) (simp_all add: drawn_def selected_box_def blank_gel_def)
  then have "\<not> marked p (SNode (demo_sattr [] 0) [drawn ''a'' False, drawn ''b'' False])" for p
    by (cases p) (simp_all add: selected_box_def demo_sattr_def)
  moreover have "graph_ok (drawn k False) \<and> status_ok (sattr (drawn k False)) \<and> s_id (sattr (drawn k False)) = k \<and> undrawn (drawn k False)" for k
    using c by (simp add: drawn_def svg_ids_def good_g_def svg_good_def blank_gel_def status_ok_def demo_sattr_def statusList_def)
  then have "graph_ok (SNode (demo_sattr [] 0) [drawn ''a'' False, drawn ''b'' False])"
    by (simp add: svg_ids_def good_g_def demo_sattr_def)
  moreover have "\<not> active (sl_list demo_selection) k" for k
    by (auto simp: active_def demo_selection_def obj_get_def new_li_def split: if_splits)
  ultimately show ?thesis by (simp add: unselected_def demo_selection_def)
qed

theorem selection_in_sync_witness:
  "\<exists>s. click_node (\<lambda>_. (0, 0)) 9 (\<lambda>_. (Fin 0, Fin 0)) [''a''] demo_selection = Inr s \<and>
     marked [''a''] (v_data (sl_view s)) \<and> \<not> marked [''b''] (v_data (sl_view s)) \<and> active (sl_list s) ''a'' \<and> \<not> active (sl_list s) ''b''"
proof -
  obtain s where s: "click_node (\<lambda>_. (0, 0)) 9 (\<lambda>_. (Fin 0, Fin 0)) [''a''] demo_selection = Inr s" "v_selected (sl_view s) = Some [''a'']"
    by (simp add: click_node_def set_selected_def node_click_def demo_selection_def changeSelected_def mark_selected_def upd_inner_def
        drawn_def demo_sattr_def by_id_def Let_def)
  have "in_list [''a''] demo_selection" by (simp add: in_list_def demo_selection_def obj_get_def)
  from sel_node[OF this s(1)] have "sel_run demo_selection s" by (rule sel_next[OF sel_start[OF demo_unselected]])
  from selection_in_sync[OF this] have "marked p (v_data (sl_view s)) \<longleftrightarrow> p = [''a'']" "active (sl_list s) k \<longleftrightarrow> k = ''a''" for p k
    unfolding s(2) by auto
  with s(1) show ?thesis by (intro exI[of _ s]) simp
qed

end
