(* ===== verification/FlowDisable.thy ===== *)
theory FlowDisable
  imports FlowModel
begin

text \<open>
  The part of \<open>view/flow-execute-dialog.js\<close> that decides which jobs of a flow will run:
  \<open>assignInitialStatus\<close>, \<open>disableFinishedJobs\<close>, \<open>recurseTree\<close> with \<open>enableAll\<close> and
  \<open>disableAll\<close>, the \<open>touch\<close> operations of the context menu with the two unguarded recursions
  they use, \<open>showExecuteJob\<close> and \<open>gatherDisabledNodes\<close>, and the server's reading of the
  gathered list (\<open>ExecutorManager.applyDisabledJobs\<close>). The model holds the flow and the list
  of events triggered on it.
\<close>

subsection \<open>Marking nodes\<close>

definition set_disabled :: "bool \<Rightarrow> jnode \<Rightarrow> jnode" where
  "set_disabled d = upd_attr (\<lambda>a. a\<lparr>n_disabled := d\<rparr>)"

definition disable_at :: "bool \<Rightarrow> nat \<Rightarrow> jnode list \<Rightarrow> jnode list" where
  "disable_at d k ns = upd_at k (set_disabled d) ns"

text \<open>The nodes a node's \<open>inNodes\<close> and \<open>outNodes\<close> refer to, in the order of \<open>for in\<close>.\<close>

definition in_idx :: "jnode list \<Rightarrow> nat \<Rightarrow> nat list" where
  "in_idx ns i = (if i < length ns then map snd (or_empty (n_inNodes (attr (ns ! i)))) else [])"

definition out_idx :: "jnode list \<Rightarrow> nat \<Rightarrow> nat list" where
  "out_idx ns i = (if i < length ns then map snd (or_empty (n_outNodes (attr (ns ! i)))) else [])"

lemma set_disabled_sel [simp]:
  "attr (set_disabled d n) = (attr n)\<lparr>n_disabled := d\<rparr>" "nodes (set_disabled d n) = nodes n"
  by (simp_all add: set_disabled_def)

lemma length_disable_at [simp]: "length (disable_at d k ns) = length ns"
  by (simp add: disable_at_def)

lemma set_disabled_twice [simp]: "set_disabled d (set_disabled d n) = set_disabled d n"
  by (cases n) (simp add: set_disabled_def)

lemma disable_at_nth:
  "j < length ns \<Longrightarrow> disable_at d k ns ! j = (if j = k then set_disabled d (ns ! j) else ns ! j)"
  by (simp add: disable_at_def nth_upd_at)

lemma in_idx_disable_at [frame]: "in_idx (disable_at d k ns) = in_idx ns"
  by (rule ext) (simp add: in_idx_def disable_at_nth)

lemma out_idx_disable_at [frame]: "out_idx (disable_at d k ns) = out_idx ns"
  by (rule ext) (simp add: out_idx_def disable_at_nth)

text \<open>
  \<open>recurseAllAncestors\<close> and \<open>recurseAllDescendents\<close> on the node at position \<open>i\<close> of a
  flow: for each neighbour, set its flag and recurse.
\<close>

definition recurseAllAncestors :: "nat \<Rightarrow> nat \<Rightarrow> bool \<Rightarrow> jnode list \<Rightarrow> jnode list result" where
  "recurseAllAncestors fuel i disable ns = walk in_idx (disable_at disable) fuel i ns"

definition recurseAllDescendents :: "nat \<Rightarrow> nat \<Rightarrow> bool \<Rightarrow> jnode list \<Rightarrow> jnode list result" where
  "recurseAllDescendents fuel i disable ns = walk out_idx (disable_at disable) fuel i ns"

interpretation anc: graph_walk in_idx "disable_at d" length for d
  by unfold_locales (simp_all add: frame)

interpretation desc: graph_walk out_idx "disable_at d" length for d
  by unfold_locales (simp_all add: frame)

lemma disable_many_nth:
  "j < length ns \<Longrightarrow> foldl (\<lambda>g k. disable_at d k g) ns ks ! j =
     (if j \<in> set ks then set_disabled d (ns ! j) else ns ! j)"
  by (induction ks arbitrary: ns) (auto simp: disable_at_nth)

lemma length_disable_many [simp]: "length (foldl (\<lambda>g k. disable_at d k g) ns ks) = length ns"
  by (induction ks arbitrary: ns) auto

text \<open>A linked flow's references stay inside it, and \<open>outNodes\<close> is the converse of \<open>inNodes\<close>.\<close>

lemma linked_in_idx:
  assumes "linked (JNode a ns)" "distinct (node_ids ns)" "\<forall>n \<in> set ns. distinct (obj_keys (or_empty (n_inNodes (attr n))))"
  shows "k \<in> set (in_idx ns i) \<longleftrightarrow>
    i < length ns \<and> k < length ns \<and> n_id (attr (ns ! k)) \<in> set (in_names (attr (ns ! i)))"
proof (cases "i < length ns")
  case True
  have "k \<in> set (in_idx ns i) \<longleftrightarrow> (\<exists>p. in_get (map attr ns) i p = Some k)"
    using True assms(3) obj_values_get[of "or_empty (n_inNodes (attr (ns ! i)))" k]
    by (simp add: in_idx_def in_get_def)
  also have "\<dots> \<longleftrightarrow> (\<exists>p \<in> set (in_names (attr (ns ! i))). obj_get (node_map (node_ids ns)) p = Some k)"
    using assms(1) True by (auto simp: linked.simps Let_def)
  also have "\<dots> \<longleftrightarrow> k < length ns \<and> n_id (attr (ns ! k)) \<in> set (in_names (attr (ns ! i)))"
    using node_map_get[OF assms(2)] by (auto simp: node_ids_def)
  finally show ?thesis using True by simp
qed (simp add: in_idx_def)

subsection \<open>What the two recursions do\<close>

text \<open>The sample flow after \<open>addFlow\<close>, for the witnesses.\<close>

definition sample_added :: jnode where
  "sample_added = (case addFlow sample_flow of Inl e \<Rightarrow> sample_flow | Inr t \<Rightarrow> t)"

definition sample_nodes :: "jnode list" where
  "sample_nodes = nodes sample_added"

definition sample_root :: nattr where
  "sample_root = attr sample_added"

lemma sample_length: "length sample_nodes = 3"
  by code_simp

lemma sample_idx: "in_idx sample_nodes 0 = []" "in_idx sample_nodes 1 = [0]" "in_idx sample_nodes 2 = [1, 0]"
  "out_idx sample_nodes 0 = [1, 2]" "out_idx sample_nodes 1 = [2]" "out_idx sample_nodes 2 = []"
  by code_simp+

lemma less_3: "i < 3 \<longleftrightarrow> i = 0 \<or> i = 1 \<or> i = (2 :: nat)"
  by auto

lemma sample_idx_all:
  "k \<in> set (in_idx sample_nodes i) \<Longrightarrow> k < i" "k \<in> set (out_idx sample_nodes i) \<Longrightarrow> i < k \<and> k < 3"
proof -
  have "k \<in> set (in_idx sample_nodes i) \<or> k \<in> set (out_idx sample_nodes i) \<Longrightarrow> i < 3"
    by (auto simp: in_idx_def out_idx_def sample_length split: if_splits)
  then show "k \<in> set (in_idx sample_nodes i) \<Longrightarrow> k < i" "k \<in> set (out_idx sample_nodes i) \<Longrightarrow> i < k \<and> k < 3"
    using sample_idx by (auto simp: less_3)
qed

lemma sample_acyclic_in:
  "acyclic (arcs in_idx sample_nodes)"
  "\<forall>j < length sample_nodes. \<forall>k \<in> set (in_idx sample_nodes j). k < length sample_nodes"
  using acyclic_by_rank[of "arcs in_idx sample_nodes" "\<lambda>i. i"] sample_idx_all
  by (fastforce simp: arcs_def sample_length)+

lemma sample_acyclic_out:
  "acyclic (arcs out_idx sample_nodes)"
  "\<forall>j < length sample_nodes. \<forall>k \<in> set (out_idx sample_nodes j). k < length sample_nodes"
  using acyclic_by_rank[of "arcs out_idx sample_nodes" "\<lambda>i. 3 - i"] sample_idx_all
  by (fastforce simp: arcs_def sample_length)+

lemma ancestors_marked:
  assumes "acyclic (arcs in_idx ns)" "\<forall>j < length ns. \<forall>k \<in> set (in_idx ns j). k < length ns"
    "i < length ns"
  shows "\<exists>ks. recurseAllAncestors (length ns) i d ns = Inr (foldl (\<lambda>g k. disable_at d k g) ns ks) \<and>
    set ks = {j. (i, j) \<in> (arcs in_idx ns)\<^sup>+}"
proof -
  have "anc.bounded ns"
    using assms(2) by (auto simp: anc.bounded_def in_idx_def split: if_splits)
  from anc.walk_returns[OF assms(1) this assms(3), of d] show ?thesis
    by (simp add: recurseAllAncestors_def below_def)
qed

lemma descendents_marked:
  assumes "acyclic (arcs out_idx ns)" "\<forall>j < length ns. \<forall>k \<in> set (out_idx ns j). k < length ns"
    "i < length ns"
  shows "\<exists>ks. recurseAllDescendents (length ns) i d ns = Inr (foldl (\<lambda>g k. disable_at d k g) ns ks) \<and>
    set ks = {j. (i, j) \<in> (arcs out_idx ns)\<^sup>+}"
proof -
  have "desc.bounded ns"
    using assms(2) by (auto simp: desc.bounded_def out_idx_def split: if_splits)
  from desc.walk_returns[OF assms(1) this assms(3), of d] show ?thesis
    by (simp add: recurseAllDescendents_def below_def)
qed

text \<open>
  C19. On a flow without a cycle, disabling (or enabling) all ancestors returns, with recursion no
  deeper than the number of nodes, and changes the flag of exactly the nodes from which the node
  depends, directly or not; every other node, and everything else about these, is unchanged.
\<close>

theorem recurseAllAncestors_spec:
  assumes "acyclic (arcs in_idx ns)" "\<forall>j < length ns. \<forall>k \<in> set (in_idx ns j). k < length ns"
    "i < length ns"
  shows "\<exists>ns'. recurseAllAncestors (length ns) i d ns = Inr ns' \<and> length ns' = length ns \<and>
    (\<forall>j < length ns. ns' ! j = (if (i, j) \<in> (arcs in_idx ns)\<^sup>+ then set_disabled d (ns ! j) else ns ! j))"
  using ancestors_marked[OF assms, of d] by (auto simp: disable_many_nth)

lemma recurseAllAncestors_spec_witness:
  "\<exists>ns'. recurseAllAncestors 3 2 True sample_nodes = Inr ns' \<and> n_disabled (attr (ns' ! 0))"
proof -
  note w = recurseAllAncestors_spec[OF sample_acyclic_in, of 2 True, unfolded sample_length]
  have "(2, 0) \<in> (arcs in_idx sample_nodes)\<^sup>+" by (auto simp: arcs_def sample_idx)
  with w show ?thesis by (force simp: sample_idx)
qed

text \<open>The same for \<open>recurseAllDescendents\<close> and the nodes that depend on the node.\<close>

theorem recurseAllDescendents_spec:
  assumes "acyclic (arcs out_idx ns)" "\<forall>j < length ns. \<forall>k \<in> set (out_idx ns j). k < length ns"
    "i < length ns"
  shows "\<exists>ns'. recurseAllDescendents (length ns) i d ns = Inr ns' \<and> length ns' = length ns \<and>
    (\<forall>j < length ns. ns' ! j = (if (i, j) \<in> (arcs out_idx ns)\<^sup>+ then set_disabled d (ns ! j) else ns ! j))"
  using descendents_marked[OF assms, of d] by (auto simp: disable_many_nth)

lemma recurseAllDescendents_spec_witness:
  "\<exists>ns'. recurseAllDescendents 3 0 True sample_nodes = Inr ns' \<and> n_disabled (attr (ns' ! 2))"
proof -
  note w = recurseAllDescendents_spec[OF sample_acyclic_out, of 0 True, unfolded sample_length]
  have "(0, 2) \<in> (arcs out_idx sample_nodes)\<^sup>+" by (auto simp: arcs_def sample_idx)
  with w show ?thesis by (force simp: sample_idx)
qed

text \<open>
  C23. The recursion has no guard against a cycle: from a node that lies on one, or depends on one,
  it never returns, whatever the stack depth.
\<close>

theorem recurseAllAncestors_diverges_on_cycle:
  assumes "(i, c) \<in> (arcs in_idx ns)\<^sup>*" "(c, c) \<in> (arcs in_idx ns)\<^sup>+"
  shows "recurseAllAncestors fuel i d ns = Inl NoReturn"
  unfolding recurseAllAncestors_def
proof (rule anc.walk_diverges[where C = "{j. (j, c) \<in> (arcs in_idx ns)\<^sup>+}"])
  show "i \<in> {j. (j, c) \<in> (arcs in_idx ns)\<^sup>+}" using assms by simp
  fix j
  assume "j \<in> {j. (j, c) \<in> (arcs in_idx ns)\<^sup>+}"
  then have "(j, c) \<in> (arcs in_idx ns)\<^sup>+" by simp
  then obtain k where "(j, k) \<in> arcs in_idx ns" "(k, c) \<in> (arcs in_idx ns)\<^sup>*"
    by (meson tranclD)
  then have "k \<in> set (in_idx ns j)" "(k, c) \<in> (arcs in_idx ns)\<^sup>+"
    using rtrancl_trancl_trancl[OF _ assms(2), of k] by (simp_all add: arcs_def)
  then show "\<exists>k \<in> set (in_idx ns j). k \<in> {j. (j, c) \<in> (arcs in_idx ns)\<^sup>+}" by blast
qed

lemma recurseAllAncestors_diverges_witness:
  "recurseAllAncestors 50 0 True
     [JNode ((raw_attr ''a'' ''command'' (Some [''a'']))\<lparr>n_inNodes := Some [(''a'', 0)]\<rparr>) []] = Inl NoReturn"
  by (rule recurseAllAncestors_diverges_on_cycle[of 0 0])
    (auto simp: arcs_def in_idx_def or_empty_def raw_attr_def)

subsection \<open>The operations on the executable flow\<close>

text \<open>
  The state is the \<open>executableGraphModel\<close>: its \<open>data\<close> and the events triggered so far.
  The node a menu entry acts on is given by the path of positions of the embedded flows that lead
  to its flow and its position there.
\<close>

record exec_model =
  em_data :: jnode
  em_events :: "string list"

definition trigger :: "string \<Rightarrow> exec_model \<Rightarrow> exec_model" where
  "trigger ev m = m\<lparr>em_events := em_events m @ [ev]\<rparr>"

fun upd_flow :: "nat list \<Rightarrow> (jnode list \<Rightarrow> jnode list result) \<Rightarrow> jnode \<Rightarrow> jnode result" where
  "upd_flow [] f (JNode a ns) = and_then (f ns) (\<lambda>ns'. Inr (JNode a ns'))"
| "upd_flow (k # p) f (JNode a ns) =
     (if k < length ns
      then and_then (upd_flow p f (ns ! k)) (\<lambda>n'. Inr (JNode a (ns[k := n'])))
      else Inl TypeError)"

definition touch :: "nat list \<Rightarrow> (jnode list \<Rightarrow> jnode list result) \<Rightarrow> exec_model \<Rightarrow> exec_model result" where
  "touch path f m =
     and_then (upd_flow path f (em_data m)) (\<lambda>data.
       Inr (trigger ''change:disabled'' (m\<lparr>em_data := data\<rparr>)))"

definition touchNode :: "nat list \<Rightarrow> nat \<Rightarrow> bool \<Rightarrow> exec_model \<Rightarrow> exec_model result" where
  "touchNode path i disable = touch path (\<lambda>ns. Inr (disable_at disable i ns))"

definition touchParents :: "nat list \<Rightarrow> nat \<Rightarrow> bool \<Rightarrow> exec_model \<Rightarrow> exec_model result" where
  "touchParents path i disable =
     touch path (\<lambda>ns. Inr (foldl (\<lambda>ns k. disable_at disable k ns) ns (in_idx ns i)))"

definition touchChildren :: "nat list \<Rightarrow> nat \<Rightarrow> bool \<Rightarrow> exec_model \<Rightarrow> exec_model result" where
  "touchChildren path i disable =
     touch path (\<lambda>ns. Inr (foldl (\<lambda>ns k. disable_at disable k ns) ns (out_idx ns i)))"

definition touchAncestors :: "nat \<Rightarrow> nat list \<Rightarrow> nat \<Rightarrow> bool \<Rightarrow> exec_model \<Rightarrow> exec_model result" where
  "touchAncestors fuel path i disable = touch path (recurseAllAncestors fuel i disable)"

definition touchDescendents :: "nat \<Rightarrow> nat list \<Rightarrow> nat \<Rightarrow> bool \<Rightarrow> exec_model \<Rightarrow> exec_model result" where
  "touchDescendents fuel path i disable = touch path (recurseAllDescendents fuel i disable)"

text \<open>
  \<open>recurseTree\<close>. The recursive call passes two arguments of three, so that one level below the
  first the flag \<open>recurse\<close> is undefined, that is false.
\<close>

lemma size_upd_attr [simp]: "size (upd_attr f n) = size n"
  by (cases n) simp

lemma size_set_disabled [simp]: "size (set_disabled d n) = size n"
  by (simp add: set_disabled_def)

lemma size_node_mem [simp]: "n \<in> set ns \<Longrightarrow> size n < Suc (size_list size ns)"
  by (metis less_Suc_eq_le order_refl size_list_estimation')

function (sequential) recurseTree :: "jnode \<Rightarrow> bool \<Rightarrow> bool \<Rightarrow> jnode" where
  "recurseTree (JNode a ns) disabled recurse =
     JNode a (map (\<lambda>n. let n' = set_disabled disabled n in
       if is_flow (attr n') \<and> recurse then recurseTree n' disabled False else n') ns)"
  by pat_completeness auto
termination by (relation "measure (\<lambda>(n, _). size n)") auto

declare recurseTree.simps [simp del]

definition enableAll :: "exec_model \<Rightarrow> exec_model" where
  "enableAll m = trigger ''change:disabled'' (m\<lparr>em_data := recurseTree (em_data m) False False\<rparr>)"

definition disableAll :: "exec_model \<Rightarrow> exec_model" where
  "disableAll m = trigger ''change:disabled'' (m\<lparr>em_data := recurseTree (em_data m) True False\<rparr>)"

text \<open>\<open>disableFinishedJobs\<close>: what already ran is disabled, what was cancelled is ready again.\<close>

definition set_status :: "string \<Rightarrow> jnode \<Rightarrow> jnode" where
  "set_status st = upd_attr (\<lambda>a. a\<lparr>n_status := st\<rparr>)"

lemma set_status_sel [simp]:
  "attr (set_status st n) = (attr n)\<lparr>n_status := st\<rparr>" "nodes (set_status st n) = nodes n"
  "size (set_status st n) = size n"
  by (simp_all add: set_status_def)

function (sequential) disableFinishedJobs :: "jnode \<Rightarrow> jnode" where
  "disableFinishedJobs (JNode a ns) =
     JNode a (map (\<lambda>n. let st = n_status (attr n) in
       if st = ''DISABLED'' \<or> st = ''SKIPPED'' then set_disabled True (set_status ''READY'' n)
       else if st = ''SUCCEEDED'' \<or> st = ''RUNNING'' then set_disabled True n
       else if st = ''CANCELLED'' then set_status ''READY'' (set_disabled False n)
       else let n' = set_disabled False n in
         if is_flow (attr n') then disableFinishedJobs n' else n') ns)"
  by pat_completeness auto
termination by (relation "measure size") auto

declare disableFinishedJobs.simps [simp del]

text \<open>
  \<open>assignInitialStatus\<close>: the statuses of an earlier execution, by name, level by level. The
  status of a node is replaced by the earlier one even where that is undefined.
\<close>

definition find_status_node :: "jnode \<Rightarrow> string \<Rightarrow> jnode option" where
  "find_status_node statusData i =
     (case obj_get (n_nodeMap (attr statusData)) i of
        None \<Rightarrow> None
      | Some k \<Rightarrow> if k < length (nodes statusData) then Some (nodes statusData ! k) else None)"

function (sequential) assignInitialStatus :: "jnode \<Rightarrow> jnode \<Rightarrow> jnode" where
  "assignInitialStatus (JNode a ns) statusData =
     JNode a (map (\<lambda>n. case find_status_node statusData (n_id (attr n)) of
         None \<Rightarrow> n
       | Some sn \<Rightarrow> let n' = set_status (n_status (attr sn)) n in
           if is_flow (attr n') \<and> is_flow (attr sn) then assignInitialStatus n' sn else n') ns)"
  by pat_completeness auto
termination by (relation "measure (\<lambda>(n, _). size n)") auto

declare assignInitialStatus.simps [simp del]

text \<open>
  \<open>gatherDisabledNodes\<close>: the names of the disabled nodes, and for an enabled embedded flow with
  disabled jobs an object with its name and theirs.
\<close>

datatype gathered = Whole string | Part string "gathered list"

function (sequential) gatherDisabledNodes :: "jnode \<Rightarrow> gathered list" where
  "gatherDisabledNodes (JNode a ns) = concat (map (\<lambda>n.
     if n_disabled (attr n) then [Whole (n_id (attr n))]
     else if is_flow (attr n)
          then (let array = gatherDisabledNodes n in
                if array \<noteq> [] then [Part (n_id (attr n)) array] else [])
          else []) ns)"
  by pat_completeness auto
termination by (relation "measure size") auto

declare gatherDisabledNodes.simps [simp del]

subsection \<open>Enable All and Disable All\<close>

lemma disableAll_enableAll_gather:
  "gatherDisabledNodes (em_data (disableAll m)) = map (\<lambda>n. Whole (n_id (attr n))) (nodes (em_data m))"
  "gatherDisabledNodes (em_data (enableAll m)) = concat (map (\<lambda>n.
     if is_flow (attr n) \<and> gatherDisabledNodes n \<noteq> []
     then [Part (n_id (attr n)) (gatherDisabledNodes n)] else []) (nodes (em_data m)))"
proof -
  obtain a ns where d: "em_data m = JNode a ns" by (cases "em_data m")
  have root: "gatherDisabledNodes (set_disabled b n) = gatherDisabledNodes n" for b n
    by (cases n) (simp add: set_disabled_def gatherDisabledNodes.simps)
  show "gatherDisabledNodes (em_data (disableAll m)) = map (\<lambda>n. Whole (n_id (attr n))) (nodes (em_data m))"
    by (simp add: d disableAll_def trigger_def recurseTree.simps gatherDisabledNodes.simps Let_def)
      (induction ns, auto)
  show "gatherDisabledNodes (em_data (enableAll m)) = concat (map (\<lambda>n.
     if is_flow (attr n) \<and> gatherDisabledNodes n \<noteq> []
     then [Part (n_id (attr n)) (gatherDisabledNodes n)] else []) (nodes (em_data m)))"
    by (simp add: d enableAll_def trigger_def recurseTree.simps gatherDisabledNodes.simps Let_def root comp_def is_flow_def)
      (rule arg_cong[where f = concat], rule map_cong, simp_all add: root Let_def)
qed

text \<open>
  \<open>Disable All\<close> leaves every node of the top level disabled, so that the gathered list names
  them all; \<open>Enable All\<close> enables the top level only. Neither reaches into an embedded flow: what
  was disabled there is still gathered after \<open>Enable All\<close>.
\<close>

theorem enableAll_disableAll_gather:
  "gatherDisabledNodes (em_data (disableAll m)) = map (\<lambda>n. Whole (n_id (attr n))) (nodes (em_data m)) \<and>
   gatherDisabledNodes (em_data (enableAll m)) = concat (map (\<lambda>n.
     if is_flow (attr n) \<and> gatherDisabledNodes n \<noteq> []
     then [Part (n_id (attr n)) (gatherDisabledNodes n)] else []) (nodes (em_data m)))"
  by (intro conjI disableAll_enableAll_gather)

subsection \<open>Execute one job\<close>

text \<open>
  The graph part of \<open>showExecuteJob\<close>: disable all, enable the job and, with dependencies, its
  ancestors.
\<close>

definition enableOnlyJob :: "nat \<Rightarrow> string \<Rightarrow> bool \<Rightarrow> exec_model \<Rightarrow> exec_model result" where
  "enableOnlyJob fuel jobId withDep m =
     (let m1 = disableAll m in
      case obj_get (n_nodeMap (attr (em_data m1))) jobId of
        None \<Rightarrow> Inl TypeError
      | Some k \<Rightarrow>
          and_then (touchNode [] k False m1) (\<lambda>m2.
            if withDep
            then and_then (upd_flow [] (recurseAllAncestors fuel k False) (em_data m2)) (\<lambda>data.
                   Inr (m2\<lparr>em_data := data\<rparr>))
            else Inr m2))"

lemma disableAll_nodes: "nodes (em_data (disableAll m)) = map (set_disabled True) (nodes (em_data m))"
  by (cases "em_data m") (simp add: disableAll_def trigger_def recurseTree.simps)

lemma disableAll_attr [simp]: "attr (em_data (disableAll m)) = attr (em_data m)"
  by (cases "em_data m") (simp add: disableAll_def trigger_def recurseTree.simps)

lemma in_idx_map [frame]: "in_idx (map (set_disabled d) ns) = in_idx ns"
  by (rule ext) (simp add: in_idx_def)

text \<open>
  C20. "Execute job with dependencies" on an acyclic flow: afterwards exactly the job and the jobs it
  depends on, directly or not, are enabled at the top level (only the job, without dependencies).
\<close>

theorem enableOnlyJob_spec:
  assumes "acyclic (arcs in_idx ns)" "\<forall>j < length ns. \<forall>k \<in> set (in_idx ns j). k < length ns"
    "em_data m = JNode a ns" "obj_get (n_nodeMap a) jobId = Some i" "i < length ns"
  shows "\<exists>m'. enableOnlyJob (length ns) jobId withDep m = Inr m' \<and> length (nodes (em_data m')) = length ns \<and>
    (\<forall>j < length ns. n_disabled (attr (nodes (em_data m') ! j)) \<longleftrightarrow>
       \<not> (j = i \<or> withDep \<and> (i, j) \<in> (arcs in_idx ns)\<^sup>+))"
proof -
  obtain ns1 where ns1: "em_data (disableAll m) = JNode a ns1" "ns1 = map (set_disabled True) ns"
    using disableAll_nodes[of m] disableAll_attr[of m] assms(3) by (cases "em_data (disableAll m)") auto
  define ns2 where "ns2 = disable_at False i ns1"
  have ix: "in_idx ns2 = in_idx ns" and len: "length ns2 = length ns"
    by (simp_all add: ns2_def ns1 frame)
  have ar: "arcs in_idx ns2 = arcs in_idx ns" by (simp add: arcs_def ix)
  obtain ns' where ns': "recurseAllAncestors (length ns) i False ns2 = Inr ns'" "length ns' = length ns"
    "\<forall>j < length ns. ns' ! j = (if (i, j) \<in> (arcs in_idx ns)\<^sup>+ then set_disabled False (ns2 ! j) else ns2 ! j)"
    using ancestors_marked[of ns2 i False] assms(1,2,5) by (auto simp: ix ar len disable_many_nth)
  have flag: "n_disabled (attr (ns2 ! j)) \<longleftrightarrow> j \<noteq> i" if "j < length ns" for j
    using that by (simp add: ns2_def ns1(2) disable_at_nth)
  show ?thesis
  proof (cases withDep)
    case True
    then show ?thesis
      using ns' flag assms(4) ns1(1) unfolding enableOnlyJob_def touchNode_def touch_def
      by (auto simp: Let_def trigger_def ns2_def[symmetric])
  next
    case False
    then show ?thesis
      using flag assms(4) ns1(1) len unfolding enableOnlyJob_def touchNode_def touch_def
      by (auto simp: Let_def trigger_def ns2_def[symmetric])
  qed
qed

lemma enableOnlyJob_spec_witness:
  "\<exists>m'. enableOnlyJob 3 ''load'' True \<lparr>em_data = JNode sample_root sample_nodes, em_events = []\<rparr> = Inr m' \<and>
     n_disabled (attr (nodes (em_data m') ! 2)) \<and> \<not> n_disabled (attr (nodes (em_data m') ! 1))"
proof -
  have "obj_get (n_nodeMap sample_root) ''load'' = Some 1" by code_simp
  moreover have "(Suc 0, 2) \<notin> (arcs in_idx sample_nodes)\<^sup>+"
    using acyclicD_rank[of 1 2 "arcs in_idx sample_nodes" "\<lambda>j. j"] by (auto simp: arcs_def sample_idx_all)
  ultimately show ?thesis
    using enableOnlyJob_spec[OF sample_acyclic_in, of "\<lparr>em_data = JNode sample_root sample_nodes, em_events = []\<rparr>"
        sample_root "''load''" 1 True, unfolded sample_length] by force
qed

subsection \<open>The gathered list and the server\<close>

text \<open>
  \<open>ExecutorManager.applyDisabledJobs\<close>: a name sets the status of that node, an object recurses
  into that node if it is a flow.
\<close>

definition map_child :: "string \<Rightarrow> (jnode \<Rightarrow> jnode) \<Rightarrow> jnode list \<Rightarrow> jnode list" where
  "map_child i f ns = map (\<lambda>n. if n_id (attr n) = i then f n else n) ns"

fun applyDisabledJobs :: "gathered list \<Rightarrow> jnode \<Rightarrow> jnode" where
  "applyDisabledJobs [] t = t"
| "applyDisabledJobs (Whole i # gs) (JNode a ns) =
     applyDisabledJobs gs (JNode a (map_child i (set_status ''DISABLED'') ns))"
| "applyDisabledJobs (Part i sub # gs) (JNode a ns) =
     applyDisabledJobs gs (JNode a (map_child i
       (\<lambda>n. if is_flow (attr n) then applyDisabledJobs sub n else n) ns))"

text \<open>What the user selected, read off the flags: a disabled node does not run, an enabled flow runs
  its own enabled nodes.\<close>

function (sequential) selected_run :: "jnode \<Rightarrow> jnode" where
  "selected_run (JNode a ns) = JNode a (map (\<lambda>n.
     if n_disabled (attr n) then set_status ''DISABLED'' n
     else if is_flow (attr n) then selected_run n else n) ns)"
  by pat_completeness auto
termination by (relation "measure size") auto

fun unique_ids :: "jnode \<Rightarrow> bool" where
  "unique_ids (JNode a ns) \<longleftrightarrow> distinct (node_ids ns) \<and> (\<forall>n \<in> set ns. is_flow (attr n) \<longrightarrow> unique_ids n)"

declare selected_run.simps [simp del] unique_ids.simps [simp del]

lemma map_child_at:
  assumes "distinct (node_ids (ns1 @ n # ns2))" "node_ids ns1' = node_ids ns1"
  shows "map_child (n_id (attr n)) f (ns1' @ n # ns2) = ns1' @ f n # ns2"
proof -
  have "m \<in> set ns1' \<union> set ns2 \<Longrightarrow> n_id (attr m) \<noteq> n_id (attr n)" for m
    using assms(1) arg_cong[OF assms(2), of set] by (simp add: node_ids_def) (metis imageI)
  then show ?thesis by (auto simp: map_child_def intro!: map_idI)
qed

lemma selected_run_attr: "attr (selected_run n) = attr n"
  by (cases n) (simp add: selected_run.simps)

text \<open>What a node adds to the gathered list, and what the server then makes of the node.\<close>

definition gathered_of :: "jnode \<Rightarrow> gathered list" where
  "gathered_of n = (if n_disabled (attr n) then [Whole (n_id (attr n))]
     else if is_flow (attr n) \<and> gatherDisabledNodes n \<noteq> [] then [Part (n_id (attr n)) (gatherDisabledNodes n)] else [])"

definition run_of :: "jnode \<Rightarrow> jnode" where
  "run_of n = (if n_disabled (attr n) then set_status ''DISABLED'' n
     else if is_flow (attr n) then selected_run n else n)"

lemma gather_by_node: "gatherDisabledNodes (JNode a ns) = concat (map gathered_of ns)"
  by (auto simp: gatherDisabledNodes.simps gathered_of_def Let_def intro!: arg_cong[where f = concat])

lemma selected_by_node: "selected_run (JNode a ns) = JNode a (map run_of ns)"
  by (simp add: selected_run.simps run_of_def)

lemma run_of_ids: "node_ids (map run_of ns) = node_ids ns"
  by (auto simp: node_ids_def run_of_def selected_run_attr)

lemma apply_node:
  assumes d: "distinct (node_ids (ms1 @ n # ms2))"
    and sub: "is_flow (attr n) \<Longrightarrow> applyDisabledJobs (gatherDisabledNodes n) n = selected_run n"
  shows "applyDisabledJobs (gathered_of n @ gs) (JNode a (map run_of ms1 @ n # ms2)) =
    applyDisabledJobs gs (JNode a (map run_of (ms1 @ [n]) @ ms2))"
  using map_child_at[OF d run_of_ids] sub by (auto simp: gathered_of_def run_of_def)

lemma apply_level:
  assumes "distinct (node_ids (ms1 @ ms2))"
    "\<forall>n \<in> set ms2. is_flow (attr n) \<longrightarrow> applyDisabledJobs (gatherDisabledNodes n) n = selected_run n"
  shows "applyDisabledJobs (concat (map gathered_of ms2)) (JNode a (map run_of ms1 @ ms2)) =
    JNode a (map run_of (ms1 @ ms2))"
  using assms
proof (induction ms2 arbitrary: ms1)
  case (Cons n ms2)
  then show ?case using apply_node[OF Cons.prems(1)] Cons.IH[of "ms1 @ [n]"] by simp
qed simp



subsection \<open>Re-executing an earlier run\<close>

text \<open>The jobs a re-execution leaves out, read off the statuses of the earlier run.\<close>

definition finished_status :: "string \<Rightarrow> bool" where
  "finished_status st \<longleftrightarrow> st \<in> {''DISABLED'', ''SKIPPED'', ''SUCCEEDED'', ''RUNNING''}"

function (sequential) finished_jobs :: "jnode \<Rightarrow> gathered list" where
  "finished_jobs (JNode a ns) = concat (map (\<lambda>n.
     if finished_status (n_status (attr n)) then [Whole (n_id (attr n))]
     else if is_flow (attr n)
          then (let inner = (if n_status (attr n) = ''CANCELLED'' then gatherDisabledNodes n
                             else finished_jobs n) in
                if inner \<noteq> [] then [Part (n_id (attr n)) inner] else [])
          else []) ns)"
  by pat_completeness auto
termination by (relation "measure size") auto

declare finished_jobs.simps [simp del]

lemma gather_root [simp]: "gatherDisabledNodes (upd_attr f n) = gatherDisabledNodes n"
  by (cases n) (simp add: gatherDisabledNodes.simps)

lemma disableFinished_attr: "attr (disableFinishedJobs n) = attr n"
  by (cases n) (simp add: disableFinishedJobs.simps)

lemma disableFinished_upd: "disableFinishedJobs (upd_attr f n) = upd_attr f (disableFinishedJobs n)"
  by (cases n) (simp add: disableFinishedJobs.simps)

text \<open>
  After \<open>disableFinishedJobs\<close> the jobs left out of the new execution are those the earlier run
  finished, disabled, skipped or still runs, also inside embedded flows that did not finish; what it
  cancelled, killed or failed is run again.
\<close>

theorem disableFinishedJobs_gather:
  "gatherDisabledNodes (disableFinishedJobs t) = finished_jobs t"
proof (induction t rule: measure_induct_rule[where f = size])
  case (less t)
  obtain a ns where t: "t = JNode a ns" by (cases t)
  have ih: "n \<in> set ns \<Longrightarrow> gatherDisabledNodes (disableFinishedJobs n) = finished_jobs n" for n
    using less.IH t by simp
  show ?case
    unfolding t disableFinishedJobs.simps gatherDisabledNodes.simps finished_jobs.simps map_map
    by (rule arg_cong[where f = concat], rule map_cong)
      (auto simp: Let_def is_flow_def finished_status_def set_disabled_def set_status_def
         disableFinished_attr disableFinished_upd ih)
qed

end
