(* ===== verification/DialogSession.thy ===== *)
theory DialogSession
  imports FlowDisable
begin

text \<open>
  A session of the execution dialog, from the flow the server sends to the list the server gets back:
  \<open>addFlow\<close> makes the graph, the entries of the menus change it in any order and number, and
  \<open>gatherDisabledNodes\<close> reads it. The menus are a step relation on the model; what every step
  keeps is the graph without its flags and statuses, so that a session never leaves the class of
  graphs for which the operations are right.
\<close>

subsection \<open>The steps\<close>

inductive dialog_step :: "exec_model \<Rightarrow> exec_model \<Rightarrow> bool" where
  step_enableAll: "dialog_step m (enableAll m)"
| step_disableAll: "dialog_step m (disableAll m)"
| step_node: "touchNode path i d m = Inr m' \<Longrightarrow> dialog_step m m'"
| step_parents: "touchParents path i d m = Inr m' \<Longrightarrow> dialog_step m m'"
| step_children: "touchChildren path i d m = Inr m' \<Longrightarrow> dialog_step m m'"
| step_ancestors: "touchAncestors fuel path i d m = Inr m' \<Longrightarrow> dialog_step m m'"
| step_descendents: "touchDescendents fuel path i d m = Inr m' \<Longrightarrow> dialog_step m m'"
| step_one_job: "enableOnlyJob fuel jobId withDep m = Inr m' \<Longrightarrow> dialog_step m m'"
| step_earlier: "dialog_step m (m\<lparr>em_data := assignInitialStatus (em_data m) statusData\<rparr>)"
| step_finished: "dialog_step m (m\<lparr>em_data := disableFinishedJobs (em_data m)\<rparr>)"

inductive_cases dialog_stepE: "dialog_step m m'"

inductive dialog_reach :: "exec_model \<Rightarrow> exec_model \<Rightarrow> bool" where
  reach_start: "dialog_reach m m"
| reach_step: "dialog_reach m m1 \<Longrightarrow> dialog_step m1 m2 \<Longrightarrow> dialog_reach m m2"

subsection \<open>What a session keeps\<close>

definition blank :: "nattr \<Rightarrow> nattr" where
  "blank a = a\<lparr>n_status := [], n_disabled := False\<rparr>"

fun bare :: "jnode \<Rightarrow> jnode" where
  "bare (JNode a ns) = JNode (blank a) (map bare ns)"

lemma bare_attr: "bare n = bare n' \<Longrightarrow> blank (attr n) = blank (attr n') \<and> map bare (nodes n) = map bare (nodes n')"
  by (cases n; cases n') simp

lemma blank_fields:
  "blank a = blank b \<Longrightarrow> n_id a = n_id b \<and> n_type a = n_type b \<and> n_inNodes a = n_inNodes b \<and>
     n_outNodes a = n_outNodes b \<and> n_nodeMap a = n_nodeMap b"
  by (cases a; cases b) (auto simp: blank_def)

lemma bare_upd: "blank (f (attr n)) = blank (attr n) \<Longrightarrow> bare (upd_attr f n) = bare n"
  by (cases n) simp

lemma bare_flags [simp]: "bare (set_disabled d n) = bare n" "bare (set_status st n) = bare n"
  by (simp_all add: set_disabled_def set_status_def bare_upd blank_def)

lemma bare_disable_at [frame]: "map bare (disable_at d k ns) = map bare ns"
  by (rule nth_equalityI) (simp_all add: disable_at_nth)

lemma bare_disable_many: "map bare (foldl (\<lambda>ns k. disable_at d k ns) ns ks) = map bare ns"
  by (induction ks arbitrary: ns) (simp_all add: frame)

lemma bare_walk: "walk nbrs (disable_at d) fuel i ns = Inr ns' \<Longrightarrow> map bare ns' = map bare ns"
proof (induction fuel arbitrary: i ns ns')
  case (Suc fuel)
  from Suc.prems have "fold_result (\<lambda>g k. walk nbrs (disable_at d) fuel k (disable_at d k g)) ns (nbrs ns i) = Inr ns'"
    by simp
  then show ?case
    by (rule fold_result_invariant[where P = "\<lambda>h. map bare h = map bare ns"]) (use Suc.IH in \<open>auto simp: frame\<close>)
qed simp

lemma bare_upd_flow:
  assumes "\<And>ns ns'. f ns = Inr ns' \<Longrightarrow> map bare ns' = map bare ns"
  shows "upd_flow p f t = Inr t' \<Longrightarrow> bare t' = bare t"
proof (induction p arbitrary: t t')
  case Nil
  then show ?case by (cases t) (auto simp: and_then_Inr_iff assms)
next
  case (Cons k p)
  obtain a ns where t: "t = JNode a ns" by (cases t)
  from Cons.prems obtain n' where n: "k < length ns" "upd_flow p f (ns ! k) = Inr n'" "t' = JNode a (ns[k := n'])"
    by (auto simp: t and_then_Inr_iff split: if_splits)
  have "(map bare ns)[k := bare n'] = map bare ns" using Cons.IH[OF n(2)] n(1) by (simp add: map_update[symmetric])
  then show ?case by (simp add: t n map_update)
qed

lemma bare_touch:
  assumes "\<And>ns ns'. f ns = Inr ns' \<Longrightarrow> map bare ns' = map bare ns" "touch p f m = Inr m'"
  shows "bare (em_data m') = bare (em_data m)"
  using assms(2) bare_upd_flow[of f, OF assms(1)] by (auto simp: touch_def trigger_def and_then_Inr_iff)

lemma bare_touches:
  "touchNode path i d m = Inr m' \<Longrightarrow> bare (em_data m') = bare (em_data m)"
  "touchParents path i d m = Inr m' \<Longrightarrow> bare (em_data m') = bare (em_data m)"
  "touchChildren path i d m = Inr m' \<Longrightarrow> bare (em_data m') = bare (em_data m)"
  "touchAncestors fuel path i d m = Inr m' \<Longrightarrow> bare (em_data m') = bare (em_data m)"
  "touchDescendents fuel path i d m = Inr m' \<Longrightarrow> bare (em_data m') = bare (em_data m)"
  unfolding touchNode_def touchParents_def touchChildren_def touchAncestors_def touchDescendents_def
    recurseAllAncestors_def recurseAllDescendents_def
  by (erule bare_touch[rotated]; auto simp: frame bare_disable_many dest: bare_walk)+

lemma bare_recurseTree: "bare (recurseTree t d r) = bare t"
proof (induction t arbitrary: r rule: measure_induct_rule[where f = size])
  case (less t)
  then show ?case by (cases t) (simp add: recurseTree.simps Let_def comp_def)
qed

lemma bare_finished: "bare (disableFinishedJobs t) = bare t"
proof (induction t rule: measure_induct_rule[where f = size])
  case (less t)
  then show ?case by (cases t) (simp add: disableFinishedJobs.simps Let_def comp_def)
qed

lemma bare_earlier: "bare (assignInitialStatus t st) = bare t"
proof (induction t arbitrary: st rule: measure_induct_rule[where f = size])
  case (less t)
  then show ?case by (cases t) (auto simp: assignInitialStatus.simps Let_def comp_def split: option.split)
qed

lemma bare_all:
  "bare (em_data (enableAll m)) = bare (em_data m)" "bare (em_data (disableAll m)) = bare (em_data m)"
  by (simp_all add: enableAll_def disableAll_def trigger_def bare_recurseTree)

lemma bare_one_job:
  assumes "enableOnlyJob fuel jobId withDep m = Inr m'"
  shows "bare (em_data m') = bare (em_data m)"
proof -
  obtain k m2 where m2: "touchNode [] k False (disableAll m) = Inr m2" and
    r: "m' = m2 \<or> (\<exists>t. upd_flow [] (recurseAllAncestors fuel k False) (em_data m2) = Inr t \<and> m' = m2\<lparr>em_data := t\<rparr>)"
    using assms by (auto simp: enableOnlyJob_def Let_def and_then_Inr_iff split: option.splits if_splits)
  have "bare (em_data m2) = bare (em_data m)" using bare_touches(1)[OF m2] by (simp add: bare_all)
  moreover have "bare t = bare (em_data m2)"
    if "upd_flow [] (recurseAllAncestors fuel k False) (em_data m2) = Inr t" for t
    using that by (rule bare_upd_flow[rotated]) (auto simp: recurseAllAncestors_def dest: bare_walk)
  ultimately show ?thesis using r by auto
qed

lemmas bare_operations = bare_touches bare_all bare_one_job bare_finished bare_earlier

lemma dialog_step_bare: "dialog_step m m' \<Longrightarrow> bare (em_data m') = bare (em_data m)"
  by (erule dialog_stepE) (auto simp: bare_operations)

lemma dialog_reach_bare: "dialog_reach m m' \<Longrightarrow> bare (em_data m') = bare (em_data m)"
  by (induction rule: dialog_reach.induct) (auto dest: dialog_step_bare)

subsection \<open>What the server does with the list\<close>

text \<open>
  The server has the flow as it sent it. \<open>overlay\<close> marks in it the nodes that the client shows as
  disabled, an embedded flow as a whole.
\<close>

function (sequential) overlay :: "jnode \<Rightarrow> jnode \<Rightarrow> jnode" where
  "overlay (JNode a ns) (JNode b ms) = JNode b (map (\<lambda>(n, m).
     if n_disabled (attr n) then set_status ''DISABLED'' m
     else if is_flow (attr n) then overlay n m else m) (zip ns ms))"
  by pat_completeness auto
termination by (relation "measure (\<lambda>(n, _). size n)") (auto dest: set_zip_leftD)

declare overlay.simps [simp del]

definition name_only :: "nattr \<Rightarrow> nattr" where
  "name_only a = a\<lparr>n_status := [], n_in := None, n_inNodes := None, n_outNodes := None, n_disabled := False,
     n_nodeMap := [], n_edges := []\<rparr>"

fun skel :: "jnode \<Rightarrow> jnode" where
  "skel (JNode a ns) = JNode (name_only a) (map skel ns)"

lemma name_only_fields: "name_only a = name_only b \<longleftrightarrow> n_id a = n_id b \<and> n_type a = n_type b"
  by (cases a; cases b) (auto simp: name_only_def)

lemma skel_attr: "skel n = skel m \<Longrightarrow> n_id (attr n) = n_id (attr m) \<and> is_flow (attr n) = is_flow (attr m)"
  by (cases n; cases m) (simp add: name_only_fields is_flow_def)

lemma skel_bare: "skel (bare n) = skel n"
  by (induction n) (simp add: name_only_def blank_def)

lemma overlay_attr [simp]: "attr (overlay n m) = attr m"
  by (cases n; cases m) (simp add: overlay.simps)

lemma gather_overlay:
  "skel t = skel s \<Longrightarrow> unique_ids s \<Longrightarrow> applyDisabledJobs (gatherDisabledNodes t) s = overlay t s"
proof (induction t arbitrary: s rule: measure_induct_rule[where f = size])
  case (less t)
  obtain a ns where t: "t = JNode a ns" by (cases t)
  obtain b ms where s: "s = JNode b ms" by (cases s)
  define h where "h = (\<lambda>(n, m). if n_disabled (attr n) then set_status ''DISABLED'' m
     else if is_flow (attr n) then overlay n m else m)"
  define g where "g = (\<lambda>n. if n_disabled (attr n) then [Whole (n_id (attr n))]
     else if is_flow (attr n) then (let array = gatherDisabledNodes n in
       if array \<noteq> [] then [Part (n_id (attr n)) array] else []) else [])"
  have one: "applyDisabledJobs (g n @ gs) (JNode b (ms1 @ m # ms2)) = applyDisabledJobs gs (JNode b (ms1 @ h (n, m) # ms2))"
    if n: "n \<in> set ns" "skel n = skel m" "is_flow (attr m) \<Longrightarrow> unique_ids m" "distinct (node_ids (ms1 @ m # ms2))"
    for n m gs ms1 ms2
  proof -
    have "n_id (attr n) = n_id (attr m)" "is_flow (attr n) = is_flow (attr m)" using skel_attr[OF n(2)] by simp_all
    moreover have "is_flow (attr m) \<Longrightarrow> applyDisabledJobs (gatherDisabledNodes n) m = overlay n m"
      using less.IH[of n m] n(1-3) t by simp
    ultimately show ?thesis using map_child_at[OF n(4) refl] by (cases "gatherDisabledNodes n = []") (auto simp: g_def h_def)
  qed
  have "applyDisabledJobs (concat (map g ns2)) (JNode b (ms1 @ ms2)) = JNode b (ms1 @ map h (zip ns2 ms2))"
    if "set ns2 \<subseteq> set ns" "map skel ns2 = map skel ms2" "\<forall>m \<in> set ms2. is_flow (attr m) \<longrightarrow> unique_ids m"
      "distinct (node_ids (ms1 @ ms2))" for ns2 ms1 ms2
    using that
  proof (induction ns2 arbitrary: ms1 ms2)
    case (Cons n ns2)
    then obtain m ms where m: "ms2 = m # ms" "skel n = skel m" "map skel ns2 = map skel ms" by (cases ms2) auto
    have "n_id (attr (h (n, m))) = n_id (attr m)" by (simp add: h_def)
    then have "node_ids ((ms1 @ [h (n, m)]) @ ms) = node_ids (ms1 @ ms2)" by (simp add: node_ids_def m)
    with Cons.IH[of ms "ms1 @ [h (n, m)]"] Cons.prems m one[of n m ms1 ms] show ?case by simp
  qed simp
  from this[of ns ms "[]"] less.prems
  have "applyDisabledJobs (concat (map g ns)) s = JNode b (map h (zip ns ms))"
    by (simp add: t s unique_ids.simps)
  then show ?case by (simp add: t s gatherDisabledNodes.simps overlay.simps g_def h_def)
qed

subsection \<open>From the server and back\<close>

lemma fresh_unique: "fresh s \<Longrightarrow> unique_ids s"
proof (induction s)
  case (JNode a ns)
  then show ?case by (simp add: fresh.simps unique_ids.simps)
qed

lemma addFlow_skel: "fresh s \<Longrightarrow> processFlowData s = Inr t \<Longrightarrow> skel t = skel s"
proof (induction s arbitrary: t rule: measure_induct_rule[where f = size])
  case (less s)
  obtain a ns where s: "s = JNode a ns" by (cases s)
  let ?m = "node_map (node_ids ns)" and ?as0 = "map (default_status \<circ> attr) ns"
  have d: "distinct (node_ids ns)" and
    fr: "\<forall>n \<in> set ns. n_inNodes (attr n) = None \<and> n_outNodes (attr n) = None"
    using less.prems s by (auto simp: fresh.simps)
  have dd: "distinct (map n_id ?as0)" "?m = node_map (map n_id ?as0)"
    using d by (simp_all add: node_ids_def comp_def)
  obtain as es ns' where l: "link_nodes ?m ?as0 = Inr (as, es)" and
    c: "map_result (process_child as ns) [0..<length ns] = Inr ns'" and
    t: "t = JNode (a\<lparr>n_nodeMap := ?m, n_edges := es\<rparr>) ns'"
    using less.prems(2) by (auto simp: s process_level[OF d] and_then_Inr_iff)
  note f = links_level_facts[OF conjunct1[OF link_level(2)[OF d fr l]] dd]
  have "skel (ns' ! k) = skel (ns ! k)" if k: "k < length ns" for k
  proof -
    have "map n_id as ! k = n_id (attr (ns ! k))" using k by (simp add: f(2))
    then have a: "name_only (as ! k) = name_only (attr (ns ! k))"
      using f(1) f(4)[of k] k by (simp add: name_only_fields)
    have r: "skel (JNode (as ! k) (nodes (ns ! k))) = skel (ns ! k)" using a by (cases "ns ! k") simp
    have p: "process_child as ns k = Inr (ns' ! k)" using map_result_nth[OF c, of k] k by simp
    show ?thesis
    proof (cases "is_flow (as ! k)")
      case True
      then have "is_flow (attr (ns ! k))" using a by (simp add: name_only_fields is_flow_def)
      then have "fresh (JNode (as ! k) (nodes (ns ! k)))"
        using less.prems(1) k unfolding s fresh_root fresh.simps[of a ns] by (meson nth_mem)
      then show ?thesis
        using less.IH[of "JNode (as ! k) (nodes (ns ! k))" "ns' ! k"] p True r s k by (simp add: process_child_def)
    qed (use p r in \<open>simp add: process_child_def\<close>)
  qed
  then have "map skel ns' = map skel ns" using map_result_length[OF c] by (intro nth_equalityI) simp_all
  then show ?case by (simp add: s t name_only_fields)
qed

text \<open>
  C1. From the server and back: whatever entries of the menus are used on the graph of a flow, in any
  order, the list that the dialog sends makes the server disable, in the flow as it sent it, exactly the
  nodes that the client shows as disabled, at every level.
\<close>

theorem session_runs_selection:
  assumes "fresh s" "addFlow s = Inr t" "dialog_reach \<lparr>em_data = t, em_events = evs\<rparr> m"
  shows "applyDisabledJobs (gatherDisabledNodes (em_data m)) s = overlay (em_data m) s"
proof (rule gather_overlay)
  have "skel t = skel s" using assms(1,2) addFlow_skel by (simp add: addFlow_def)
  moreover have "bare (em_data m) = bare t" using dialog_reach_bare[OF assms(3)] by simp
  ultimately show "skel (em_data m) = skel s" by (metis skel_bare)
qed (rule fresh_unique[OF assms(1)])

lemma sample_served: "addFlow sample_flow = Inr sample_added"
  using sample_flow_added by (cases "addFlow sample_flow") (simp_all add: sample_added_def)

theorem session_runs_selection_witness:
  "let m = disableAll (enableAll \<lparr>em_data = sample_added, em_events = []\<rparr>) in
   applyDisabledJobs (gatherDisabledNodes (em_data m)) sample_flow = overlay (em_data m) sample_flow \<and>
   map (\<lambda>n. n_status (attr n)) (nodes (overlay (em_data m) sample_flow)) = replicate 3 ''DISABLED''"
proof -
  let ?m0 = "\<lparr>em_data = sample_added, em_events = []\<rparr>"
  have "dialog_reach ?m0 (disableAll (enableAll ?m0))"
    by (intro reach_step[OF _ step_disableAll] reach_step[OF _ step_enableAll] reach_start)
  from session_runs_selection[OF sample_flow_fresh sample_served this]
  have "applyDisabledJobs (gatherDisabledNodes (em_data (disableAll (enableAll ?m0)))) sample_flow =
    overlay (em_data (disableAll (enableAll ?m0))) sample_flow" .
  moreover have "map (\<lambda>n. n_status (attr n)) (nodes (overlay (em_data (disableAll (enableAll ?m0))) sample_flow)) =
      replicate 3 ''DISABLED''"
    by code_simp
  ultimately show ?thesis by (simp add: Let_def)
qed

subsection \<open>No entry hangs\<close>

text \<open>A flow without cycles, whose references stay inside it, at every level.\<close>

fun walkable :: "jnode \<Rightarrow> bool" where
  "walkable (JNode a ns) \<longleftrightarrow>
     acyclic (arcs in_idx ns) \<and> (\<forall>j < length ns. \<forall>k \<in> set (in_idx ns j). k < length ns) \<and>
     acyclic (arcs out_idx ns) \<and> (\<forall>j < length ns. \<forall>k \<in> set (out_idx ns j). k < length ns) \<and>
     (\<forall>n \<in> set ns. is_flow (attr n) \<longrightarrow> walkable n)"

declare walkable.simps [simp del]

fun flow_at :: "nat list \<Rightarrow> jnode \<Rightarrow> jnode list option" where
  "flow_at [] (JNode a ns) = Some ns"
| "flow_at (k # p) (JNode a ns) =
     (if k < length ns \<and> is_flow (attr (ns ! k)) then flow_at p (ns ! k) else None)"

lemma idx_bare: "in_idx (map bare ns) = in_idx ns" "out_idx (map bare ns) = out_idx ns"
proof -
  have "attr (bare n) = blank (attr n)" for n by (cases n) simp
  then show "in_idx (map bare ns) = in_idx ns" "out_idx (map bare ns) = out_idx ns"
    by (auto simp: in_idx_def out_idx_def blank_def fun_eq_iff)
qed

lemma walkable_bare: "walkable (bare t) = walkable t"
proof (induction t)
  case (JNode a ns)
  have "attr (bare n) = blank (attr n)" for n by (cases n) simp
  then have "is_flow (attr (bare n)) = is_flow (attr n)" for n by (simp add: is_flow_def blank_def)
  with JNode show ?case by (simp add: walkable.simps idx_bare arcs_def)
qed

lemma flow_at_level: "walkable t \<Longrightarrow> flow_at p t = Some ns \<Longrightarrow> \<exists>a. walkable (JNode a ns)"
proof (induction p t rule: flow_at.induct)
  case (2 k p a ns')
  then have k: "k < length ns'" "is_flow (attr (ns' ! k))" "flow_at p (ns' ! k) = Some ns" by (auto split: if_splits)
  with 2(2) have "walkable (ns' ! k)" unfolding walkable.simps[of a ns'] by (meson nth_mem)
  with 2(1) k show ?case by blast
qed auto

lemma upd_flow_returns: "flow_at p t = Some ns \<Longrightarrow> f ns = Inr ns' \<Longrightarrow> \<exists>t'. upd_flow p f t = Inr t'"
proof (induction p t rule: flow_at.induct)
  case (2 k p a ns1)
  then show ?case by (auto split: if_splits)
qed simp

lemma touch_returns:
  assumes "flow_at p (em_data m) = Some ns" "f ns = Inr ns'"
  shows "\<exists>m'. touch p f m = Inr m'"
  using upd_flow_returns[of p "em_data m" ns f ns', OF assms] by (auto simp: touch_def)

text \<open>
  C2. No entry of the menus hangs: on a flow without cycles, however long the session, every entry
  that walks the graph returns, with a recursion no deeper than the number of nodes of the flow the
  node is in.
\<close>

theorem session_never_hangs:
  assumes "walkable t" "dialog_reach \<lparr>em_data = t, em_events = evs\<rparr> m"
    "flow_at path (em_data m) = Some ns" "i < length ns"
  shows "(\<exists>m'. touchAncestors (length ns) path i d m = Inr m' \<and> dialog_reach \<lparr>em_data = t, em_events = evs\<rparr> m') \<and>
    (\<exists>m'. touchDescendents (length ns) path i d m = Inr m' \<and> dialog_reach \<lparr>em_data = t, em_events = evs\<rparr> m')"
proof -
  have "bare (em_data m) = bare t" using dialog_reach_bare[OF assms(2)] by simp
  then have "walkable (em_data m)" using assms(1) by (metis walkable_bare)
  from flow_at_level[OF this assms(3)] obtain a where w: "walkable (JNode a ns)" by blast
  obtain ns1 ns2 where "recurseAllAncestors (length ns) i d ns = Inr ns1" "recurseAllDescendents (length ns) i d ns = Inr ns2"
    using ancestors_marked[of ns i d] descendents_marked[of ns i d] w[unfolded walkable.simps] assms(4) by blast
  then have "\<exists>m'. touchAncestors (length ns) path i d m = Inr m'" "\<exists>m'. touchDescendents (length ns) path i d m = Inr m'"
    unfolding touchAncestors_def touchDescendents_def
    by (auto intro: touch_returns[OF assms(3)])
  then show ?thesis using assms(2) step_ancestors step_descendents reach_step by blast
qed

definition sample_inner :: "jnode list" where
  "sample_inner = nodes (sample_nodes ! 1)"

lemma sample_inner_values:
  "length sample_inner = 2" "\<forall>n \<in> set sample_inner. \<not> is_flow (attr n)"
  "map (in_idx sample_inner) [0, 1] = [[], [0]]" "map (out_idx sample_inner) [0, 1] = [[1], []]"
  by code_simp+

lemma sample_inner_arcs:
  "k \<in> set (in_idx sample_inner i) \<Longrightarrow> k < i \<and> i < 2" "k \<in> set (out_idx sample_inner i) \<Longrightarrow> i < k \<and> k < 2"
proof -
  have "k \<in> set (in_idx sample_inner i) \<or> k \<in> set (out_idx sample_inner i) \<Longrightarrow> i = 0 \<or> i = 1"
    using sample_inner_values(1) by (auto simp: in_idx_def out_idx_def split: if_splits)
  then show "k \<in> set (in_idx sample_inner i) \<Longrightarrow> k < i \<and> i < 2" "k \<in> set (out_idx sample_inner i) \<Longrightarrow> i < k \<and> k < 2"
    using sample_inner_values(3,4) by auto
qed

lemma walkable_flat:
  assumes "\<And>i k. k \<in> set (in_idx ns i) \<Longrightarrow> k < i" "\<And>i k. k \<in> set (out_idx ns i) \<Longrightarrow> i < k \<and> k < length ns"
    "\<forall>n \<in> set ns. is_flow (attr n) \<longrightarrow> walkable n"
  shows "walkable (JNode a ns)"
proof -
  have "acyclic (arcs in_idx ns)" using acyclic_by_rank[of "arcs in_idx ns" "\<lambda>i. i"] assms(1) by (simp add: arcs_def)
  moreover have "acyclic (arcs out_idx ns)"
    using acyclic_by_rank[of "arcs out_idx ns" "\<lambda>i. length ns - i"] assms(2) by (fastforce simp: arcs_def)
  moreover have "\<forall>j < length ns. \<forall>k \<in> set (in_idx ns j). k < length ns" using assms(1) by (meson less_trans)
  moreover have "\<forall>j < length ns. \<forall>k \<in> set (out_idx ns j). k < length ns" using assms(2) by blast
  ultimately show ?thesis unfolding walkable.simps using assms(3) by blast
qed

lemma sample_walkable: "walkable sample_added"
proof -
  have t: "sample_added = JNode sample_root sample_nodes"
    by (simp add: sample_root_def sample_nodes_def)
  have f: "map (\<lambda>n. is_flow (attr n)) sample_nodes = [False, True, False]" by code_simp
  have "walkable n" if n: "n \<in> set sample_nodes" "is_flow (attr n)" for n
  proof -
    obtain k where k: "k < 3" "n = sample_nodes ! k" using n(1) sample_length by (metis in_set_conv_nth)
    then have "map (\<lambda>n. is_flow (attr n)) sample_nodes ! k" using n(2) sample_length by simp
    then have "k = 1" unfolding f using k(1) by (auto simp: less_3)
    then have "n = JNode (attr n) sample_inner" using k(2) by (cases n) (simp add: sample_inner_def)
    moreover have "walkable (JNode (attr n) sample_inner)"
      by (rule walkable_flat) (use sample_inner_arcs sample_inner_values in auto)
    ultimately show ?thesis by simp
  qed
  then show ?thesis unfolding t using sample_idx_all sample_length by (intro walkable_flat) auto
qed

theorem session_never_hangs_witness:
  "\<exists>m'. touchAncestors 3 [] 2 False (disableAll \<lparr>em_data = sample_added, em_events = []\<rparr>) = Inr m'"
proof -
  let ?m0 = "\<lparr>em_data = sample_added, em_events = []\<rparr>"
  have "dialog_reach ?m0 (disableAll ?m0)" by (rule reach_step[OF reach_start step_disableAll])
  moreover have "flow_at [] (em_data (disableAll ?m0)) = Some (map (set_disabled True) sample_nodes)"
    using disableAll_nodes[of ?m0] by (cases "em_data (disableAll ?m0)") (simp add: sample_nodes_def)
  ultimately show ?thesis
    using session_never_hangs[OF sample_walkable, of "[]" "disableAll ?m0" "[]" "map (set_disabled True) sample_nodes" 2 False]
    by (auto simp: sample_length)
qed

end
