(* ===== verification/LayoutCorrect.thy ===== *)
theory LayoutCorrect
  imports LayoutGraph
begin

text \<open>
  What \<open>layoutGraph\<close> guarantees: its passes keep every position finite and leave every layer without
  overlaps, and the vertical placement leaves at least 40 pixels between the boxes of consecutive
  layers.
\<close>

subsection \<open>Changes of the positions only\<close>

text \<open>Two stores agree up to the positions \<open>x\<close>.\<close>

definition strip_x :: "lnode \<Rightarrow> lnode" where
  "strip_x n = n\<lparr>l_x := Fin 0\<rparr>"

definition same_boxes :: "lnode list \<Rightarrow> lnode list \<Rightarrow> bool" where
  "same_boxes ns ns' \<longleftrightarrow> map strip_x ns' = map strip_x ns"

lemma same_boxes_refl [simp]: "same_boxes ns ns"
  by (simp add: same_boxes_def)

lemma same_boxes_trans: "same_boxes a b \<Longrightarrow> same_boxes b c \<Longrightarrow> same_boxes a c"
  by (simp add: same_boxes_def)

lemma same_boxes_length: "same_boxes ns ns' \<Longrightarrow> length ns' = length ns"
  unfolding same_boxes_def by (metis length_map)

lemma same_boxes_nth:
  assumes "same_boxes ns ns'" "k < length ns"
  shows "l_in (ns' ! k) = l_in (ns ! k) \<and> l_out (ns' ! k) = l_out (ns ! k) \<and>
    l_width (ns' ! k) = l_width (ns ! k) \<and> l_height (ns' ! k) = l_height (ns ! k)"
proof -
  have "strip_x (ns' ! k) = strip_x (ns ! k)"
    using assms same_boxes_length[OF assms(1)] unfolding same_boxes_def by (metis nth_map)
  then show ?thesis by (cases "ns' ! k"; cases "ns ! k") (simp add: strip_x_def)
qed

lemma set_x_frame:
  "same_boxes ns (set_x k v ns)" "length (set_x k v ns) = length ns"
  "j < length ns \<Longrightarrow> x_at (set_x k v ns) j = (if j = k then v else x_at ns j)"
  by (simp_all add: same_boxes_def set_x_def x_at_def nth_upd_at)
    (rule map_upd_at, simp add: strip_x_def)

subsection \<open>One layer\<close>

definition all_fin :: "lnode list \<Rightarrow> bool" where
  "all_fin ns \<longleftrightarrow> (\<forall>k < length ns. is_fin (x_at ns k))"

lemma all_finD: "all_fin ns \<Longrightarrow> k < length ns \<Longrightarrow> is_fin (x_at ns k)"
  by (simp add: all_fin_def)

lemma all_fin_set_x: "all_fin ns \<Longrightarrow> is_fin v \<Longrightarrow> all_fin (set_x k v ns)"
  by (simp add: all_fin_def set_x_frame)

lemma findAverage_all_fin:
  "js \<noteq> [] \<Longrightarrow> set js \<subseteq> {..<length ns} \<Longrightarrow> all_fin ns \<Longrightarrow> is_fin (findAverage (map (x_at ns) js))"
proof -
  assume a: "js \<noteq> []" "set js \<subseteq> {..<length ns}" "all_fin ns"
  then have "\<forall>x \<in> set (map (x_at ns) js). is_fin x" by (auto dest: all_finD)
  with a(1) show ?thesis by (simp add: findAverage_fin)
qed

lemma uncross_fin:
  assumes "\<And>ns ns' k. same_boxes ns ns' \<Longrightarrow> k < length ns \<Longrightarrow> side (ns' ! k) = side (ns ! k)"
    "set ks \<subseteq> {..<length ns}" "\<forall>k \<in> set ks. side (ns ! k) \<noteq> [] \<and> set (side (ns ! k)) \<subseteq> {..<length ns}"
    "all_fin ns"
  shows "all_fin (uncross side ks ns) \<and> same_boxes ns (uncross side ks ns) \<and>
    (\<forall>j < length ns. j \<notin> set ks \<longrightarrow> x_at (uncross side ks ns) j = x_at ns j)"
  using assms(2-4)
proof (induction ks arbitrary: ns)
  case (Cons k ks)
  define ns1 where "ns1 = set_x k (findAverage (map (x_at ns) (side (ns ! k)))) ns"
  have sb: "same_boxes ns ns1" and len: "length ns1 = length ns" by (simp_all add: ns1_def set_x_frame)
  have "is_fin (findAverage (map (x_at ns) (side (ns ! k))))"
    by (rule findAverage_all_fin) (use Cons.prems in auto)
  then have f: "all_fin ns1" using Cons.prems(3) by (simp add: ns1_def all_fin_set_x)
  have "\<forall>j \<in> set ks. side (ns1 ! j) \<noteq> [] \<and> set (side (ns1 ! j)) \<subseteq> {..<length ns1}"
  proof
    fix j
    assume j: "j \<in> set ks"
    then have "j < length ns" using Cons.prems(1) by auto
    then have "side (ns1 ! j) = side (ns ! j)" by (rule assms(1)[OF sb])
    with j Cons.prems(2) len show "side (ns1 ! j) \<noteq> [] \<and> set (side (ns1 ! j)) \<subseteq> {..<length ns1}" by simp
  qed
  moreover have "set ks \<subseteq> {..<length ns1}" using Cons.prems(1) len by simp
  ultimately have ih: "all_fin (uncross side ks ns1) \<and> same_boxes ns1 (uncross side ks ns1) \<and>
    (\<forall>j < length ns1. j \<notin> set ks \<longrightarrow> x_at (uncross side ks ns1) j = x_at ns1 j)"
    using Cons.IH f by blast
  have "uncross side (k # ks) ns = uncross side ks ns1" by (simp add: uncross_def ns1_def)
  moreover have "x_at ns1 j = x_at ns j" if "j < length ns" "j \<noteq> k" for j
    using that by (simp add: ns1_def set_x_frame)
  ultimately show ?case using ih len same_boxes_trans[OF sb] by simp
qed (simp add: uncross_def)

lemma write_xs:
  assumes "distinct ks" "length xs = length ks" "set ks \<subseteq> {..<length ns}"
  shows "same_boxes ns (foldl (\<lambda>ns kx. set_x (fst kx) (snd kx) ns) ns (zip ks xs)) \<and>
    (\<forall>j < length ns. j \<notin> set ks \<longrightarrow> x_at (foldl (\<lambda>ns kx. set_x (fst kx) (snd kx) ns) ns (zip ks xs)) j = x_at ns j) \<and>
    (\<forall>i < length ks. x_at (foldl (\<lambda>ns kx. set_x (fst kx) (snd kx) ns) ns (zip ks xs)) (ks ! i) = xs ! i)"
  using assms
proof (induction ks arbitrary: ns xs)
  case (Cons k ks)
  then obtain x xs' where xs: "xs = x # xs'" "length xs' = length ks" by (cases xs) auto
  define ns1 where "ns1 = set_x k x ns"
  have sb: "same_boxes ns ns1" and len: "length ns1 = length ns" by (simp_all add: ns1_def set_x_frame)
  define out where "out = foldl (\<lambda>ns kx. set_x (fst kx) (snd kx) ns) ns1 (zip ks xs')"
  have "set ks \<subseteq> {..<length ns1}" using Cons.prems(3) len by simp
  then have ih: "same_boxes ns1 out" "\<And>j. j < length ns1 \<Longrightarrow> j \<notin> set ks \<Longrightarrow> x_at out j = x_at ns1 j"
    "\<And>i. i < length ks \<Longrightarrow> x_at out (ks ! i) = xs' ! i"
    using Cons.IH[of xs' ns1] Cons.prems(1) xs(2) by (auto simp: out_def)
  have x1: "x_at ns1 j = (if j = k then x else x_at ns j)" if "j < length ns" for j
    using that by (simp add: ns1_def set_x_frame)
  have eq: "foldl (\<lambda>ns kx. set_x (fst kx) (snd kx) ns) ns (zip (k # ks) xs) = out"
    by (simp add: xs out_def ns1_def)
  have k: "k < length ns" "k \<notin> set ks" using Cons.prems by simp_all
  show ?case unfolding eq
  proof (intro conjI allI impI)
    show "same_boxes ns out" by (rule same_boxes_trans[OF sb ih(1)])
    show "x_at out j = x_at ns j" if "j < length ns" "j \<notin> set (k # ks)" for j
      using ih(2)[of j] x1[of j] that len by simp
    show "x_at out ((k # ks) ! i) = xs ! i" if "i < length (k # ks)" for i
      using ih(2)[of k] ih(3) x1[of k] k that len xs(1) by (cases i) auto
  qed
qed simp

text \<open>No two neighbours of the layer overlap.\<close>

definition spaced :: "lnode list \<Rightarrow> nat list \<Rightarrow> bool" where
  "spaced ns ks \<longleftrightarrow> (\<forall>i. Suc i < length ks \<longrightarrow>
     x_at ns (ks ! i) + l_width (ns ! (ks ! i)) / Fin 2 \<le>
     x_at ns (ks ! Suc i) - l_width (ns ! (ks ! Suc i)) / Fin 2)"

definition fin_boxes :: "lnode list \<Rightarrow> bool" where
  "fin_boxes ns \<longleftrightarrow> (\<forall>n \<in> set ns. is_fin (l_width n) \<and> Fin 0 < l_width n \<and> is_fin (l_height n))"

lemma fin_boxes_nth: "fin_boxes ns \<Longrightarrow> k < length ns \<Longrightarrow>
   is_fin (l_width (ns ! k)) \<and> Fin 0 < l_width (ns ! k) \<and> is_fin (l_height (ns ! k))"
  by (simp add: fin_boxes_def)

lemma fin_boxes_same: "same_boxes ns ns' \<Longrightarrow> fin_boxes ns \<Longrightarrow> fin_boxes ns'"
proof -
  assume a: "same_boxes ns ns'" "fin_boxes ns"
  have "is_fin (l_width n) \<and> Fin 0 < l_width n \<and> is_fin (l_height n)" if "n \<in> set ns'" for n
  proof -
    obtain k where k: "k < length ns'" "n = ns' ! k" using \<open>n \<in> set ns'\<close> by (metis in_set_conv_nth)
    then have "k < length ns" using same_boxes_length[OF a(1)] by simp
    from same_boxes_nth[OF a(1) this] fin_boxes_nth[OF a(2) this] k(2) show ?thesis by simp
  qed
  then show ?thesis by (simp add: fin_boxes_def)
qed

lemma spaced_frame:
  assumes "spaced ns ks" "same_boxes ns ns'" "set ks \<subseteq> {..<length ns}" "\<forall>k \<in> set ks. x_at ns' k = x_at ns k"
  shows "spaced ns' ks"
  unfolding spaced_def
proof (intro allI impI)
  fix i
  assume i: "Suc i < length ks"
  then have m: "ks ! i \<in> set ks" "ks ! Suc i \<in> set ks" by simp_all
  with assms(3) have "ks ! i < length ns" "ks ! Suc i < length ns" by auto
  with same_boxes_nth[OF assms(2)] assms(4) m assms(1) i
  show "x_at ns' (ks ! i) + l_width (ns' ! (ks ! i)) / Fin 2
      \<le> x_at ns' (ks ! Suc i) - l_width (ns' ! (ks ! Suc i)) / Fin 2"
    by (simp add: spaced_def)
qed

lemma spread_layer_fin:
  assumes "distinct ks" "ks \<noteq> []" "set ks \<subseteq> {..<length ns}" "all_fin ns" "fin_boxes ns"
  shows "\<exists>ns'. spread_layer ks ns = Inr ns' \<and> same_boxes ns ns' \<and> all_fin ns' \<and> spaced ns' ks \<and>
    (\<forall>j < length ns. j \<notin> set ks \<longrightarrow> x_at ns' j = x_at ns j)"
proof -
  have m: "ks ! i < length ns" if "i < length ks" for i using assms(3) that by (meson lessThan_iff nth_mem subsetD)
  have "fin_cells (cells ns ks)" "cells ns ks \<noteq> []"
    using assms(2-5) by (auto simp: fin_cells_def cells_def all_fin_def fin_boxes_def)
  then obtain xs where xs: "spreadLayerSmart (cells ns ks) = Inr xs" "length xs = length (cells ns ks)"
    "\<And>i. i < length (cells ns ks) \<Longrightarrow> is_fin (xs ! i)"
    "\<And>i. Suc i < length (cells ns ks) \<Longrightarrow> xs ! i + c_width (cells ns ks ! i) / Fin 2 \<le>
       xs ! Suc i - c_width (cells ns ks ! Suc i) / Fin 2"
    using spread_layer_spec by blast
  have len: "length (cells ns ks) = length ks" by (simp add: cells_def)
  define ns' where "ns' = foldl (\<lambda>ns kx. set_x (fst kx) (snd kx) ns) ns (zip ks xs)"
  have w: "same_boxes ns ns'" "\<And>j. j < length ns \<Longrightarrow> j \<notin> set ks \<Longrightarrow> x_at ns' j = x_at ns j"
    "\<And>i. i < length ks \<Longrightarrow> x_at ns' (ks ! i) = xs ! i"
    using write_xs[OF assms(1) _ assms(3), of xs] xs(2) len by (auto simp: ns'_def)
  have "all_fin ns'"
    unfolding all_fin_def
  proof (intro allI impI)
    fix k
    assume "k < length ns'"
    then have k: "k < length ns" using same_boxes_length[OF w(1)] by simp
    show "is_fin (x_at ns' k)"
    proof (cases "k \<in> set ks")
      case True
      then obtain i where "i < length ks" "k = ks ! i" by (metis in_set_conv_nth)
      with w(3) xs(3) len show ?thesis by simp
    next
      case False
      with w(2)[OF k] assms(4) k show ?thesis by (simp add: all_finD)
    qed
  qed
  moreover have "spaced ns' ks"
    unfolding spaced_def
  proof (intro allI impI)
    fix i
    assume i: "Suc i < length ks"
    have e: "l_width (ns' ! (ks ! i)) = c_width (cells ns ks ! i)"
      "l_width (ns' ! (ks ! Suc i)) = c_width (cells ns ks ! Suc i)"
      using same_boxes_nth[OF w(1)] m[of i] m[of "Suc i"] i by (simp_all add: cells_def)
    show "x_at ns' (ks ! i) + l_width (ns' ! (ks ! i)) / Fin 2
        \<le> x_at ns' (ks ! Suc i) - l_width (ns' ! (ks ! Suc i)) / Fin 2"
      unfolding e w(3)[OF Suc_lessD[OF i]] w(3)[OF i] using xs(4) i len by simp
  qed
  ultimately show ?thesis using w(1,2) xs(1) by (simp add: spread_layer_def ns'_def)
qed


subsection \<open>The passes over the layers\<close>

definition layer :: "layout \<Rightarrow> nat \<Rightarrow> nat list" where
  "layer st i = (case layer_at st i of None \<Rightarrow> [] | Some ks \<Rightarrow> ks)"

definition inside :: "lnode list \<Rightarrow> nat list \<Rightarrow> bool" where
  "inside ns js \<longleftrightarrow> js \<noteq> [] \<and> set js \<subseteq> {..<length ns}"

text \<open>
  \<open>wf_layout st n\<close>: the layers 0 to \<open>n\<close> are there, without common members; every node above the
  last layer has successors and every node below the first has predecessors; everything is finite.
\<close>

definition wf_layout :: "layout \<Rightarrow> nat \<Rightarrow> bool" where
  "wf_layout st n \<longleftrightarrow> lay_max st = Fin (of_nat n) \<and> fin_boxes (lay_nodes st) \<and> all_fin (lay_nodes st) \<and>
     (\<forall>i \<le> n. inside (lay_nodes st) (layer st i) \<and> distinct (layer st i) \<and>
        (\<forall>j \<le> n. i \<noteq> j \<longrightarrow> set (layer st i) \<inter> set (layer st j) = {}) \<and>
        (\<forall>k \<in> set (layer st i). (i < n \<longrightarrow> inside (lay_nodes st) (l_out (lay_nodes st ! k))) \<and>
           (0 < i \<longrightarrow> inside (lay_nodes st) (l_in (lay_nodes st ! k)))))"

lemma wf_layoutD:
  assumes "wf_layout st n"
  shows "lay_max st = Fin (of_nat n)" "fin_boxes (lay_nodes st)" "all_fin (lay_nodes st)"
    "i \<le> n \<Longrightarrow> inside (lay_nodes st) (layer st i)" "i \<le> n \<Longrightarrow> distinct (layer st i)"
    "i \<le> n \<Longrightarrow> j \<le> n \<Longrightarrow> i \<noteq> j \<Longrightarrow> set (layer st i) \<inter> set (layer st j) = {}"
    "i < n \<Longrightarrow> k \<in> set (layer st i) \<Longrightarrow> inside (lay_nodes st) (l_out (lay_nodes st ! k))"
    "i \<le> n \<Longrightarrow> 0 < i \<Longrightarrow> k \<in> set (layer st i) \<Longrightarrow> inside (lay_nodes st) (l_in (lay_nodes st ! k))"
proof -
  note w = assms[unfolded wf_layout_def]
  show "lay_max st = Fin (of_nat n)" "fin_boxes (lay_nodes st)" "all_fin (lay_nodes st)" using w by simp_all
  have l: "inside (lay_nodes st) (layer st i) \<and> distinct (layer st i) \<and>
      (\<forall>j \<le> n. i \<noteq> j \<longrightarrow> set (layer st i) \<inter> set (layer st j) = {}) \<and>
      (\<forall>k \<in> set (layer st i). (i < n \<longrightarrow> inside (lay_nodes st) (l_out (lay_nodes st ! k))) \<and>
        (0 < i \<longrightarrow> inside (lay_nodes st) (l_in (lay_nodes st ! k))))" if "i \<le> n" for i
    using conjunct2[OF conjunct2[OF conjunct2[OF w]]] that by (elim allE[of _ i] impE)
  show "i \<le> n \<Longrightarrow> inside (lay_nodes st) (layer st i)" "i \<le> n \<Longrightarrow> distinct (layer st i)"
    "i \<le> n \<Longrightarrow> j \<le> n \<Longrightarrow> i \<noteq> j \<Longrightarrow> set (layer st i) \<inter> set (layer st j) = {}"
    "i \<le> n \<Longrightarrow> 0 < i \<Longrightarrow> k \<in> set (layer st i) \<Longrightarrow> inside (lay_nodes st) (l_in (lay_nodes st ! k))"
    using l by blast+
  show "inside (lay_nodes st) (l_out (lay_nodes st ! k))" if "i < n" "k \<in> set (layer st i)"
    using l[of i] that by simp
qed

lemma layer_at_layer: "layer st i \<noteq> [] \<Longrightarrow> layer_at st i = Some (layer st i)"
  by (simp add: layer_def split: option.splits)

lemma map_of_layer_put: "map_of (layer_put l ks m) l' = (if l' = l then Some ks else map_of m l')"
  by (induction l ks m rule: layer_put.induct) auto

definition relayer :: "nat \<Rightarrow> nat list \<Rightarrow> lnode list \<Rightarrow> layout \<Rightarrow> layout" where
  "relayer i ks ns st =
     st\<lparr>lay_nodes := ns, lay_layers := layer_put (Some (Fin (of_nat i))) ks (lay_layers st)\<rparr>"

lemma relayer_simps [simp]:
  "lay_nodes (relayer i ks ns st) = ns" "lay_max (relayer i ks ns st) = lay_max st"
  "lay_map (relayer i ks ns st) = lay_map st"
  "layer (relayer i ks ns st) j = (if j = i then ks else layer st j)"
  by (simp_all add: relayer_def layer_def layer_at_def map_of_layer_put)

lemma inside_same: "same_boxes ns ns' \<Longrightarrow> inside ns' js = inside ns js"
  by (simp add: inside_def same_boxes_length)

lemma wf_relayer:
  assumes "wf_layout st n" "same_boxes (lay_nodes st) ns" "all_fin ns" "set ks = set (layer st i)"
    "distinct ks" "i \<le> n"
  shows "wf_layout (relayer i ks ns st) n"
proof -
  note w = wf_layoutD[OF assms(1)]
  have sets: "set (layer (relayer i ks ns st) j) = set (layer st j)" for j using assms(4) by simp
  have nth: "l_out (ns ! k) = l_out (lay_nodes st ! k)" "l_in (ns ! k) = l_in (lay_nodes st ! k)"
    if "j \<le> n" "k \<in> set (layer st j)" for j k
  proof -
    have "k < length (lay_nodes st)" using w(4)[OF that(1)] that(2) by (auto simp: inside_def)
    from same_boxes_nth[OF assms(2) this]
    show "l_out (ns ! k) = l_out (lay_nodes st ! k)" "l_in (ns ! k) = l_in (lay_nodes st ! k)" by simp_all
  qed
  have ins: "inside ns (layer (relayer i ks ns st) j)" if "j \<le> n" for j
  proof -
    have "inside ns (layer st j)" using w(4)[OF that] inside_same[OF assms(2)] by simp
    then show ?thesis using sets[of j] unfolding inside_def by (metis set_empty)
  qed
  show ?thesis
    unfolding wf_layout_def
  proof (intro conjI allI impI ballI)
    show "lay_max (relayer i ks ns st) = Fin (of_nat n)" using w(1) by simp
    show "fin_boxes (lay_nodes (relayer i ks ns st))" using fin_boxes_same[OF assms(2) w(2)] by simp
    show "all_fin (lay_nodes (relayer i ks ns st))" using assms(3) by simp
  next
    fix j
    assume j: "j \<le> n"
    show "inside (lay_nodes (relayer i ks ns st)) (layer (relayer i ks ns st) j)" using ins[OF j] by simp
    show "distinct (layer (relayer i ks ns st) j)" using w(5)[OF j] assms(5) by simp
    show "set (layer (relayer i ks ns st) j) \<inter> set (layer (relayer i ks ns st) j') = {}"
      if "j' \<le> n" "j \<noteq> j'" for j' unfolding sets using w(6)[OF j that] .
    fix k
    assume k: "k \<in> set (layer (relayer i ks ns st) j)"
    then have k': "k \<in> set (layer st j)" using sets by simp
    show "inside (lay_nodes (relayer i ks ns st)) (l_out (lay_nodes (relayer i ks ns st) ! k))" if "j < n"
      using w(7)[OF that k'] nth[OF j k'] inside_same[OF assms(2)] by simp
    show "inside (lay_nodes (relayer i ks ns st)) (l_in (lay_nodes (relayer i ks ns st) ! k))" if "0 < j"
      using w(8)[OF j that k'] nth[OF j k'] inside_same[OF assms(2)] by simp
  qed
qed

text \<open>What one pass over layer \<open>i\<close> does to a state.\<close>

definition passed :: "nat \<Rightarrow> nat \<Rightarrow> layout \<Rightarrow> layout \<Rightarrow> bool" where
  "passed n i st st' \<longleftrightarrow> wf_layout st' n \<and> spaced (lay_nodes st') (layer st' i) \<and>
     same_boxes (lay_nodes st) (lay_nodes st') \<and> lay_map st' = lay_map st \<and>
     (\<forall>j \<le> n. set (layer st' j) = set (layer st j)) \<and>
     (\<forall>j \<le> n. j \<noteq> i \<longrightarrow> spaced (lay_nodes st) (layer st j) \<longrightarrow> spaced (lay_nodes st') (layer st' j))"

lemma passed_relayer:
  assumes "wf_layout st n" "same_boxes (lay_nodes st) ns" "all_fin ns" "set ks = set (layer st i)"
    "distinct ks" "i \<le> n" "spaced ns ks"
    "\<forall>j < length (lay_nodes st). j \<notin> set (layer st i) \<longrightarrow> x_at ns j = x_at (lay_nodes st) j"
  shows "passed n i st (relayer i ks ns st)"
  unfolding passed_def
proof (intro conjI allI impI)
  note w = wf_layoutD[OF assms(1)]
  show "wf_layout (relayer i ks ns st) n" by (rule wf_relayer[OF assms(1-6)])
  show "set (layer (relayer i ks ns st) j) = set (layer st j)" for j using assms(4) by simp
  fix j
  assume j: "j \<le> n" "j \<noteq> i" and sp: "spaced (lay_nodes st) (layer st j)"
  have sub: "set (layer st j) \<subseteq> {..<length (lay_nodes st)}" using w(4)[OF j(1)] by (simp add: inside_def)
  have "spaced ns (layer st j)"
  proof (rule spaced_frame[OF sp assms(2) sub], rule ballI)
    fix k
    assume k: "k \<in> set (layer st j)"
    then have "k \<notin> set (layer st i)" "k < length (lay_nodes st)"
      using w(6)[OF j(1) assms(6) j(2)] sub by auto
    with assms(8) show "x_at ns k = x_at (lay_nodes st) k" by blast
  qed
  with j(2) show "spaced (lay_nodes (relayer i ks ns st)) (layer (relayer i ks ns st) j)" by simp
qed (use assms in simp_all)

lemma sort_layer_set: "set (sort_layer ns ks) = set ks" "distinct (sort_layer ns ks) = distinct ks"
  by (simp_all add: sort_layer_def mset_eq_imp_distinct_iff[OF mset_js_sort])

lemma layer_pass_fin:
  assumes "wf_layout st n" "i \<le> n"
    and side: "\<And>ns ns' k. same_boxes ns ns' \<Longrightarrow> k < length ns \<Longrightarrow> side (ns' ! k) = side (ns ! k)"
    and ok: "\<forall>k \<in> set (layer st i). inside (lay_nodes st) (side (lay_nodes st ! k))"
  shows "\<exists>st'. layer_pass (uncross side) st i = Inr st' \<and> passed n i st st'"
proof -
  note w = wf_layoutD[OF assms(1)]
  let ?ks = "layer st i" and ?ns = "lay_nodes st"
  have ks: "?ks \<noteq> []" "set ?ks \<subseteq> {..<length ?ns}" using w(4)[OF assms(2)] by (simp_all add: inside_def)
  have ok': "\<forall>k \<in> set ?ks. side (?ns ! k) \<noteq> [] \<and> set (side (?ns ! k)) \<subseteq> {..<length ?ns}"
    using ok by (simp add: inside_def)
  define ns where "ns = uncross side ?ks ?ns"
  have u: "all_fin ns" "same_boxes ?ns ns" "\<And>j. j < length ?ns \<Longrightarrow> j \<notin> set ?ks \<Longrightarrow> x_at ns j = x_at ?ns j"
    using uncross_fin[of side, OF side ks(2) ok' w(3)] by (auto simp: ns_def)
  define ks' where "ks' = sort_layer ns ?ks"
  have s: "set ks' = set ?ks" "distinct ks'" using sort_layer_set w(5)[OF assms(2)] by (simp_all add: ks'_def)
  have "ks' \<noteq> []" using s(1) ks(1) by auto
  moreover have "set ks' \<subseteq> {..<length ns}" using s(1) ks(2) same_boxes_length[OF u(2)] by simp
  ultimately obtain ns' where ns': "spread_layer ks' ns = Inr ns'" "same_boxes ns ns'" "all_fin ns'"
    "spaced ns' ks'" "\<And>j. j < length ns \<Longrightarrow> j \<notin> set ks' \<Longrightarrow> x_at ns' j = x_at ns j"
    using spread_layer_fin[OF s(2) _ _ u(1) fin_boxes_same[OF u(2) w(2)]] by blast
  have "layer_pass (uncross side) st i = Inr (relayer i ks' ns' st)"
    using layer_at_layer[OF ks(1)] ns'(1) by (simp add: layer_pass_def ns_def ks'_def relayer_def Let_def)
  moreover have "passed n i st (relayer i ks' ns' st)"
    by (rule passed_relayer[OF assms(1) same_boxes_trans[OF u(2) ns'(2)] ns'(3) s(1,2) assms(2) ns'(4)])
      (use ns'(5) u(3) s(1) same_boxes_length[OF u(2)] in simp)
  ultimately show ?thesis by blast
qed

lemma pass_out: "wf_layout st n \<Longrightarrow> i < n \<Longrightarrow> \<exists>st'. layer_pass uncrossWithOut st i = Inr st' \<and> passed n i st st'"
  unfolding uncrossWithOut_def
  by (rule layer_pass_fin) (auto simp: same_boxes_nth intro: wf_layoutD(7))

lemma pass_in: "wf_layout st n \<Longrightarrow> i \<le> n \<Longrightarrow> 0 < i \<Longrightarrow> \<exists>st'. layer_pass uncrossWithIn st i = Inr st' \<and> passed n i st st'"
  unfolding uncrossWithIn_def
  by (rule layer_pass_fin) (auto simp: same_boxes_nth intro: wf_layoutD(8))

lemma sort_spaced:
  assumes "spaced ns ks" "all_fin ns" "fin_boxes ns" "set ks \<subseteq> {..<length ns}"
  shows "sort_layer ns ks = ks"
  unfolding sort_layer_def
proof (rule by_diff.sort_sorted_id)
  have m: "ks ! i < length ns" if "i < length ks" for i using assms(4) that by (meson lessThan_iff nth_mem subsetD)
  have step: "by_diff.le (x_at ns) (ks ! i) (ks ! Suc i)" if i: "Suc i < length ks" for i
  proof -
    have k: "ks ! i < length ns" "ks ! Suc i < length ns" using m i by simp_all
    obtain x y where xy: "x_at ns (ks ! i) = Fin x" "x_at ns (ks ! Suc i) = Fin y"
      using assms(2) k by (meson all_finD is_fin_conv)
    obtain w v where wv: "l_width (ns ! (ks ! i)) = Fin w" "l_width (ns ! (ks ! Suc i)) = Fin v"
      using fin_boxes_nth[OF assms(3)] k by (meson is_fin_conv)
    have "0 < w" "0 < v" using fin_boxes_nth[OF assms(3)] k wv by (metis js_fin(6))+
    moreover have "x_at ns (ks ! i) + l_width (ns ! (ks ! i)) / Fin 2 \<le>
        x_at ns (ks ! Suc i) - l_width (ns ! (ks ! Suc i)) / Fin 2"
      using assms(1) i by (simp add: spaced_def)
    ultimately have "x \<le> y" using xy wv by simp
    with xy show ?thesis by simp
  qed
  have fin: "is_fin (x_at ns (ks ! i))" if "i < length ks" for i using assms(2) m[OF that] by (rule all_finD)
  have "fin_val (x_at ns (ks ! i)) \<le> fin_val (x_at ns (ks ! j))" if "i < j" "j < length ks" for i j
    using that
  proof (induction rule: less_Suc_induct)
    case (1 i)
    with step[of i] fin[of i] fin[of "Suc i"] show ?case by simp
  next
    case (2 i j k)
    then show ?case by simp
  qed
  with fin show "sorted_wrt (by_diff.le (x_at ns)) ks" by (simp add: sorted_wrt_iff_nth_less)
qed

lemma spread_last_fin:
  assumes "wf_layout st n"
  shows "\<exists>st'. spread_last st = Inr st' \<and> passed n n st st'"
proof -
  note w = wf_layoutD[OF assms]
  let ?ks = "layer st n" and ?ns = "lay_nodes st"
  have ks: "?ks \<noteq> []" "set ?ks \<subseteq> {..<length ?ns}" using w(4)[of n] by (simp_all add: inside_def)
  obtain ns where ns: "spread_layer ?ks ?ns = Inr ns" "same_boxes ?ns ns" "all_fin ns" "spaced ns ?ks"
    "\<And>j. j < length ?ns \<Longrightarrow> j \<notin> set ?ks \<Longrightarrow> x_at ns j = x_at ?ns j"
    using spread_layer_fin[OF w(5)[of n] ks w(3,2)] by auto
  have "sort_layer ns ?ks = ?ks"
    by (rule sort_spaced[OF ns(4,3) fin_boxes_same[OF ns(2) w(2)]]) (use ks same_boxes_length[OF ns(2)] in simp)
  then have "spread_last st = Inr (relayer n ?ks ns st)"
    using layer_at_layer[OF ks(1)] ns(1) w(1) by (simp add: spread_last_def relayer_def layer_at_def)
  moreover have "passed n n st (relayer n ?ks ns st)"
    by (rule passed_relayer[OF assms ns(2,3)]) (use w(5)[of n] ns in simp_all)
  ultimately show ?thesis by blast
qed

text \<open>Layers that were spread stay spread, and a loop over some layers adds them.\<close>

definition kept :: "nat \<Rightarrow> layout \<Rightarrow> layout \<Rightarrow> bool" where
  "kept n st st' \<longleftrightarrow> wf_layout st' n \<and> same_boxes (lay_nodes st) (lay_nodes st') \<and> lay_map st' = lay_map st \<and>
     (\<forall>j \<le> n. set (layer st' j) = set (layer st j)) \<and>
     (\<forall>j \<le> n. spaced (lay_nodes st) (layer st j) \<longrightarrow> spaced (lay_nodes st') (layer st' j))"

lemma passed_kept: "passed n i st st' \<Longrightarrow> kept n st st'"
  unfolding passed_def kept_def by metis

lemma passed_spaced: "passed n i st st' \<Longrightarrow> spaced (lay_nodes st') (layer st' i)"
  by (simp add: passed_def)

lemma kept_trans: "kept n a b \<Longrightarrow> kept n b c \<Longrightarrow> kept n a c"
  unfolding kept_def using same_boxes_trans by metis

lemma kept_wf: "kept n st st' \<Longrightarrow> wf_layout st' n"
  by (simp add: kept_def)

lemma kept_refl: "wf_layout st n \<Longrightarrow> kept n st st"
  by (simp add: kept_def)

lemma kept_spaced: "kept n a b \<Longrightarrow> j \<le> n \<Longrightarrow> spaced (lay_nodes a) (layer a j) \<Longrightarrow> spaced (lay_nodes b) (layer b j)"
  by (simp add: kept_def)

lemma passes_fin:
  assumes "\<And>st i. wf_layout st n \<Longrightarrow> i \<in> set is \<Longrightarrow> \<exists>st'. pass st i = Inr st' \<and> passed n i st st'"
    "wf_layout st n" "set is \<subseteq> {..n}"
  shows "\<exists>st'. fold_result pass st is = Inr st' \<and> kept n st st' \<and>
    (\<forall>i \<in> set is. spaced (lay_nodes st') (layer st' i))"
  using assms
proof (induction "is" arbitrary: st)
  case (Cons i "is")
  obtain st1 where st1: "pass st i = Inr st1" "passed n i st st1" using Cons.prems(1)[OF Cons.prems(2), of i] by auto
  note k1 = passed_kept[OF st1(2)]
  have "\<exists>st'. fold_result pass st1 is = Inr st' \<and> kept n st1 st' \<and>
      (\<forall>i \<in> set is. spaced (lay_nodes st') (layer st' i))"
    by (rule Cons.IH[OF _ kept_wf[OF k1]]) (use Cons.prems in auto)
  then obtain st2 where st2: "fold_result pass st1 is = Inr st2" "kept n st1 st2"
    "\<forall>i \<in> set is. spaced (lay_nodes st2) (layer st2 i)" by blast
  have "spaced (lay_nodes st2) (layer st2 i)"
    by (rule kept_spaced[OF st2(2) _ passed_spaced[OF st1(2)]]) (use Cons.prems(3) in simp)
  with st1(1) st2 kept_trans[OF k1 st2(2)] show ?case by auto
qed (simp add: kept_refl)

lemma level_count_nat [simp]: "level_count (Fin (of_nat n)) = n"
  by simp

lemma passes_spaced:
  assumes "wf_layout st n"
  shows "\<exists>st'. and_then (spread_last st) (\<lambda>st. and_then (up_passes st) (\<lambda>st. and_then (kick_back st) down_passes)) =
      Inr st' \<and> kept n st st' \<and> (\<forall>i \<le> n. spaced (lay_nodes st') (layer st' i))"
proof -
  obtain a where a: "spread_last st = Inr a" "passed n n st a" using spread_last_fin[OF assms] by blast
  note ka = passed_kept[OF a(2)]
  have sub: "set (rev [0..<n]) \<subseteq> {..n}" by auto
  obtain b where b: "fold_result (layer_pass uncrossWithOut) a (rev [0..<n]) = Inr b" "kept n a b"
    "\<forall>i \<in> set (rev [0..<n]). spaced (lay_nodes b) (layer b i)"
    using passes_fin[OF _ kept_wf[OF ka] sub, of "layer_pass uncrossWithOut"] pass_out by auto
  have up: "up_passes a = Inr b" using b(1) wf_layoutD(1)[OF kept_wf[OF ka]] by (simp add: up_passes_def)
  have b0: "spaced (lay_nodes b) (layer b i)" if "i \<le> n" for i
  proof (cases "i = n")
    case True
    then show ?thesis using kept_spaced[OF b(2) _ passed_spaced[OF a(2)]] by simp
  next
    case False
    with b(3) that show ?thesis by simp
  qed
  have kb: "kept n st b" by (rule kept_trans[OF ka b(2)])
  obtain c where c: "kick_back b = Inr c" "kept n b c"
  proof (cases "1 < n")
    case True
    then obtain b1 where b1: "layer_pass uncrossWithIn b 1 = Inr b1" "passed n 1 b b1"
      using pass_in[OF kept_wf[OF kb], of 1] by auto
    note k1 = passed_kept[OF b1(2)]
    obtain c where c: "layer_pass uncrossWithOut b1 0 = Inr c" "passed n 0 b1 c"
      using pass_out[OF kept_wf[OF k1], of 0] True by auto
    have "kick_back b = Inr c"
      using b1(1) c(1) True wf_layoutD(1)[OF kept_wf[OF kb]] by (simp add: kick_back_def)
    then show thesis using that kept_trans[OF k1 passed_kept[OF c(2)]] by blast
  next
    case False
    then have "kick_back b = Inr b" using wf_layoutD(1)[OF kept_wf[OF kb]] by (simp add: kick_back_def)
    then show thesis using that kept_refl[OF kept_wf[OF kb]] by blast
  qed
  have kc: "kept n st c" by (rule kept_trans[OF kb c(2)])
  obtain d where d: "fold_result (layer_pass uncrossWithIn) c [1..<Suc n] = Inr d" "kept n c d"
    using passes_fin[of n "[1..<Suc n]" "layer_pass uncrossWithIn" c] pass_in kept_wf[OF kc] by fastforce
  have "down_passes c = Inr d" using d(1) wf_layoutD(1)[OF kept_wf[OF kc]] by (simp add: down_passes_def)
  moreover have "\<forall>i \<le> n. spaced (lay_nodes d) (layer d i)"
    using kept_spaced[OF d(2)] kept_spaced[OF c(2)] b0 by blast
  ultimately show ?thesis using a(1) up c(1) kept_trans[OF kc d(2)] by simp
qed


subsection \<open>Vertical placement\<close>

definition strip_y :: "lnode \<Rightarrow> lnode" where
  "strip_y n = n\<lparr>l_y := NaN\<rparr>"

definition same_rows :: "lnode list \<Rightarrow> lnode list \<Rightarrow> bool" where
  "same_rows ns ns' \<longleftrightarrow> map strip_y ns' = map strip_y ns"

lemma same_rows_trans: "same_rows a b \<Longrightarrow> same_rows b c \<Longrightarrow> same_rows a c"
  by (simp add: same_rows_def)

lemma same_rows_length: "same_rows ns ns' \<Longrightarrow> length ns' = length ns"
  unfolding same_rows_def by (metis length_map)

lemma same_rows_nth:
  assumes "same_rows ns ns'" "k < length ns"
  shows "l_in (ns' ! k) = l_in (ns ! k) \<and> x_at ns' k = x_at ns k \<and>
    l_width (ns' ! k) = l_width (ns ! k) \<and> l_height (ns' ! k) = l_height (ns ! k)"
proof -
  have "strip_y (ns' ! k) = strip_y (ns ! k)"
    using assms same_rows_length[OF assms(1)] unfolding same_rows_def by (metis nth_map)
  then show ?thesis by (cases "ns' ! k"; cases "ns ! k") (simp add: strip_y_def x_at_def)
qed

lemma set_y_frame:
  assumes "set ks \<subseteq> {..<length ns}"
  shows "same_rows ns (set_y ks y ns) \<and>
    (\<forall>j < length ns. l_y (set_y ks y ns ! j) = (if j \<in> set ks then y else l_y (ns ! j)))"
  using assms
proof (induction ks arbitrary: ns)
  case (Cons k ks)
  define ns1 where "ns1 = upd_at k (\<lambda>n. n\<lparr>l_y := y\<rparr>) ns"
  have sr: "same_rows ns ns1" unfolding ns1_def same_rows_def by (rule map_upd_at) (simp add: strip_y_def)
  have len: "length ns1 = length ns" by (simp add: ns1_def)
  have "set ks \<subseteq> {..<length ns1}" using Cons.prems len by simp
  from Cons.IH[OF this] have ih: "same_rows ns1 (set_y ks y ns1)"
    "\<And>j. j < length ns1 \<Longrightarrow> l_y (set_y ks y ns1 ! j) = (if j \<in> set ks then y else l_y (ns1 ! j))" by blast+
  have "set_y (k # ks) y ns = set_y ks y ns1" by (simp add: set_y_def ns1_def)
  moreover have "l_y (ns1 ! j) = (if j = k then y else l_y (ns ! j))" if "j < length ns" for j
    using that by (simp add: ns1_def nth_upd_at)
  ultimately show ?case using ih same_rows_trans[OF sr ih(1)] len by simp
qed (simp add: set_y_def same_rows_def)

lemma layer_height_fin:
  assumes "\<forall>k \<in> set ks. is_fin (l_height (ns ! k))"
  shows "\<exists>h. foldl (\<lambda>h k. js_max h (l_height (ns ! k))) (Fin a) ks = Fin h \<and> a \<le> h \<and>
    (\<forall>k \<in> set ks. fin_val (l_height (ns ! k)) \<le> h)"
  using assms
proof (induction ks arbitrary: a)
  case (Cons k ks)
  then obtain v where v: "l_height (ns ! k) = Fin v" by (auto simp: is_fin_conv)
  with Cons.IH[of "max a v"] Cons.prems obtain h where
    "foldl (\<lambda>h k. js_max h (l_height (ns ! k))) (Fin (max a v)) ks = Fin h" "max a v \<le> h"
    "\<forall>k \<in> set ks. fin_val (l_height (ns ! k)) \<le> h" by auto
  with v show ?case by auto
qed simp

lemma max_deltas_fin:
  assumes "is_fin x" "\<forall>j \<in> set js. is_fin (x_at ns j)"
  shows "\<exists>d. foldl (\<lambda>m j. js_max m (js_abs (x_at ns j - x))) (Fin a) js = Fin d"
  using assms(2)
proof (induction js arbitrary: a)
  case (Cons j js)
  then obtain v u where "x_at ns j = Fin v" "x = Fin u" using assms(1) by (auto simp: is_fin_conv)
  with Cons show ?case by simp
qed simp

lemma layer_delta_fin:
  assumes "\<forall>k \<in> set ks. is_fin (x_at ns k) \<and> (\<forall>j \<in> set (l_in (ns ! k)). is_fin (x_at ns j))"
  shows "\<exists>d. layer_delta ns ks = Fin d"
proof -
  have "\<exists>d. foldl (\<lambda>m k. foldl (\<lambda>m j. js_max m (js_abs (x_at ns j - x_at ns k))) m (l_in (ns ! k))) (Fin a) ks = Fin d"
    for a
    using assms
  proof (induction ks arbitrary: a)
    case (Cons k ks)
    have "is_fin (x_at ns k)" "\<forall>j \<in> set (l_in (ns ! k)). is_fin (x_at ns j)" using Cons.prems by simp_all
    from max_deltas_fin[OF this, of a] obtain d where
      d: "foldl (\<lambda>m j. js_max m (js_abs (x_at ns j - x_at ns k))) (Fin a) (l_in (ns ! k)) = Fin d" by blast
    have "\<forall>k \<in> set ks. is_fin (x_at ns k) \<and> (\<forall>j \<in> set (l_in (ns ! k)). is_fin (x_at ns j))" using Cons.prems by simp
    from Cons.IH[OF this, of d] show ?case by (simp add: d)
  qed simp
  then show ?thesis by (simp add: layer_delta_def)
qed

lemma layer_height_same: "same_rows ns ns' \<Longrightarrow> set ks \<subseteq> {..<length ns} \<Longrightarrow> layer_height ns' ks = layer_height ns ks"
  unfolding layer_height_def by (rule foldl_cong) (auto simp: same_rows_nth subset_iff)

lemma layer_delta_same:
  assumes "same_rows ns ns'" "set ks \<subseteq> {..<length ns}" "\<forall>k \<in> set ks. set (l_in (ns ! k)) \<subseteq> {..<length ns}"
  shows "layer_delta ns' ks = layer_delta ns ks"
  unfolding layer_delta_def
proof (rule foldl_cong[OF refl refl])
  fix m k
  assume k: "k \<in> set ks"
  then have kk: "l_in (ns' ! k) = l_in (ns ! k)" "x_at ns' k = x_at ns k"
    using same_rows_nth[OF assms(1), of k] assms(2) by auto
  show "foldl (\<lambda>m j. js_max m (js_abs (x_at ns' j - x_at ns' k))) m (l_in (ns' ! k)) =
      foldl (\<lambda>m j. js_max m (js_abs (x_at ns j - x_at ns k))) m (l_in (ns ! k))"
    unfolding kk
    by (rule foldl_cong) (use k assms(3) same_rows_nth[OF assms(1)] in \<open>auto simp: subset_iff\<close>)
qed

text \<open>The gap between the boxes of two layers.\<close>

definition rows_apart :: "lnode list \<Rightarrow> nat list \<Rightarrow> nat list \<Rightarrow> bool" where
  "rows_apart ns upper lower \<longleftrightarrow> (\<forall>k \<in> set upper. \<forall>j \<in> set lower.
     l_y (ns ! k) + l_height (ns ! k) / Fin 2 + Fin 40 \<le> l_y (ns ! j) - l_height (ns ! j) / Fin 2)"

definition at_row :: "lnode list \<Rightarrow> nat list \<Rightarrow> rat \<Rightarrow> bool" where
  "at_row ns ks y \<longleftrightarrow> (\<forall>k \<in> set ks. l_y (ns ! k) = Fin y)"

lemma layer_height_bound:
  assumes "wf_layout st n" "j \<le> n"
  shows "\<exists>h. layer_height (lay_nodes st) (layer st j) = Fin h \<and>
    (\<forall>k \<in> set (layer st j). fin_val (l_height (lay_nodes st ! k)) \<le> h)"
proof -
  note w = wf_layoutD[OF assms(1)]
  have "\<forall>k \<in> set (layer st j). is_fin (l_height (lay_nodes st ! k))"
    using fin_boxes_nth[OF w(2)] w(4)[OF assms(2)] by (auto simp: inside_def)
  then show ?thesis using layer_height_fin unfolding layer_height_def by blast
qed

text \<open>One step of the loop puts a layer below the one before, whatever the heights and slopes are.\<close>

lemma space_step_row:
  assumes "wf_layout st n" "Suc m \<le> n" "same_rows (lay_nodes st) ns"
  shows "\<exists>y h. space_step (lay_layers st) (ns, Fin y0, Fin h0) (Suc m) =
      Inr (set_y (layer st (Suc m)) (Fin y) ns, Fin y, Fin h) \<and>
    (\<forall>k \<in> set (layer st (Suc m)). fin_val (l_height (lay_nodes st ! k)) \<le> h) \<and> y0 + h0 / 2 + 40 + h / 2 \<le> y"
proof -
  note w = wf_layoutD[OF assms(1)]
  let ?ks = "layer st (Suc m)" and ?ns = "lay_nodes st"
  have sub: "set ?ks \<subseteq> {..<length ?ns}" and ne: "?ks \<noteq> []" using w(4)[OF assms(2)] by (simp_all add: inside_def)
  have ins: "set (l_in (?ns ! k)) \<subseteq> {..<length ?ns}" if "k \<in> set ?ks" for k
    using w(8)[OF assms(2) _ that] by (simp add: inside_def)
  obtain h where h: "layer_height ?ns ?ks = Fin h" "\<forall>k \<in> set ?ks. fin_val (l_height (?ns ! k)) \<le> h"
    using layer_height_bound[OF assms(1,2)] by blast
  have "is_fin (x_at ?ns k) \<and> (\<forall>j \<in> set (l_in (?ns ! k)). is_fin (x_at ?ns j))" if "k \<in> set ?ks" for k
    using that sub ins[OF that] all_finD[OF w(3)] by auto
  then obtain d where d: "layer_delta ?ns ?ks = Fin d" using layer_delta_fin by blast
  have hs: "layer_height ns ?ks = Fin h" using layer_height_same[OF assms(3) sub] h(1) by simp
  have ds: "layer_delta ns ?ks = Fin d" using layer_delta_same[OF assms(3) sub] ins d by simp
  define y where "y = y0 + max (d / 8) (40 + h0 / 2 + h / 2)"
  have "space_step (lay_layers st) (ns, Fin y0, Fin h0) (Suc m) = Inr (set_y ?ks (Fin y) ns, Fin y, Fin h)"
    using layer_at_layer[OF ne] by (simp add: space_step_def layer_at_def hs ds y_def Let_def)
  moreover have "y0 + h0 / 2 + 40 + h / 2 \<le> y" by (simp add: y_def)
  ultimately show ?thesis using h(2) by blast
qed

lemma at_row_set:
  assumes "wf_layout st n" "j \<le> n" "a \<le> n" "same_rows (lay_nodes st) ns"
    "a \<noteq> j \<Longrightarrow> at_row ns (layer st a) v" "a = j \<Longrightarrow> v = y"
  shows "at_row (set_y (layer st j) (Fin y) ns) (layer st a) v"
proof -
  note w = wf_layoutD[OF assms(1)]
  have sub: "set (layer st i) \<subseteq> {..<length ns}" if "i \<le> n" for i
    using w(4)[OF that] same_rows_length[OF assms(4)] by (simp add: inside_def)
  note f = set_y_frame[OF sub[OF assms(2)], of "Fin y"]
  show ?thesis
  proof (cases "a = j")
    case True
    then show ?thesis using f sub[OF assms(2)] assms(6) by (auto simp: at_row_def subset_iff)
  next
    case False
    have "set (layer st a) \<inter> set (layer st j) = {}" using w(6)[OF assms(3,2) False] .
    then show ?thesis using f sub[OF assms(3)] assms(5)[OF False] by (auto simp: at_row_def subset_iff disjoint_iff)
  qed
qed

lemma rows_loop:
  assumes "wf_layout st n" "m \<le> n"
  shows "\<exists>ns Y H. fold_result (space_step (lay_layers st))
      (set_y (layer st 0) (Fin 0) (lay_nodes st), Fin 0, layer_height (lay_nodes st) (layer st 0)) [1..<Suc m] =
      Inr (ns, Fin (Y m), Fin (H m)) \<and> same_rows (lay_nodes st) ns \<and>
    (\<forall>a \<le> m. at_row ns (layer st a) (Y a) \<and> (\<forall>k \<in> set (layer st a). fin_val (l_height (lay_nodes st ! k)) \<le> H a)) \<and>
    (\<forall>a < m. Y a + H a / 2 + 40 + H (Suc a) / 2 \<le> (Y (Suc a) :: rat))"
  using assms(2)
proof (induction m)
  case 0
  have sub: "set (layer st 0) \<subseteq> {..<length (lay_nodes st)}"
    using wf_layoutD(4)[OF assms(1), of 0] by (simp add: inside_def)
  obtain h where h: "layer_height (lay_nodes st) (layer st 0) = Fin h"
    "\<forall>k \<in> set (layer st 0). fin_val (l_height (lay_nodes st ! k)) \<le> h" using layer_height_bound[OF assms(1)] by blast
  show ?case
    by (intro exI[of _ "set_y (layer st 0) (Fin 0) (lay_nodes st)"] exI[of _ "\<lambda>_. 0"] exI[of _ "\<lambda>_. h"])
      (use set_y_frame[OF sub, of "Fin 0"] sub h in \<open>auto simp: at_row_def subset_iff\<close>)
next
  case (Suc m)
  let ?ks = "layer st (Suc m)" and ?init = "(set_y (layer st 0) (Fin 0) (lay_nodes st), Fin 0, layer_height (lay_nodes st) (layer st 0))"
  obtain ns Y H where ih: "fold_result (space_step (lay_layers st)) ?init [1..<Suc m] = Inr (ns, Fin (Y m), Fin (H m))"
    and s: "same_rows (lay_nodes st) ns" and r: "\<And>a. a \<le> m \<Longrightarrow> at_row ns (layer st a) (Y a)"
    and hs: "\<And>a. a \<le> m \<Longrightarrow> \<forall>k \<in> set (layer st a). fin_val (l_height (lay_nodes st ! k)) \<le> H a"
    and gap: "\<And>a. a < m \<Longrightarrow> Y a + H a / 2 + 40 + H (Suc a) / 2 \<le> (Y (Suc a) :: rat)"
    using Suc by fastforce
  obtain y h where st: "space_step (lay_layers st) (ns, Fin (Y m), Fin (H m)) (Suc m) = Inr (set_y ?ks (Fin y) ns, Fin y, Fin h)"
    and h: "\<forall>k \<in> set ?ks. fin_val (l_height (lay_nodes st ! k)) \<le> h" and y: "Y m + H m / 2 + 40 + h / 2 \<le> y"
    using space_step_row[OF assms(1) Suc.prems s] by blast
  have "set ?ks \<subseteq> {..<length ns}"
    using wf_layoutD(4)[OF assms(1) Suc.prems] same_rows_length[OF s] by (simp add: inside_def)
  then have s': "same_rows (lay_nodes st) (set_y ?ks (Fin y) ns)"
    using same_rows_trans[OF s] set_y_frame[of ?ks ns "Fin y"] by blast
  have "at_row (set_y ?ks (Fin y) ns) (layer st a) ((Y(Suc m := y)) a)" if "a \<le> Suc m" for a
    using that Suc.prems r[of a] by (intro at_row_set[OF assms(1) Suc.prems _ s]) simp_all
  moreover have "\<forall>k \<in> set (layer st a). fin_val (l_height (lay_nodes st ! k)) \<le> (H(Suc m := h)) a" if "a \<le> Suc m" for a
    using h hs[of a] that by (cases "a = Suc m") simp_all
  moreover have "(Y(Suc m := y)) a + (H(Suc m := h)) a / 2 + 40 + (H(Suc m := h)) (Suc a) / 2 \<le> (Y(Suc m := y)) (Suc a)"
    if "a < Suc m" for a using y gap[of a] that by (cases "a = m") simp_all
  moreover have "fold_result (space_step (lay_layers st)) ?init [1..<Suc (Suc m)] = Inr (set_y ?ks (Fin y) ns, Fin y, Fin h)"
    using ih st by (simp add: fold_result_append)
  ultimately show ?case
    using s' by (intro exI[of _ "set_y ?ks (Fin y) ns"] exI[of _ "Y(Suc m := y)"] exI[of _ "H(Suc m := h)"]) (simp del: upt_Suc)
qed

lemma spaceVertically_fin:
  assumes "wf_layout st n"
  shows "\<exists>st'. spaceVertically st = Inr st' \<and> lay_layers st' = lay_layers st \<and> lay_map st' = lay_map st \<and>
    same_rows (lay_nodes st) (lay_nodes st') \<and> (\<forall>a < n. rows_apart (lay_nodes st') (layer st a) (layer st (Suc a)))"
proof -
  note w = wf_layoutD[OF assms]
  obtain ns Y H where r: "fold_result (space_step (lay_layers st))
      (set_y (layer st 0) (Fin 0) (lay_nodes st), Fin 0, layer_height (lay_nodes st) (layer st 0)) [1..<Suc n] =
      Inr (ns, Fin (Y n), Fin (H n))" "same_rows (lay_nodes st) ns"
    "\<And>a. a \<le> n \<Longrightarrow> at_row ns (layer st a) (Y a)"
    "\<And>a. a \<le> n \<Longrightarrow> \<forall>k \<in> set (layer st a). fin_val (l_height (lay_nodes st ! k)) \<le> H a"
    "\<And>a. a < n \<Longrightarrow> Y a + H a / 2 + 40 + H (Suc a) / 2 \<le> (Y (Suc a) :: rat)"
    using rows_loop[OF assms order_refl] by blast
  have "layer st 0 \<noteq> []" using w(4)[of 0] by (simp add: inside_def)
  then have run: "spaceVertically st = Inr (st\<lparr>lay_nodes := ns\<rparr>)"
    using r(1) w(1) layer_at_layer[of st 0] by (simp add: spaceVertically_def)
  have hv: "\<exists>v. l_height (ns ! k) = Fin v \<and> v \<le> H a" if "a \<le> n" "k \<in> set (layer st a)" for a k
  proof -
    have k: "k < length (lay_nodes st)" using w(4)[OF that(1)] that(2) by (auto simp: inside_def)
    then obtain v where "l_height (lay_nodes st ! k) = Fin v" using fin_boxes_nth[OF w(2)] by (auto simp: is_fin_conv)
    with same_rows_nth[OF r(2) k] r(4)[OF that(1)] that(2) show ?thesis by auto
  qed
  have "rows_apart ns (layer st a) (layer st (Suc a))" if a: "a < n" for a
    unfolding rows_apart_def
  proof (intro ballI)
    fix k j
    assume k: "k \<in> set (layer st a)" and j: "j \<in> set (layer st (Suc a))"
    obtain v u where "l_height (ns ! k) = Fin v" "v \<le> H a" "l_height (ns ! j) = Fin u" "u \<le> H (Suc a)"
      using hv[of a k] hv[of "Suc a" j] a k j by auto
    moreover have "l_y (ns ! k) = Fin (Y a)" "l_y (ns ! j) = Fin (Y (Suc a))"
      using r(3)[of a] r(3)[of "Suc a"] a k j by (simp_all add: at_row_def)
    ultimately show "l_y (ns ! k) + l_height (ns ! k) / Fin 2 + Fin 40 \<le> l_y (ns ! j) - l_height (ns ! j) / Fin 2"
      using r(5)[OF a] by simp
  qed
  with run r(2) show ?thesis by simp
qed



text \<open>The state after the dummies of a small flow: three nodes in a row and an edge that skips one level.\<close>

definition demo_nodes :: "gnode list" where
  "demo_nodes = map (\<lambda>n. n\<lparr>g_width := NaN\<rparr>) sample_graph"

definition demo_edges :: "ledge list" where
  "demo_edges = map (\<lambda>(a, b). \<lparr>e_from = a, e_to = b, e_guides = None\<rparr>)
     [(''a'', ''b''), (''a'', ''c''), (''b'', ''c'')]"

definition demo_layout :: layout where
  "demo_layout =
     (case and_then (prepareLayout 10 demo_nodes [None, None, None] (Fin 10))
        (\<lambda>st. fold_result dummies_of_edge (st, []) demo_edges) of
      Inr (st, _) \<Rightarrow> st)"

lemma demo_layout_eval:
  "demo_layout = \<lparr>lay_nodes =
     [\<lparr>l_level = Some (Fin 0), l_in = [], l_out = [1, 3], l_width = Fin (51 / 2), l_height = Fin 10, l_x = Fin 0, l_y = NaN\<rparr>,
      \<lparr>l_level = Some (Fin 1), l_in = [0], l_out = [2], l_width = Fin (51 / 2), l_height = Fin 10, l_x = Fin 0, l_y = NaN\<rparr>,
      \<lparr>l_level = Some (Fin 2), l_in = [3, 1], l_out = [], l_width = Fin (51 / 2), l_height = Fin 10, l_x = Fin 0, l_y = NaN\<rparr>,
      \<lparr>l_level = Some (Fin 1), l_in = [0], l_out = [2], l_width = Fin 10, l_height = Fin 10, l_x = Fin 0, l_y = NaN\<rparr>],
     lay_map = [(''a'', 0), (''b'', 1), (''c'', 2)],
     lay_layers = [(Some (Fin 0), [0]), (Some (Fin 1), [1, 3]), (Some (Fin 2), [2])], lay_max = Fin 2\<rparr>"
  by code_simp

lemma demo_wf: "wf_layout demo_layout 2"
proof -
  have all: "(\<forall>i \<le> (2 :: nat). P i) \<longleftrightarrow> P 0 \<and> P 1 \<and> P 2" for P
    by (auto simp: le_Suc_eq numeral_2_eq_2)
  have l: "layer demo_layout 0 = [0]" "layer demo_layout 1 = [1, 3]" "layer demo_layout 2 = [2]"
    by (simp_all add: layer_def layer_at_def demo_layout_eval)
  show ?thesis unfolding wf_layout_def all l
    by (auto simp: demo_layout_eval fin_boxes_def all_fin_def x_at_def inside_def less_Suc_eq numeral_3_eq_3 numeral_2_eq_2)
qed


end
