(* ===== verification/Schedule.thy ===== *)
theory Schedule
  imports LocalTime JsSort GraphWalk
begin

text \<open>
  The calendar of scheduled and past flows, \<open>view/schedule-svg.js\<close>: which occurrences of a schedule
  fall into the week (\<open>processItem\<close>), how an occurrence is cut at midnight (\<open>addItem\<close>), and how the
  pieces of a day are packed into columns and drawn (\<open>renderDays\<close>). Timestamps are integers.
\<close>

subsection \<open>Items\<close>

record sched =
  s_id :: int
  s_flow :: string
  s_project :: string
  s_time :: int
  s_length :: int
  s_period :: int
  s_history :: bool
  s_status :: int
  s_color :: string

record item =
  i_id :: int
  i_flow :: string
  i_project :: string
  i_time :: int
  i_length :: int
  i_sched :: sched

record week =
  w_days :: "item list list"
  w_byId :: "(int \<times> item list) list"

definition empty_week :: week where
  "empty_week = \<lparr>w_days = replicate 7 [], w_byId = []\<rparr>"

fun id_put :: "int \<Rightarrow> item list \<Rightarrow> (int \<times> item list) list \<Rightarrow> (int \<times> item list) list" where
  "id_put k v [] = [(k, v)]"
| "id_put k v ((k', v') # m) = (if k = k' then (k, v) # m else (k', v') # id_put k v m)"

subsection \<open>Cutting an occurrence at midnight\<close>

text \<open>The loop over the excess: the days after the first, each with at most a day of it.\<close>

function pieces :: "int \<Rightarrow> int \<Rightarrow> (int \<times> int) list" where
  "pieces nextMorning excess =
     (if 0 < excess then (nextMorning, min excess day_ms) # pieces (nextMorning + day_ms) (excess - min excess day_ms)
      else [])"
  by pat_completeness auto
termination by (relation "measure (\<lambda>(_, e). nat e)") auto

declare pieces.simps [simp del]

text \<open>
  \<open>itemByDay[index].push\<close>: an index that is no whole number names no day, and \<open>undefined.push\<close> throws.
\<close>

definition put_item :: "int \<Rightarrow> int \<Rightarrow> item \<Rightarrow> week \<Rightarrow> week result" where
  "put_item firstDay start obj w =
     (if 0 \<le> start - firstDay \<and> start - firstDay < 7 * day_ms then
        (if (start - firstDay) mod day_ms \<noteq> 0 then Inl TypeError
         else Inr (w\<lparr>w_days := upd_at (nat ((start - firstDay) div day_ms)) (\<lambda>d. d @ [obj]) (w_days w),
                     w_byId := id_put (i_id obj)
                       (case map_of (w_byId w) (i_id obj) of None \<Rightarrow> [obj] | Some os \<Rightarrow> os @ [obj]) (w_byId w)\<rparr>))
      else Inr w)"

text \<open>
  The second half of the source's condition compares a number with the text of a date, which is
  never equal; so only the dates of start and end decide.
\<close>

fun addItem :: "calendar \<Rightarrow> int \<Rightarrow> nat \<Rightarrow> item \<Rightarrow> week \<Rightarrow> week result" where
  "addItem c firstDay 0 obj w = Inl NoReturn"
| "addItem c firstDay (Suc fuel) obj w =
     (let start = midnight c (i_time obj); end = midnight c (i_time obj + i_length obj) in
      if start \<noteq> end then
        (let nextMorning = start + day_ms;
             excess = i_length obj - (nextMorning - i_time obj);
             obj' = obj\<lparr>i_length := nextMorning - i_time obj\<rparr>
         in and_then
              (fold_result (\<lambda>w p. addItem c firstDay fuel (obj\<lparr>i_time := fst p, i_length := snd p\<rparr>) w) w
                 (pieces nextMorning excess))
              (put_item firstDay start obj'))
      else put_item firstDay start obj w)"

subsection \<open>The occurrences of a schedule\<close>

text \<open>\<open>while (firstTime < restrictedStartTime) firstTime += period\<close>, entered with a positive period.\<close>

function advance :: "int \<Rightarrow> int \<Rightarrow> int \<Rightarrow> int" where
  "advance period restricted t = (if t < restricted \<and> 0 < period then advance period restricted (t + period) else t)"
  by pat_completeness auto
termination by (relation "measure (\<lambda>(_, r, t). nat (r - t))") auto

declare advance.simps [simp del]

definition first_time :: "int \<Rightarrow> sched \<Rightarrow> int" where
  "first_time restricted s =
     (if 0 < s_period s
      then (let periods = max 0 ((restricted - s_time s) div s_period s)
            in advance (s_period s) restricted (s_time s + s_period s * periods))
      else s_time s)"

function occurrences :: "int \<Rightarrow> int \<Rightarrow> int \<Rightarrow> int list" where
  "occurrences period endTime t = (if t < endTime \<and> 0 < period then t # occurrences period endTime (t + period) else [])"
  by pat_completeness auto
termination by (relation "measure (\<lambda>(_, e, t). nat (e - t))") auto

declare occurrences.simps [simp del]

definition occurrence :: "sched \<Rightarrow> int \<Rightarrow> int \<Rightarrow> item" where
  "occurrence s t len =
     \<lparr>i_id = s_id s, i_flow = s_flow s, i_project = s_project s, i_time = t, i_length = len, i_sched = s\<rparr>"

text \<open>The calls of \<open>addItem\<close> that \<open>processItem\<close> makes, in order.\<close>

definition item_calls :: "int \<Rightarrow> int \<Rightarrow> sched \<Rightarrow> bool \<Rightarrow> item list" where
  "item_calls firstDay today s scheduled =
     (let endTime = firstDay + 7 * day_ms;
          restricted = (if scheduled then max firstDay today else firstDay);
          t = first_time restricted s
      in if s_period s \<le> 0 then (if restricted \<le> t \<and> t < endTime then [occurrence s t (s_length s)] else [])
         else if s_period s \<le> hour_ms then [occurrence s t (endTime - t)]
         else map (\<lambda>t. occurrence s t (s_length s)) (occurrences (s_period s) endTime t))"

definition processItem :: "calendar \<Rightarrow> int \<Rightarrow> int \<Rightarrow> nat \<Rightarrow> sched \<Rightarrow> bool \<Rightarrow> week \<Rightarrow> week result" where
  "processItem c firstDay today fuel s scheduled w =
     fold_result (\<lambda>w obj. addItem c firstDay fuel obj w) w (item_calls firstDay today s scheduled)"

text \<open>The two success handlers, up to the re-rendering.\<close>

definition load_flows :: "calendar \<Rightarrow> int \<Rightarrow> int \<Rightarrow> nat \<Rightarrow> sched list \<Rightarrow> week \<Rightarrow> week result" where
  "load_flows c firstDay today fuel ss w =
     fold_result (\<lambda>w s. processItem c firstDay today fuel (s\<lparr>s_color := ''#69F''\<rparr>) True w) w ss"

definition history_color :: "int \<Rightarrow> string" where
  "history_color status = (if status = 60 \<or> status = 70 \<or> status = 80 then ''#E77'' else ''#7E7'')"

definition load_history :: "calendar \<Rightarrow> int \<Rightarrow> int \<Rightarrow> nat \<Rightarrow> sched list \<Rightarrow> week \<Rightarrow> week result" where
  "load_history c firstDay today fuel ss w =
     fold_result (\<lambda>w s. processItem c firstDay today fuel (s\<lparr>s_color := history_color (s_status s)\<rparr>) False w) w ss"

subsection \<open>Packing a day into columns\<close>

definition intersect :: "item \<Rightarrow> item \<Rightarrow> bool" where
  "intersect a b \<longleftrightarrow> i_time a < i_time b + i_length b \<and> i_time b < i_time a + i_length a"

definition intersectArray :: "item \<Rightarrow> item list \<Rightarrow> bool" where
  "intersectArray a arry \<longleftrightarrow> list_ex (intersect a) arry"

definition item_cmp :: "item \<Rightarrow> item \<Rightarrow> jsnum" where
  "item_cmp a b =
     (if i_time a - i_time b = 0 then
        (if i_length b - i_length a = 0 then
           (if i_flow a < i_flow b then Fin 1 else if i_flow b < i_flow a then Fin (-1) else Fin 0)
         else Fin (of_int (i_length b - i_length a)))
      else Fin (of_int (i_time a - i_time b)))"

text \<open>What the context menu hides: items of a project, and items of a flow of a project.\<close>

record filters =
  f_project :: "item list"
  f_flow :: "item list"

definition filterApplies :: "filters \<Rightarrow> item \<Rightarrow> bool" where
  "filterApplies f it \<longleftrightarrow>
     list_ex (\<lambda>p. i_project it = i_project p) (f_project f) \<or>
     list_ex (\<lambda>p. i_project it = i_project p \<and> i_flow it = i_flow p) (f_flow f)"

fun place_item :: "item \<Rightarrow> item list list \<Rightarrow> item list list" where
  "place_item a [] = [[a]]"
| "place_item a (col # cols) = (if intersectArray a col then col # place_item a cols else (col @ [a]) # cols)"

definition columns :: "filters \<Rightarrow> item list \<Rightarrow> item list list" where
  "columns f data = foldl (\<lambda>cols a. if filterApplies f a then cols else place_item a cols) [[]] data"

definition day_columns :: "filters \<Rightarrow> item list \<Rightarrow> item list list" where
  "day_columns f data = columns f (js_sort item_cmp data)"

subsection \<open>Drawing\<close>

record box =
  b_x :: int
  b_y :: int
  b_width :: int
  b_height :: int
  b_fill :: string
  b_url :: string
  b_item :: item

definition start_y :: "calendar \<Rightarrow> item \<Rightarrow> int" where
  "start_y c it = hours_of c (i_time it) * 40 + minutes_of c (i_time it) * 40 div 60"

definition box_height :: "calendar \<Rightarrow> item \<Rightarrow> int" where
  "box_height c it =
     (let endY = \<lceil>of_int (start_y c it) + of_int (i_length it * 40) / (of_int hour_ms :: rat)\<rceil>;
          deltaY = endY - start_y c it
      in if deltaY < 5 then 5 else deltaY)"

definition draw_column :: "calendar \<Rightarrow> string \<Rightarrow> int \<Rightarrow> nat \<Rightarrow> nat \<times> item list \<Rightarrow> box list" where
  "draw_column c contextURL dayWidth n ic = (case ic of (i, col) \<Rightarrow>
     map (\<lambda>it. \<lparr>b_x = int i * dayWidth div int n, b_y = start_y c it,
                b_width = \<lceil>of_int dayWidth / (of_nat n :: rat)\<rceil>, b_height = box_height c it,
                b_fill = s_color (i_sched it),
                b_url = contextURL @ ''/manager?project='' @ i_project it @ ''&flow='' @ i_flow it,
                b_item = it\<rparr>) col)"

definition draw_day :: "calendar \<Rightarrow> string \<Rightarrow> int \<Rightarrow> filters \<Rightarrow> item list \<Rightarrow> box list" where
  "draw_day c contextURL dayWidth f data =
     (let cols = day_columns f data
      in concat (map (draw_column c contextURL dayWidth (length cols)) (zip [0..<length cols] cols)))"

text \<open>\<open>renderDays\<close> sorts each day's list in place before drawing it.\<close>

definition renderDays :: "calendar \<Rightarrow> string \<Rightarrow> int \<Rightarrow> filters \<Rightarrow> week \<Rightarrow> week \<times> box list list" where
  "renderDays c contextURL dayWidth f w =
     (w\<lparr>w_days := map (js_sort item_cmp) (w_days w)\<rparr>, map (draw_day c contextURL dayWidth f) (w_days w))"

subsection \<open>Texts\<close>

definition getHourText :: "int \<Rightarrow> string" where
  "getHourText hour =
     (if hour = 0 then ''12 AM'' else if hour < 12 then show_int hour @ '' AM''
      else if hour = 12 then ''12 PM'' else show_int (hour - 12) @ '' PM'')"

definition formatReadablePeriod :: "int \<Rightarrow> string" where
  "formatReadablePeriod period =
     (let days = period div day_ms; hour = period - days * day_ms;
          hours = hour div hour_ms; min = hour - hours * hour_ms; mins = min div 60000;
          text = (if 0 < days then (if days = 1 then ''24 hours'' else show_int days @ '' days'') else []);
          text = (if 0 < hours then text @ '' '' @ (if hours = 1 then ''1 hour'' else show_int hours @ '' hours'') else text)
      in if 0 < mins then text @ '' '' @ (if mins = 1 then ''1 minute'' else show_int mins @ '' minutes'') else text)"

text \<open>The two lines of the tooltip in \<open>handleMouseOver\<close>.\<close>

definition tooltip_text :: "item \<Rightarrow> string list" where
  "tooltip_text obj =
     [''\"'' @ i_flow obj @ ''\" from \"'' @ i_project obj @ ''\"'',
      (let s = i_sched obj in
       if s_period s = 0 then
         (if s_history s then
            (if s_status s = 50 then ''SUCCEEDED'' else if s_status s = 60 then ''KILLED''
             else if s_status s = 70 then ''FAILED'' else if s_status s = 80 then ''FAILED_FINISHING''
             else if s_status s = 90 then ''SKIPPED'' else [])
          else [])
       else ''Repeat: '' @ formatReadablePeriod (s_period s))]"

definition hide_flow :: "item \<Rightarrow> filters \<Rightarrow> filters" where
  "hide_flow it f = f\<lparr>f_flow := f_flow f @ [it]\<rparr>"

definition hide_project :: "item \<Rightarrow> filters \<Rightarrow> filters" where
  "hide_project it f = f\<lparr>f_project := f_project f @ [it]\<rparr>"

end
