(* ===== verification/ScheduleWeek.thy ===== *)
theory ScheduleWeek
  imports Schedule
begin

text \<open>
  What the week view holds after \<open>processItem\<close> and \<open>addItem\<close>: the right occurrences, cut at midnight
  without gaps; and what happens in a week in which the clocks change.
\<close>

subsection \<open>Occurrences\<close>

lemma advance_spec:
  assumes "0 < p"
  shows "\<exists>k \<ge> 0. advance p r t = t + p * k \<and> r \<le> advance p r t \<and> (k = 0 \<or> advance p r t - p < r)"
  using assms
proof (induction p r t rule: advance.induct)
  case (1 p r t)
  show ?case
  proof (cases "t < r")
    case True
    with 1 obtain k where k: "0 \<le> k" "advance p r (t + p) = t + p + p * k" "r \<le> advance p r (t + p)"
      "k = 0 \<or> advance p r (t + p) - p < r" by blast
    have step: "advance p r t = advance p r (t + p)" using True 1 by (subst advance.simps) simp
    have "advance p r t - p < r" using k(2,4) step True by auto
    with k step show ?thesis by (intro exI[of _ "k + 1"]) (simp add: algebra_simps)
  next
    case False
    then have "advance p r t = t" by (subst advance.simps) simp
    with False show ?thesis by (intro exI[of _ 0]) simp
  qed
qed

text \<open>\<open>first_time\<close> is the first time of the schedule that is not before the restriction.\<close>

lemma first_time_spec:
  assumes "0 < s_period s"
  shows "\<exists>k \<ge> 0. first_time r s = s_time s + s_period s * k \<and> r \<le> first_time r s \<and>
    (\<forall>j \<ge> 0. r \<le> s_time s + s_period s * j \<longrightarrow> k \<le> j)"
proof -
  let ?p = "s_period s"
  define q where "q = max 0 ((r - s_time s) div ?p)"
  have q0: "0 \<le> q" by (simp add: q_def)
  obtain k where k: "0 \<le> k" "first_time r s = s_time s + ?p * q + ?p * k" "r \<le> first_time r s"
    "k = 0 \<or> first_time r s - ?p < r"
    using advance_spec[OF assms, of r "s_time s + ?p * q"] assms by (auto simp: first_time_def q_def)
  have "q + k \<le> j" if j: "0 \<le> j" "r \<le> s_time s + ?p * j" for j
  proof (cases "k = 0")
    case True
    have "(r - s_time s) div ?p \<le> (?p * j) div ?p" using j(2) assms by (intro zdiv_mono1) simp_all
    then show ?thesis using True j(1) assms by (simp add: q_def)
  next
    case False
    with k have "s_time s + ?p * (q + k - 1) < r" by (simp add: algebra_simps)
    with j have "?p * (q + k - 1) < ?p * j" by linarith
    with assms have "q + k - 1 < j" by (simp add: mult_less_cancel_left_pos)
    then show ?thesis by simp
  qed
  with k q0 show ?thesis by (intro exI[of _ "q + k"]) (simp add: algebra_simps)
qed

lemma set_occurrences:
  assumes "0 < p"
  shows "set (occurrences p e t) = {t + p * k |k. 0 \<le> k \<and> t + p * k < e}"
  using assms
proof (induction p e t rule: occurrences.induct)
  case (1 p e t)
  show ?case
  proof (cases "t < e")
    case True
    have "occurrences p e t = t # occurrences p e (t + p)" using True 1 by (subst occurrences.simps) simp
    then have "set (occurrences p e t) = insert t {t + p + p * k |k. 0 \<le> k \<and> t + p + p * k < e}"
      using 1 True by simp
    also have "\<dots> = {t + p * k |k. 0 \<le> k \<and> t + p * k < e}"
    proof (intro equalityI subsetI)
      fix x
      assume "x \<in> insert t {t + p + p * k |k. 0 \<le> k \<and> t + p + p * k < e}"
      then consider "x = t" | k where "x = t + p + p * k" "0 \<le> k" "t + p + p * k < e" by blast
      then show "x \<in> {t + p * k |k. 0 \<le> k \<and> t + p * k < e}"
      proof cases
        case 1
        with True show ?thesis by (auto intro: exI[of _ 0])
      next
        case 2
        then show ?thesis by (auto intro!: exI[of _ "k + 1"] simp: algebra_simps)
      qed
    next
      fix x
      assume "x \<in> {t + p * k |k. 0 \<le> k \<and> t + p * k < e}"
      then obtain k where k: "x = t + p * k" "0 \<le> k" "t + p * k < e" by blast
      show "x \<in> insert t {t + p + p * k |k. 0 \<le> k \<and> t + p + p * k < e}"
      proof (cases "k = 0")
        case False
        with k have "x = t + p + p * (k - 1)" "0 \<le> k - 1" by (simp_all add: algebra_simps)
        with k show ?thesis by (auto intro: exI[of _ "k - 1"])
      qed (use k in simp)
    qed
    finally show ?thesis .
  next
    case False
    have "t + p * k \<ge> e" if "0 \<le> k" for k
      using False that 1(2) mult_nonneg_nonneg[of p k] by linarith
    then have "{t + p * k |k. 0 \<le> k \<and> t + p * k < e} = {}" by fastforce
    moreover have "occurrences p e t = []" using False by (subst occurrences.simps) simp
    ultimately show ?thesis by simp
  qed
qed

text \<open>
  A schedule that repeats less often than every hour is entered exactly at its times of the week
  that are not over yet: the times are all multiples of the period after the first time, from the
  restricted start (now, for a schedule of this week) up to the end of the week.
\<close>

theorem item_calls_times:
  assumes "hour_ms < s_period s"
  shows "i_time ` set (item_calls firstDay today s scheduled) =
    {t. (\<exists>k \<ge> 0. t = s_time s + s_period s * k) \<and>
        (if scheduled then max firstDay today else firstDay) \<le> t \<and> t < firstDay + 7 * day_ms}"
proof -
  define r where "r = (if scheduled then max firstDay today else firstDay)"
  define e where "e = firstDay + 7 * day_ms"
  let ?p = "s_period s"
  have p: "0 < ?p" using assms by simp
  obtain k where k: "0 \<le> k" "first_time r s = s_time s + ?p * k" "r \<le> first_time r s"
    "\<And>j. 0 \<le> j \<Longrightarrow> r \<le> s_time s + ?p * j \<Longrightarrow> k \<le> j"
    using first_time_spec[OF p] by blast
  have "i_time ` set (item_calls firstDay today s scheduled) = set (occurrences ?p e (first_time r s))"
    using assms p by (simp add: item_calls_def r_def e_def occurrence_def image_image Let_def)
  also have "\<dots> = {first_time r s + ?p * j |j. 0 \<le> j \<and> first_time r s + ?p * j < e}" by (rule set_occurrences[OF p])
  also have "\<dots> = {t. (\<exists>j \<ge> 0. t = s_time s + ?p * j) \<and> r \<le> t \<and> t < e}"
  proof (intro equalityI subsetI)
    fix t
    assume "t \<in> {first_time r s + ?p * j |j. 0 \<le> j \<and> first_time r s + ?p * j < e}"
    then obtain j where j: "t = first_time r s + ?p * j" "0 \<le> j" "t < e" by blast
    have "0 \<le> ?p * j" using p j(2) by simp
    then have "r \<le> t" using k(3) j(1) by linarith
    moreover have "t = s_time s + ?p * (k + j)" using j(1) k(2) by (simp add: algebra_simps)
    ultimately show "t \<in> {t. (\<exists>j \<ge> 0. t = s_time s + ?p * j) \<and> r \<le> t \<and> t < e}"
      using j k(1) by (auto intro: exI[of _ "k + j"])
  next
    fix t
    assume "t \<in> {t. (\<exists>j \<ge> 0. t = s_time s + ?p * j) \<and> r \<le> t \<and> t < e}"
    then obtain j where j: "0 \<le> j" "t = s_time s + ?p * j" "r \<le> t" "t < e" by blast
    have "k \<le> j" using k(4)[OF j(1)] j(2,3) by simp
    moreover have "t = first_time r s + ?p * (j - k)" using j(2) k(2) by (simp add: algebra_simps)
    ultimately show "t \<in> {first_time r s + ?p * j |j. 0 \<le> j \<and> first_time r s + ?p * j < e}"
      using j(4) by (auto intro: exI[of _ "j - k"])
  qed
  finally show ?thesis by (simp add: r_def e_def)
qed

definition nightly :: sched where
  "nightly = \<lparr>s_id = 7, s_flow = ''etl'', s_project = ''dw'', s_time = hour_ms, s_length = 2 * hour_ms,
     s_period = day_ms, s_history = False, s_status = 0, s_color = ''#69F''\<rparr>"

theorem item_calls_times_witness:
  "i_time ` set (item_calls 0 (5 * day_ms) nightly True) = {5 * day_ms + hour_ms, 6 * day_ms + hour_ms}"
proof -
  have "i_time ` set (item_calls 0 (5 * day_ms) nightly True) =
    {t. (\<exists>k \<ge> 0. t = hour_ms + day_ms * k) \<and> 5 * day_ms \<le> t \<and> t < 7 * day_ms}"
    using item_calls_times[of nightly 0 "5 * day_ms" True] by (simp add: nightly_def)
  also have "\<dots> = {5 * day_ms + hour_ms, 6 * day_ms + hour_ms}"
  proof -
    have "k = 5 \<or> k = 6" if "5 * day_ms \<le> hour_ms + day_ms * k" "hour_ms + day_ms * k < 7 * day_ms" for k :: int
      using that by linarith
    then show ?thesis by (auto intro: exI[of _ 5] exI[of _ 6])
  qed
  finally show ?thesis .
qed

subsection \<open>Cutting at midnight, in a zone with a fixed offset\<close>

lemma midnight_zone:
  "midnight (zone off) t \<le> t" "t < midnight (zone off) t + day_ms" "(midnight (zone off) t + off) mod day_ms = 0"
proof -
  have z: "midnight (zone off) t = t - (t + off) mod day_ms" by (simp add: zone_def)
  have "t - (t + off) mod day_ms + off = (t + off) - (t + off) mod day_ms" by simp
  then have "midnight (zone off) t + off = day_ms * ((t + off) div day_ms)"
    unfolding z by (simp only: minus_mod_eq_mult_div)
  then show "(midnight (zone off) t + off) mod day_ms = 0" by simp
qed (simp_all add: zone_def)

lemma aligned_add: "(a :: int) mod d = 0 \<Longrightarrow> b mod d = 0 \<Longrightarrow> (a + b) mod d = 0"
  by (simp add: mod_eq_0_iff_dvd)

lemma aligned_diff: "(a :: int) mod d = 0 \<Longrightarrow> b mod d = 0 \<Longrightarrow> (a - b) mod d = 0"
  by (simp add: mod_eq_0_iff_dvd)

lemma aligned_next: "(m + off) mod day_ms = 0 \<Longrightarrow> (m + int k * day_ms + off) mod day_ms = 0"
  using aligned_add[of "m + off" day_ms "int k * day_ms"] by (simp add: algebra_simps)

lemma midnight_unique:
  assumes "(m + off) mod day_ms = 0" "m \<le> t" "t < m + day_ms"
  shows "midnight (zone off) t = m"
proof -
  have "(t + off) mod day_ms = ((m + off) + (t - m)) mod day_ms" by (simp add: add.commute)
  also have "\<dots> = ((m + off) mod day_ms + (t - m)) mod day_ms" by (rule mod_add_left_eq[symmetric])
  also have "\<dots> = t - m" using assms by (simp add: mod_pos_pos_trivial)
  finally show ?thesis by (simp add: zone_def)
qed

definition portion :: "item \<Rightarrow> int \<times> int \<Rightarrow> item" where
  "portion obj p = obj\<lparr>i_time := fst p, i_length := snd p\<rparr>"

definition portions :: "int \<Rightarrow> item \<Rightarrow> (int \<times> int) list" where
  "portions off obj =
     (let start = midnight (zone off) (i_time obj) in
      if start \<noteq> midnight (zone off) (i_time obj + i_length obj)
      then pieces (start + day_ms) (i_length obj - (start + day_ms - i_time obj)) @ [(i_time obj, start + day_ms - i_time obj)]
      else [(i_time obj, i_length obj)])"

lemma pieces_spec:
  "(\<forall>p \<in> set (pieces n e). (fst p - n) mod day_ms = 0 \<and> 0 < snd p \<and> snd p \<le> day_ms) \<and>
   ((\<exists>p \<in> set (pieces n e). fst p \<le> t \<and> t < fst p + snd p) \<longleftrightarrow> n \<le> t \<and> t < n + e)"
proof (induction n e rule: pieces.induct)
  case (1 n e)
  show ?case
  proof (cases "0 < e")
    case True
    define m where "m = min e day_ms"
    have m: "0 < m" "m \<le> day_ms" "m \<le> e" "m < day_ms \<longrightarrow> m = e" using True by (auto simp: m_def)
    have ps: "pieces n e = (n, m) # pieces (n + day_ms) (e - m)"
      using True by (subst pieces.simps) (simp add: m_def)
    have ih: "\<forall>p \<in> set (pieces (n + day_ms) (e - m)). (fst p - (n + day_ms)) mod day_ms = 0 \<and> 0 < snd p \<and> snd p \<le> day_ms"
      "(\<exists>p \<in> set (pieces (n + day_ms) (e - m)). fst p \<le> t \<and> t < fst p + snd p) \<longleftrightarrow> n + day_ms \<le> t \<and> t < n + day_ms + (e - m)"
      using 1[OF True] by (simp_all add: m_def)
    have "(fst p - n) mod day_ms = 0" if "(fst p - (n + day_ms)) mod day_ms = 0" for p :: "int \<times> int"
      using that by (simp add: diff_diff_eq[symmetric])
    then have a: "\<forall>p \<in> set (pieces n e). (fst p - n) mod day_ms = 0 \<and> 0 < snd p \<and> snd p \<le> day_ms"
      using ih(1) m unfolding ps by auto
    have "(\<exists>p \<in> set (pieces n e). fst p \<le> t \<and> t < fst p + snd p) \<longleftrightarrow>
        (n \<le> t \<and> t < n + m) \<or> (n + day_ms \<le> t \<and> t < n + day_ms + (e - m))"
      unfolding ps using ih(2) by simp
    also have "\<dots> \<longleftrightarrow> n \<le> t \<and> t < n + e" using m by auto
    finally show ?thesis using a by blast
  next
    case False
    then show ?thesis by (subst (1 2) pieces.simps) auto
  qed
qed


lemma addItem_piece:
  assumes "(n + off) mod day_ms = 0" "0 < l" "l \<le> day_ms"
  shows "addItem (zone off) fd (Suc fuel) (obj\<lparr>i_time := n, i_length := l\<rparr>) w =
    put_item fd n (obj\<lparr>i_time := n, i_length := l\<rparr>) w"
proof -
  have s: "midnight (zone off) n = n" by (rule midnight_unique) (use assms in simp_all)
  show ?thesis
  proof (cases "l = day_ms")
    case True
    have "(n + day_ms + off) mod day_ms = 0" using aligned_next[OF assms(1), of 1] by simp
    then have "midnight (zone off) (n + day_ms) = n + day_ms" by (intro midnight_unique) simp_all
    moreover have "pieces (n + day_ms) 0 = []" by (subst pieces.simps) simp
    ultimately show ?thesis using s True by (simp add: Let_def)
  next
    case False
    then have "midnight (zone off) (n + l) = n" by (intro midnight_unique) (use assms in simp_all)
    with s show ?thesis by (simp add: Let_def)
  qed
qed

lemma portion_id: "portion obj (i_time obj, i_length obj) = obj"
  by (simp add: portion_def)

lemma addItem_portions:
  "addItem (zone off) fd (Suc (Suc fuel)) obj w =
   fold_result (\<lambda>w p. put_item fd (midnight (zone off) (fst p)) (portion obj p) w) w (portions off obj)"
proof (cases "midnight (zone off) (i_time obj) = midnight (zone off) (i_time obj + i_length obj)")
  case True
  then show ?thesis by (auto simp: portions_def portion_id Let_def and_then_Inr_iff split: sum.splits)
      (cases "put_item fd (midnight (zone off) (i_time obj + i_length obj)) obj w"; simp)
next
  case False
  define start where "start = midnight (zone off) (i_time obj)"
  define ps where "ps = pieces (start + day_ms) (i_length obj - (start + day_ms - i_time obj))"
  have al: "(start + day_ms + off) mod day_ms = 0"
    using aligned_next[OF midnight_zone(3)[of off "i_time obj"], of 1] by (simp add: start_def)
  have p: "addItem (zone off) fd (Suc fuel) (obj\<lparr>i_time := fst p, i_length := snd p\<rparr>) v =
      put_item fd (midnight (zone off) (fst p)) (portion obj p) v" if "p \<in> set ps" for p v
  proof -
    have q: "(fst p - (start + day_ms)) mod day_ms = 0" "0 < snd p" "snd p \<le> day_ms"
      using pieces_spec[of "start + day_ms" "i_length obj - (start + day_ms - i_time obj)" 0] that by (auto simp: ps_def)
    have m: "(fst p + off) mod day_ms = 0" using aligned_add[OF q(1) al] by simp
    then have "midnight (zone off) (fst p) = fst p" by (intro midnight_unique) simp_all
    with addItem_piece[OF m q(2,3)] show ?thesis by (simp add: portion_def)
  qed
  have "fold_result (\<lambda>w p. addItem (zone off) fd (Suc fuel) (obj\<lparr>i_time := fst p, i_length := snd p\<rparr>) w) w ps =
      fold_result (\<lambda>w p. put_item fd (midnight (zone off) (fst p)) (portion obj p) w) w ps"
    by (rule fold_result_cong[OF refl refl]) (rule p)
  moreover have "portions off obj = ps @ [(i_time obj, start + day_ms - i_time obj)]"
    using False by (simp add: portions_def start_def ps_def Let_def)
  moreover have "and_then r (\<lambda>w'. and_then (f w') Inr) = and_then r f" for r :: "week result" and f :: "week \<Rightarrow> week result"
    by (cases r) (simp, metis and_then.simps sum.exhaust)
  ultimately show ?thesis
    using False by (simp add: fold_result_append Let_def start_def[symmetric] ps_def[symmetric] portion_def del: and_then.simps)
qed

declare addItem.simps [simp del]

text \<open>What \<open>put_item\<close> does to a week that starts at midnight.\<close>

lemma put_item_zone:
  assumes "(fd + off) mod day_ms = 0" "(m + off) mod day_ms = 0" "length (w_days w) = 7"
  shows "\<exists>w'. put_item fd m obj w = Inr w' \<and> length (w_days w') = 7 \<and>
    (\<forall>i < 7. w_days w' ! i = (if m = fd + int i * day_ms then w_days w ! i @ [obj] else w_days w ! i))"
proof (cases "0 \<le> m - fd \<and> m - fd < 7 * day_ms")
  case True
  have "(m - fd) mod day_ms = ((m + off) - (fd + off)) mod day_ms" by simp
  also have "\<dots> = 0" using assms(1,2) by (metis diff_0_right mod_0 mod_diff_eq)
  finally have al: "(m - fd) mod day_ms = 0" .
  define k where "k = nat ((m - fd) div day_ms)"
  have k: "m = fd + int k * day_ms" "k < 7" using True al by (auto simp: k_def)
  have "m = fd + int i * day_ms \<longleftrightarrow> i = k" for i using k(1) by auto
  then show ?thesis using True al assms(3)
    by (simp add: put_item_def k_def[symmetric] nth_upd_at)
next
  case False
  have "m \<noteq> fd + int i * day_ms" if "i < 7" for i using False that by auto
  with False assms(3) show ?thesis by (auto simp: put_item_def)
qed

lemma put_items_zone:
  assumes "(fd + off) mod day_ms = 0" "length (w_days w) = 7"
  shows "\<exists>w'. fold_result (\<lambda>w p. put_item fd (midnight (zone off) (fst p)) (portion obj p) w) w ps = Inr w' \<and>
    length (w_days w') = 7 \<and>
    (\<forall>i < 7. w_days w' ! i =
       w_days w ! i @ map (portion obj) (filter (\<lambda>p. midnight (zone off) (fst p) = fd + int i * day_ms) ps))"
  using assms(2)
proof (induction ps arbitrary: w)
  case (Cons p ps)
  obtain w1 where w1: "put_item fd (midnight (zone off) (fst p)) (portion obj p) w = Inr w1" "length (w_days w1) = 7"
    "\<And>i. i < 7 \<Longrightarrow> w_days w1 ! i = (if midnight (zone off) (fst p) = fd + int i * day_ms
       then w_days w ! i @ [portion obj p] else w_days w ! i)"
    using put_item_zone[OF assms(1) midnight_zone(3)[of off "fst p"] Cons.prems] by blast
  obtain w2 where w2: "fold_result (\<lambda>w p. put_item fd (midnight (zone off) (fst p)) (portion obj p) w) w1 ps = Inr w2"
    "length (w_days w2) = 7"
    "\<And>i. i < 7 \<Longrightarrow> w_days w2 ! i =
       w_days w1 ! i @ map (portion obj) (filter (\<lambda>p. midnight (zone off) (fst p) = fd + int i * day_ms) ps)"
    using Cons.IH[OF w1(2)] by blast
  show ?case
    by (rule exI[of _ w2]) (use w1 w2 in simp)
qed simp

lemma portions_cover:
  assumes "0 \<le> i_length obj"
  shows "(\<exists>p \<in> set (portions off obj). fst p \<le> t \<and> t < fst p + snd p) \<longleftrightarrow>
      i_time obj \<le> t \<and> t < i_time obj + i_length obj"
    "\<forall>p \<in> set (portions off obj). 0 \<le> snd p \<and> fst p + snd p \<le> midnight (zone off) (fst p) + day_ms"
proof -
  let ?m = "midnight (zone off) (i_time obj)"
  note mz = midnight_zone[where off = off and t = "i_time obj"]
  have "((\<exists>p \<in> set (portions off obj). fst p \<le> t \<and> t < fst p + snd p) \<longleftrightarrow>
      i_time obj \<le> t \<and> t < i_time obj + i_length obj) \<and>
    (\<forall>p \<in> set (portions off obj). 0 \<le> snd p \<and> fst p + snd p \<le> midnight (zone off) (fst p) + day_ms)"
  proof (cases "?m = midnight (zone off) (i_time obj + i_length obj)")
    case True
    then have "portions off obj = [(i_time obj, i_length obj)]" by (simp add: portions_def Let_def)
    moreover have "i_time obj + i_length obj < ?m + day_ms" using True midnight_zone(2)[of "i_time obj + i_length obj" off] by simp
    ultimately show ?thesis using assms by simp
  next
    case False
    define e where "e = i_length obj - (?m + day_ms - i_time obj)"
    have ps: "portions off obj = pieces (?m + day_ms) e @ [(i_time obj, ?m + day_ms - i_time obj)]"
      using False by (simp add: portions_def Let_def e_def)
    have e: "0 \<le> e"
    proof (rule ccontr)
      assume "\<not> 0 \<le> e"
      then have "midnight (zone off) (i_time obj + i_length obj) = ?m"
        using mz assms by (intro midnight_unique) (simp_all add: e_def)
      with False show False by simp
    qed
    note sp = pieces_spec[of "?m + day_ms" e]
    have al: "(?m + day_ms + off) mod day_ms = 0" using aligned_next[OF mz(3), of 1] by simp
    have "midnight (zone off) (fst p) = fst p" if "p \<in> set (pieces (?m + day_ms) e)" for p
    proof (rule midnight_unique)
      have "(fst p - (?m + day_ms)) mod day_ms = 0" using sp that by blast
      from aligned_add[OF this al] show "(fst p + off) mod day_ms = 0" by simp
    qed simp_all
    then have "0 \<le> snd p \<and> fst p + snd p \<le> midnight (zone off) (fst p) + day_ms"
      if "p \<in> set (pieces (?m + day_ms) e)" for p
      using conjunct1[OF sp] that by auto
    then have "\<forall>p \<in> set (portions off obj). 0 \<le> snd p \<and> fst p + snd p \<le> midnight (zone off) (fst p) + day_ms"
      unfolding ps using mz(2) by auto
    moreover have "(\<exists>p \<in> set (portions off obj). fst p \<le> t \<and> t < fst p + snd p) \<longleftrightarrow>
        (?m + day_ms \<le> t \<and> t < ?m + day_ms + e) \<or> (i_time obj \<le> t \<and> t < ?m + day_ms)"
      unfolding ps using sp[of t] by auto
    moreover have "\<dots> \<longleftrightarrow> i_time obj \<le> t \<and> t < i_time obj + i_length obj"
      using e mz(2) by (auto simp: e_def)
    ultimately show ?thesis by blast
  qed
  then show "(\<exists>p \<in> set (portions off obj). fst p \<le> t \<and> t < fst p + snd p) \<longleftrightarrow>
      i_time obj \<le> t \<and> t < i_time obj + i_length obj"
    "\<forall>p \<in> set (portions off obj). 0 \<le> snd p \<and> fst p + snd p \<le> midnight (zone off) (fst p) + day_ms" by blast+
qed

definition covers_at :: "item \<Rightarrow> int \<Rightarrow> bool" where
  "covers_at it t \<longleftrightarrow> i_time it \<le> t \<and> t < i_time it + i_length it"

text \<open>
  C8. In a zone without clock changes \<open>addItem\<close> returns after at most one level of recursion, every
  piece it enters lies inside the day it is entered for, and the pieces cover exactly the instants of
  the week that the item covers.
\<close>

theorem addItem_coverage:
  assumes "(firstDay + off) mod day_ms = 0" "0 \<le> i_length obj"
  shows "\<exists>w. addItem (zone off) firstDay (Suc (Suc fuel)) obj empty_week = Inr w \<and>
    (\<forall>i < 7. \<forall>it \<in> set (w_days w ! i). firstDay + int i * day_ms \<le> i_time it \<and>
       i_time it + i_length it \<le> firstDay + (int i + 1) * day_ms) \<and>
    (\<forall>t. firstDay \<le> t \<and> t < firstDay + 7 * day_ms \<longrightarrow>
       (\<exists>i < 7. \<exists>it \<in> set (w_days w ! i). covers_at it t) = covers_at obj t)"
proof -
  let ?mid = "midnight (zone off)"
  define ps where "ps = portions off obj"
  obtain w where w: "addItem (zone off) firstDay (Suc (Suc fuel)) obj empty_week = Inr w"
    "\<And>i. i < 7 \<Longrightarrow> w_days w ! i = map (portion obj) (filter (\<lambda>p. ?mid (fst p) = firstDay + int i * day_ms) ps)"
    using put_items_zone[OF assms(1), of empty_week obj ps]
    unfolding addItem_portions ps_def by (auto simp: empty_week_def)
  note pc = portions_cover[OF assms(2), of off, folded ps_def]
  have "firstDay + int i * day_ms \<le> i_time it \<and> i_time it + i_length it \<le> firstDay + (int i + 1) * day_ms"
    if i: "i < 7" and it: "it \<in> set (w_days w ! i)" for i it
  proof -
    obtain p where p: "p \<in> set ps" "?mid (fst p) = firstDay + int i * day_ms" "it = portion obj p"
      using it w(2)[OF i] by auto
    have "fst p + snd p \<le> ?mid (fst p) + day_ms" using pc(2) p(1) by blast
    with p midnight_zone(1)[of off "fst p"] show ?thesis by (simp add: portion_def algebra_simps)
  qed
  moreover have "(\<exists>i < 7. \<exists>it \<in> set (w_days w ! i). covers_at it t) = covers_at obj t"
    if t: "firstDay \<le> t" "t < firstDay + 7 * day_ms" for t
  proof
    assume "\<exists>i < 7. \<exists>it \<in> set (w_days w ! i). covers_at it t"
    then obtain i it where "i < 7" "it \<in> set (w_days w ! i)" "covers_at it t" by blast
    then obtain p where "p \<in> set ps" "covers_at (portion obj p) t" using w(2) by auto
    with pc(1)[of t] show "covers_at obj t" by (auto simp: covers_at_def portion_def)
  next
    assume "covers_at obj t"
    then obtain p where p: "p \<in> set ps" "fst p \<le> t" "t < fst p + snd p"
      using pc(1)[of t] by (auto simp: covers_at_def)
    define i where "i = nat ((t - firstDay) div day_ms)"
    have i: "i < 7" "firstDay + int i * day_ms \<le> t" "t < firstDay + int i * day_ms + day_ms"
      using t by (auto simp: i_def)
    have m: "?mid (fst p) \<le> fst p" "fst p + snd p \<le> ?mid (fst p) + day_ms" "(?mid (fst p) + off) mod day_ms = 0"
      using midnight_zone[where off = off and t = "fst p"] pc(2) p(1) by auto
    have "?mid t = ?mid (fst p)" by (rule midnight_unique) (use m p in simp_all)
    moreover have "?mid t = firstDay + int i * day_ms"
      by (rule midnight_unique[OF aligned_next[OF assms(1)] i(2,3)])
    ultimately have "portion obj p \<in> set (w_days w ! i)" using w(2)[OF i(1)] p(1) by simp
    moreover have "covers_at (portion obj p) t" using p by (simp add: covers_at_def portion_def)
    ultimately show "\<exists>i < 7. \<exists>it \<in> set (w_days w ! i). covers_at it t" using i(1) by blast
  qed
  ultimately show ?thesis using w(1) by blast
qed

definition evening_item :: item where
  "evening_item = occurrence nightly (day_ms + 22 * hour_ms) (30 * hour_ms)"

theorem addItem_coverage_witness:
  "\<exists>w. addItem (zone 0) 0 2 evening_item empty_week = Inr w \<and>
    (\<exists>i < 7. \<exists>it \<in> set (w_days w ! i). covers_at it (2 * day_ms))"
proof -
  have "(0 + 0) mod day_ms = (0 :: int)" "0 \<le> i_length evening_item"
    by (simp_all add: evening_item_def occurrence_def)
  from addItem_coverage[OF this, of 0] obtain w where w:
    "addItem (zone 0) 0 2 evening_item empty_week = Inr w"
    "\<forall>t. 0 \<le> t \<and> t < 0 + 7 * day_ms \<longrightarrow>
       (\<exists>i < 7. \<exists>it \<in> set (w_days w ! i). covers_at it t) = covers_at evening_item t"
    by (auto simp: numeral_2_eq_2)
  have "covers_at evening_item (2 * day_ms)" by (simp add: covers_at_def evening_item_def occurrence_def)
  with w(2)[rule_format, of "2 * day_ms"] w(1) show ?thesis by auto
qed

subsection \<open>Weeks in which the clocks change\<close>

text \<open>A zone whose offset changes from \<open>o1\<close> to \<open>o2\<close> at the instant \<open>T\<close>.\<close>

definition clock_change :: "int \<Rightarrow> int \<Rightarrow> int \<Rightarrow> calendar" where
  "clock_change T o1 o2 = (zone o1)\<lparr>midnight := (\<lambda>t.
     if t < T then midnight (zone o1) t
     else (let m = midnight (zone o2) t in if m < T then m + (o2 - o1) else m))\<rparr>"

lemma fold_result_fails: "f s x = Inl e \<Longrightarrow> fold_result f s (x # xs) = Inl e"
  by simp

lemma long_day_loop:
  assumes "\<And>t. m \<le> t \<Longrightarrow> t < m + 25 * hour_ms \<Longrightarrow> midnight c t = m"
    "\<And>t. m + 25 * hour_ms \<le> t \<Longrightarrow> midnight c t \<noteq> m"
    "i_time obj = m + day_ms" "hour_ms \<le> i_length obj" "i_length obj \<le> day_ms"
  shows "addItem c firstDay fuel obj w = Inl NoReturn"
  using assms(3-)
proof (induction fuel arbitrary: obj w)
  case (Suc fuel)
  have m: "midnight c (m + day_ms) = m" by (rule assms(1)) simp_all
  have ne: "m \<noteq> midnight c (m + day_ms + i_length obj)"
    using assms(2)[of "m + day_ms + i_length obj"] Suc.prems by simp
  have ps: "pieces (m + day_ms) (i_length obj) =
      (m + day_ms, i_length obj) # pieces (m + day_ms + day_ms) (i_length obj - i_length obj)"
    using Suc.prems by (subst pieces.simps) simp
  have "addItem c firstDay fuel (obj\<lparr>i_time := m + day_ms, i_length := i_length obj\<rparr>) w = Inl NoReturn"
    by (rule Suc.IH) (use Suc.prems in simp_all)
  then show ?case
    by (simp add: addItem.simps(2) m ne Suc.prems(1) ps Let_def)
qed (simp add: addItem.simps(1))

text \<open>
  C24. On a day of 25 hours an item that runs past midnight never gets entered: \<open>addItem\<close> takes the
  next morning to be 24 hours after midnight, which is still the same day, and calls itself without
  end.
\<close>

theorem addItem_long_day_diverges:
  assumes "\<And>t. m \<le> t \<Longrightarrow> t < m + 25 * hour_ms \<Longrightarrow> midnight c t = m"
    "\<And>t. m + 25 * hour_ms \<le> t \<Longrightarrow> midnight c t \<noteq> m"
    "m \<le> i_time obj" "i_time obj < m + 25 * hour_ms" "m + 25 * hour_ms \<le> i_time obj + i_length obj"
  shows "addItem c firstDay fuel obj w = Inl NoReturn"
proof (cases fuel)
  case (Suc f)
  have m: "midnight c (i_time obj) = m" by (rule assms(1)[OF assms(3,4)])
  have ne: "m \<noteq> midnight c (i_time obj + i_length obj)" using assms(2)[OF assms(5)] by simp
  define e where "e = i_length obj - (m + day_ms - i_time obj)"
  have e: "hour_ms \<le> e" using assms(5) by (simp add: e_def)
  have ps: "pieces (m + day_ms) e = (m + day_ms, min e day_ms) # pieces (m + day_ms + day_ms) (e - min e day_ms)"
    using e by (subst pieces.simps) simp
  have "addItem c firstDay f (obj\<lparr>i_time := m + day_ms, i_length := min e day_ms\<rparr>) w = Inl NoReturn"
    by (rule long_day_loop[OF assms(1,2)]) (use e in simp_all)
  then show ?thesis
    by (simp add: Suc addItem.simps(2) m ne e_def[symmetric] ps)
qed (simp add: addItem.simps(1))

text \<open>4 November 2012 in Los Angeles: clocks go back at 9:00 UTC; a job from 22:00 to 2:00.\<close>

definition la_fall :: calendar where
  "la_fall = clock_change 1352019600000 (- 7 * hour_ms) (- 8 * hour_ms)"

theorem addItem_long_day_diverges_witness:
  "addItem la_fall 1352012400000 1000 (occurrence nightly (1352012400000 + 23 * hour_ms) (4 * hour_ms)) empty_week = Inl NoReturn"
proof (rule addItem_long_day_diverges[where m = 1352012400000])
  let ?m = "1352012400000 :: int"
  have z: "(?m + (- 7 * hour_ms)) mod day_ms = 0" "(?m + hour_ms + (- 8 * hour_ms)) mod day_ms = 0"
    "(?m + 25 * hour_ms + (- 8 * hour_ms)) mod day_ms = 0" by simp_all
  show "midnight la_fall t = ?m" if t: "?m \<le> t" "t < ?m + 25 * hour_ms" for t
  proof (cases "t < 1352019600000")
    case True
    have "midnight (zone (- 7 * hour_ms)) t = ?m" by (rule midnight_unique[OF z(1)]) (use t True in simp_all)
    with True show ?thesis by (simp add: la_fall_def clock_change_def)
  next
    case False
    have "midnight (zone (- 8 * hour_ms)) t = ?m + hour_ms" by (rule midnight_unique[OF z(2)]) (use t False in simp_all)
    with False show ?thesis by (simp add: la_fall_def clock_change_def)
  qed
  show "midnight la_fall t \<noteq> ?m" if t: "?m + 25 * hour_ms \<le> t" for t
  proof -
    have "?m + 25 * hour_ms \<le> midnight (zone (- 8 * hour_ms)) t"
    proof (rule ccontr)
      assume a: "\<not> ?m + 25 * hour_ms \<le> midnight (zone (- 8 * hour_ms)) t"
      let ?k = "midnight (zone (- 8 * hour_ms)) t"
      have "(?k + - 8 * hour_ms) mod day_ms = 0" by (rule midnight_zone(3))
      from aligned_diff[OF z(3) this]
      have "(?m + 25 * hour_ms - ?k) mod day_ms = 0" by simp
      moreover have "?m + 25 * hour_ms - ?k < day_ms" using t midnight_zone(2)[of t "- 8 * hour_ms"] by linarith
      moreover have "0 < ?m + 25 * hour_ms - ?k" using a by simp
      ultimately show False by (simp add: mod_pos_pos_trivial)
    qed
    with t show ?thesis by (simp add: la_fall_def clock_change_def Let_def)
  qed
qed (simp_all add: occurrence_def)

text \<open>
  On any day of the week after a clock change the midnight is no whole number of days after the
  first; an item of such a day ends the handler with a TypeError, and nothing of the answer after
  it is entered.
\<close>

theorem addItem_after_clock_change:
  assumes "midnight c (i_time obj) = m" "midnight c (i_time obj + i_length obj) = m"
    "firstDay \<le> m" "m < firstDay + 7 * day_ms" "(m - firstDay) mod day_ms \<noteq> 0"
  shows "addItem c firstDay (Suc fuel) obj w = Inl TypeError"
  using assms by (simp add: addItem.simps(2) put_item_def)

text \<open>11 March 2012: clocks go forward on the first day of the week; an item on the Monday after it.\<close>

definition la_spring :: calendar where
  "la_spring = clock_change 1331460000000 (- 8 * hour_ms) (- 7 * hour_ms)"

theorem addItem_after_clock_change_witness:
  "addItem la_spring 1331452800000 5 (occurrence nightly (1331452800000 + 30 * hour_ms) hour_ms) empty_week = Inl TypeError"
  using addItem_after_clock_change[of la_spring "occurrence nightly (1331452800000 + 30 * hour_ms) hour_ms"
      "1331452800000 + 23 * hour_ms" 1331452800000 4 empty_week]
  by (simp add: occurrence_def la_spring_def clock_change_def zone_def)

end
