(* ===== verification/ScheduleColumns.thy ===== *)
theory ScheduleColumns
  imports ScheduleWeek
begin

text \<open>
  The columns of a day in \<open>renderDays\<close>: nothing in a column overlaps, nothing is lost, and there are
  no more columns than items that run at the same time.
\<close>

interpretation by_item: comparator item_cmp "\<lambda>_. True"
  by unfold_locales (auto simp: item_cmp_def split: if_splits)

lemma by_item_le: "by_item.le a b \<longleftrightarrow>
    i_time a < i_time b \<or> i_time a = i_time b \<and>
      (i_length b < i_length a \<or> i_length a = i_length b \<and> i_flow b \<le> i_flow a)"
  by (auto simp: by_item.le_def item_cmp_def split: if_splits)

text \<open>
  The items of a day are drawn by start time, among these the longest first, and among equally
  long ones in descending order of their names.
\<close>

theorem day_order:
  "sorted_wrt (\<lambda>a b. i_time a < i_time b \<or> i_time a = i_time b \<and>
      (i_length b < i_length a \<or> i_length a = i_length b \<and> i_flow b \<le> i_flow a)) (js_sort item_cmp data) \<and>
   mset (js_sort item_cmp data) = mset data"
proof -
  have "sorted_wrt by_item.le (js_sort item_cmp data)" by (rule by_item.sort_sorted) simp
  moreover have "by_item.le = (\<lambda>a b. i_time a < i_time b \<or> i_time a = i_time b \<and>
      (i_length b < i_length a \<or> i_length a = i_length b \<and> i_flow b \<le> i_flow a))"
    by (intro ext) (rule by_item_le)
  ultimately show ?thesis by simp
qed

subsection \<open>One step of the packing\<close>

lemma intersect_sym: "intersect a b = intersect b a"
  by (auto simp: intersect_def)

definition clear_column :: "item list \<Rightarrow> bool" where
  "clear_column col \<longleftrightarrow> sorted_wrt (\<lambda>a b. \<not> intersect a b) col"

lemma place_item_new: "list_all (intersectArray a) cols \<Longrightarrow> place_item a cols = cols @ [[a]]"
  by (induction cols) auto

lemma place_item_old: "\<not> list_all (intersectArray a) cols \<Longrightarrow>
   length (place_item a cols) = length cols \<and> mset (concat (place_item a cols)) = add_mset a (mset (concat cols)) \<and>
   (\<forall>col \<in> set (place_item a cols). col \<in> set cols \<or> (\<exists>c \<in> set cols. col = c @ [a] \<and> \<not> intersectArray a c))"
  by (induction cols) auto

lemma place_item_mset: "mset (concat (place_item a cols)) = add_mset a (mset (concat cols))"
  by (induction cols) auto

lemma place_item_clear:
  assumes "\<forall>col \<in> set cols. clear_column col"
  shows "\<forall>col \<in> set (place_item a cols). clear_column col"
proof (cases "list_all (intersectArray a) cols")
  case True
  with assms show ?thesis by (auto simp: place_item_new clear_column_def)
next
  case False
  have "clear_column (c @ [a])" if "c \<in> set cols" "\<not> intersectArray a c" for c
    using assms that intersect_sym by (auto simp: clear_column_def sorted_wrt_append intersectArray_def list_ex_iff)
  with place_item_old[OF False] assms show ?thesis by blast
qed

definition shown :: "filters \<Rightarrow> item list \<Rightarrow> item list" where
  "shown f data = filter (\<lambda>a. \<not> filterApplies f a) data"

lemma columns_shown: "columns f data = foldl (\<lambda>cols a. place_item a cols) [[]] (shown f data)"
proof -
  have "foldl (\<lambda>cols a. if filterApplies f a then cols else place_item a cols) c data =
      foldl (\<lambda>cols a. place_item a cols) c (shown f data)" for c
    by (induction data arbitrary: c) (simp_all add: shown_def)
  then show ?thesis by (simp add: columns_def)
qed

lemma pack_clear: "\<forall>col \<in> set c. clear_column col \<Longrightarrow>
   \<forall>col \<in> set (foldl (\<lambda>cols a. place_item a cols) c data). clear_column col"
  by (rule foldl_invariant[where P = "\<lambda>cols. \<forall>col \<in> set cols. clear_column col"])
    (simp_all add: place_item_clear)

lemma pack_mset: "mset (concat (foldl (\<lambda>cols a. place_item a cols) c data)) = mset data + mset (concat c)"
  by (induction data arbitrary: c) (simp_all add: place_item_mset)

text \<open>
  C9. No two items of a column overlap in time, and every item of the day that no filter hides is in
  exactly one column, once.
\<close>

theorem columns_correct:
  "(\<forall>col \<in> set (day_columns f data). sorted_wrt (\<lambda>a b. \<not> intersect a b) col) \<and>
   mset (concat (day_columns f data)) = filter_mset (\<lambda>a. \<not> filterApplies f a) (mset data)"
proof -
  have "\<forall>col \<in> set (day_columns f data). clear_column col"
    unfolding day_columns_def columns_shown by (rule pack_clear) (simp add: clear_column_def)
  moreover have "mset (concat (day_columns f data)) = filter_mset (\<lambda>a. \<not> filterApplies f a) (mset data)"
    unfolding day_columns_def columns_shown pack_mset by (simp add: shown_def)
  ultimately show ?thesis by (simp add: clear_column_def)
qed

subsection \<open>No column too many\<close>

lemma covered_columns: "\<forall>col \<in> set cols. \<exists>b \<in> set col. P b \<Longrightarrow> length cols \<le> length (filter P (concat cols))"
proof (induction cols)
  case (Cons col cols)
  then have "filter P col \<noteq> []" by (auto simp: filter_empty_conv)
  then have "1 \<le> length (filter P col)" by (cases "filter P col") simp_all
  moreover have "length cols \<le> length (filter P (concat cols))" using Cons by simp
  ultimately show ?case by simp
qed simp

definition at_once :: "item list \<Rightarrow> int \<Rightarrow> nat" where
  "at_once data t = length (filter (\<lambda>it. covers_at it t) data)"

lemma at_once_mset: "mset a = mset b \<Longrightarrow> at_once a t = at_once b t"
  unfolding at_once_def by (metis mset_filter size_mset)

lemma pack_few:
  assumes "sorted_wrt (\<lambda>a b. i_time a \<le> i_time b) (done @ data)" "\<forall>a \<in> set data. 0 < i_length a"
    "mset (concat cols) = mset done" "length cols \<le> 1 \<or> (\<exists>t. length cols \<le> at_once done t)"
  shows "length (foldl (\<lambda>cols a. place_item a cols) cols data) \<le> 1 \<or>
    (\<exists>t. length (foldl (\<lambda>cols a. place_item a cols) cols data) \<le> at_once (done @ data) t)"
  using assms
proof (induction data arbitrary: "done" cols)
  case (Cons a data)
  have sub: "mset (concat (place_item a cols)) = mset (done @ [a])"
    using Cons.prems(3) by (simp add: place_item_mset)
  have more: "at_once done t \<le> at_once (done @ [a]) t" for t by (simp add: at_once_def)
  have "length (place_item a cols) \<le> 1 \<or> (\<exists>t. length (place_item a cols) \<le> at_once (done @ [a]) t)"
  proof (cases "list_all (intersectArray a) cols")
    case True
    have "\<forall>col \<in> set cols. \<exists>b \<in> set col. covers_at b (i_time a)"
    proof
      fix col
      assume col: "col \<in> set cols"
      then obtain b where b: "b \<in> set col" "intersect a b"
        using True by (auto simp: list_all_iff intersectArray_def list_ex_iff)
      then have "b \<in> set (concat cols)" using col by auto
      then have "b \<in> set done" using Cons.prems(3) by (metis set_mset_mset)
      then have "i_time b \<le> i_time a" using Cons.prems(1) by (simp add: sorted_wrt_append)
      with b show "\<exists>b \<in> set col. covers_at b (i_time a)" by (auto simp: covers_at_def intersect_def)
    qed
    from covered_columns[OF this] have "length cols \<le> at_once (concat cols) (i_time a)" by (simp add: at_once_def)
    also have "\<dots> = at_once done (i_time a)" by (rule at_once_mset[OF Cons.prems(3)])
    finally have "Suc (length cols) \<le> at_once (done @ [a]) (i_time a)"
      using Cons.prems(2) by (simp add: at_once_def covers_at_def)
    then show ?thesis using True by (auto simp: place_item_new)
  next
    case False
    then have "length (place_item a cols) = length cols" using place_item_old by blast
    with Cons.prems(4) more show ?thesis by (auto intro: order_trans)
  qed
  from Cons.IH[of "done @ [a]", OF _ _ sub this] Cons.prems(1,2) show ?case by simp
qed simp

text \<open>
  C10. The packing opens no column without need: with more than one column there is an instant at which
  as many shown items run as there are columns.
\<close>

theorem columns_minimal:
  assumes "\<forall>a \<in> set data. 0 < i_length a" "1 < length (day_columns f data)"
  shows "\<exists>t. length (day_columns f data) \<le> length (filter (\<lambda>a. \<not> filterApplies f a \<and> covers_at a t) data)"
proof -
  let ?d = "shown f (js_sort item_cmp data)"
  have "sorted_wrt by_item.le (js_sort item_cmp data)" by (rule by_item.sort_sorted) simp
  then have "sorted_wrt (\<lambda>a b. i_time a \<le> i_time b) (js_sort item_cmp data)"
    by (rule sorted_wrt_mono_rel[rotated]) (auto simp: by_item_le)
  then have "sorted_wrt (\<lambda>a b. i_time a \<le> i_time b) ([] @ ?d)" by (simp add: shown_def sorted_wrt_filter)
  moreover have "\<forall>a \<in> set ?d. 0 < i_length a" using assms(1) by (simp add: shown_def)
  ultimately have "length (day_columns f data) \<le> 1 \<or> (\<exists>t. length (day_columns f data) \<le> at_once ([] @ ?d) t)"
    unfolding day_columns_def columns_shown by (rule pack_few) simp_all
  then obtain t where t: "length (day_columns f data) \<le> at_once ?d t" using assms(2) by auto
  have "at_once ?d t = at_once (shown f data) t"
    unfolding shown_def by (rule at_once_mset) (simp add: mset_filter)
  also have "\<dots> = length (filter (\<lambda>a. \<not> filterApplies f a \<and> covers_at a t) data)"
    by (simp add: at_once_def shown_def conj_commute)
  finally show ?thesis using t by auto
qed

definition demo_items :: "item list" where
  "demo_items = [occurrence nightly 10 20, occurrence nightly 0 15, occurrence nightly 15 5]"

theorem columns_correct_witness:
  "(let cols = day_columns \<lparr>f_project = [], f_flow = []\<rparr> demo_items in
    length cols = 2 \<and> sorted_wrt (\<lambda>a b. \<not> intersect a b) (cols ! 0) \<and>
    mset (concat cols) = filter_mset (\<lambda>a. \<not> filterApplies \<lparr>f_project = [], f_flow = []\<rparr> a) (mset demo_items))"
proof -
  let ?f = "\<lparr>f_project = [], f_flow = []\<rparr>"
  have l: "length (day_columns ?f demo_items) = 2" by code_simp
  then have "day_columns ?f demo_items ! 0 \<in> set (day_columns ?f demo_items)" by simp
  with columns_correct[of ?f demo_items] l show ?thesis by (simp add: Let_def)
qed

theorem columns_minimal_witness:
  "length (day_columns \<lparr>f_project = [], f_flow = []\<rparr> demo_items) = 2 \<and>
   (\<exists>t. 2 \<le> length (filter (\<lambda>a. covers_at a t) demo_items))"
proof -
  let ?f = "\<lparr>f_project = [], f_flow = []\<rparr>"
  have l: "length (day_columns ?f demo_items) = 2" by code_simp
  have "\<forall>a \<in> set demo_items. 0 < i_length a" by (simp add: demo_items_def occurrence_def)
  moreover have "1 < length (day_columns ?f demo_items)" using l by simp
  ultimately have "\<exists>t. length (day_columns ?f demo_items) \<le>
      length (filter (\<lambda>a. \<not> filterApplies ?f a \<and> covers_at a t) demo_items)" by (rule columns_minimal)
  then show ?thesis using l by (simp add: filterApplies_def)
qed

subsection \<open>Texts\<close>

text \<open>
  The period of a schedule as text leaves out what is 0, and one day reads as 24 hours.
\<close>

lemma formatReadablePeriod_examples:
  "formatReadablePeriod day_ms = ''24 hours''" "formatReadablePeriod (2 * day_ms + hour_ms) = ''2 days 1 hour''"
  "formatReadablePeriod 90000 = '' 1 minute''" "getHourText 0 = ''12 AM''" "getHourText 13 = ''1 PM''"
  by code_simp+

end
