(* ===== verification/FlowPage.thy ===== *)
theory FlowPage
  imports Page Dates
begin

text \<open>
  The page of a flow, \<open>view/flow.js\<close>: its tabs, the paged table of executions and the summary.
\<close>

subsection \<open>Tabs\<close>

definition fl_handleGraphLinkClick :: "page \<Rightarrow> page" where
  "fl_handleGraphLinkClick = seq
     [jq_removeClass ''#executionsViewLink'' ''active'', jq_addClass ''#graphViewLink'' ''active'',
      jq_removeClass ''#summaryViewLink'' ''active'',
      hide_el ''#executionsView'', show_el ''#graphView'', hide_el ''#summaryView'']"

definition fl_handleExecutionLinkClick :: "page \<Rightarrow> page \<times> effect list" where
  "fl_handleExecutionLinkClick p = (seq
     [jq_removeClass ''#graphViewLink'' ''active'', jq_addClass ''#executionsViewLink'' ''active'',
      jq_removeClass ''#summaryViewLink'' ''active'',
      hide_el ''#graphView'', show_el ''#executionsView'', hide_el ''#summaryView''] p, [Trigger ''change:view''])"

definition fl_handleSummaryLinkClick :: "page \<Rightarrow> page" where
  "fl_handleSummaryLinkClick = seq
     [jq_removeClass ''#graphViewLink'' ''active'', jq_removeClass ''#executionsViewLink'' ''active'',
      jq_addClass ''#summaryViewLink'' ''active'',
      hide_el ''#graphView'', hide_el ''#executionsView'', show_el ''#summaryView'']"

definition fl_tabs_initialize :: "string option \<Rightarrow> page \<Rightarrow> page \<times> effect list" where
  "fl_tabs_initialize selectedView p =
     (if selectedView = Some ''executions'' then fl_handleExecutionLinkClick p
      else (fl_handleGraphLinkClick p, []))"

definition fl_links :: "string list" where
  "fl_links = [''#graphViewLink'', ''#executionsViewLink'', ''#summaryViewLink'']"

definition fl_panels :: "string list" where
  "fl_panels = [''#graphView'', ''#executionsView'', ''#summaryView'']"

lemma fl_tabs_exclusive:
  "only_active fl_links (fl_handleGraphLinkClick p) ''#graphViewLink'' \<and>
   only_shown fl_panels (fl_handleGraphLinkClick p) ''#graphView''"
  "only_active fl_links (fst (fl_handleExecutionLinkClick p)) ''#executionsViewLink'' \<and>
   only_shown fl_panels (fst (fl_handleExecutionLinkClick p)) ''#executionsView''"
  "only_active fl_links (fl_handleSummaryLinkClick p) ''#summaryViewLink'' \<and>
   only_shown fl_panels (fl_handleSummaryLinkClick p) ''#summaryView''"
  by (simp_all add: fl_handleGraphLinkClick_def fl_handleExecutionLinkClick_def fl_handleSummaryLinkClick_def
      only_active_def only_shown_def fl_links_def fl_panels_def)

subsection \<open>The table of executions\<close>

record execution =
  x_execId :: int
  x_user :: string
  x_start :: int
  x_end :: int
  x_status :: string

record exec_row =
  er_href :: string
  er_id :: string
  er_user :: string
  er_start :: string
  er_end :: string
  er_elapsed :: string
  er_class :: "string list"
  er_status :: string

definition render_row :: "env \<Rightarrow> calendar \<Rightarrow> int \<Rightarrow> execution \<Rightarrow> exec_row" where
  "render_row g c now x =
     \<lparr>er_href = contextURL g @ ''/executor?execid='' @ show_int (x_execId x),
      er_id = show_int (x_execId x),
      er_user = x_user x,
      er_start = (if x_start x \<noteq> -1 then getDateFormat c (x_start x) else ''-''),
      er_end = (if x_end x \<noteq> -1 then getDateFormat c (x_end x) else ''-''),
      er_elapsed = getDuration (Some (x_start x)) (Some (if x_end x \<noteq> -1 then x_end x else now)),
      er_class = [''status'', x_status x],
      er_status = text_of (obj_get statusStringMap (x_status x))\<rparr>"

record exec_view =
  ev_page :: int
  ev_pageSize :: int
  ev_total :: "int option"
  ev_numPages :: int
  ev_init :: bool
  ev_executions :: "execution list"
  ev_rows :: "exec_row list"
  ev_dom :: page
  ev_link :: "string \<Rightarrow> int"

definition page_el :: "int \<Rightarrow> string" where
  "page_el i = ''#page'' @ show_int i"

definition pager_elements :: "string list" where
  "pager_elements = [''#previous'', ''#page1'', ''#page2'', ''#page3'', ''#page4'', ''#page5'', ''#next'']"

definition upd_dom :: "(page \<Rightarrow> page) \<Rightarrow> exec_view \<Rightarrow> exec_view" where
  "upd_dom f v = v\<lparr>ev_dom := f (ev_dom v)\<rparr>"

definition set_link :: "string \<Rightarrow> int \<Rightarrow> exec_view \<Rightarrow> exec_view" where
  "set_link el k v = v\<lparr>ev_link := (ev_link v)(el := k)\<rparr>"

definition label_page :: "string \<Rightarrow> int \<Rightarrow> page \<Rightarrow> page" where
  "label_page el k = set_attr (el @ '' a'') ''href'' (Some (''#page'' @ show_int k)) \<circ> set_text (el @ '' a'') (show_int k)"

text \<open>Which of the five places shows the current page, and the page of the first place.\<close>

definition page_window :: "int \<Rightarrow> int \<Rightarrow> int \<times> int" where
  "page_window page numPages =
     (if page < 3 then (page, 1)
      else if page = numPages then (5, numPages - 4)
      else if page = numPages - 1 then (4, numPages - 4)
      else (3, page - 2))"

definition mark_disabled :: "int \<Rightarrow> page \<Rightarrow> page" where
  "mark_disabled numPages p =
     foldl (\<lambda>p i. if i \<le> numPages then jq_removeClass (page_el i) ''disabled'' p else jq_addClass (page_el i) ''disabled'' p)
       p [1, 2, 3, 4, 5]"

definition mark_prev_next :: "int \<Rightarrow> int \<Rightarrow> exec_view \<Rightarrow> exec_view" where
  "mark_prev_next page numPages v =
     (let v = (if 1 < page
               then upd_dom (set_attr ''#previous a'' ''href'' (Some (''#page'' @ show_int (page - 1))))
                      (set_link ''#previous'' (page - 1) (upd_dom (jq_removeClass ''#previous'' ''disabled'') v))
               else upd_dom (jq_addClass ''#previous'' ''disabled'') v)
      in if page < numPages
         then upd_dom (set_attr ''#next a'' ''href'' (Some (''#page'' @ show_int (page + 1))))
                (upd_dom (jq_removeClass ''#next'' ''disabled'') (set_link ''#next'' (page + 1) v))
         else upd_dom (jq_addClass ''#next'' ''disabled'') (set_link ''#next'' (page + 1) v))"

definition label_window :: "int \<Rightarrow> exec_view \<Rightarrow> exec_view" where
  "label_window startPage v =
     foldl (\<lambda>v j. upd_dom (label_page (page_el (j + 1)) (startPage + j)) (set_link (page_el (j + 1)) (startPage + j) v))
       v [0, 1, 2, 3, 4]"

text \<open>A selected place that does not exist ends in a TypeError.\<close>

definition renderPagination :: "exec_view \<Rightarrow> exec_view result" where
  "renderPagination v =
     (let total = (case ev_total v of None \<Rightarrow> 1 | Some t \<Rightarrow> if t = 0 then 1 else t);
          numPages = \<lceil>of_int total / (of_int (ev_pageSize v) :: rat)\<rceil>;
          page = ev_page v;
          v = v\<lparr>ev_numPages := numPages\<rparr>;
          v = upd_dom (\<lambda>p. foldl (\<lambda>p e. jq_removeClass e ''active'' p) p pager_elements) v;
          v = upd_dom (mark_disabled numPages) v;
          v = mark_prev_next page numPages v;
          (selectionPosition, startPage) = page_window page numPages;
          sel = page_el selectionPosition
      in if selectionPosition < 1 then Inl TypeError
         else
           (let v = upd_dom (jq_addClass sel ''active'') v;
                v = set_link sel page v;
                v = upd_dom (label_page sel page) v
            in Inr (label_window startPage v)))"

definition executions_render :: "env \<Rightarrow> calendar \<Rightarrow> int \<Rightarrow> exec_view \<Rightarrow> exec_view result" where
  "executions_render g c now v =
     renderPagination (v\<lparr>ev_rows := map (render_row g c now) (ev_executions v)\<rparr>)"

definition page_request :: "env \<Rightarrow> exec_view \<Rightarrow> effect list" where
  "page_request g v =
     [Get (contextURL g @ ''/manager'')
        [(''project'', projectName g), (''flow'', flowId g), (''ajax'', ''fetchFlowExecutions''),
         (''start'', show_int ((ev_page v - 1) * ev_pageSize v)), (''length'', show_int (ev_pageSize v))]]"

definition handlePageChange :: "env \<Rightarrow> exec_view \<Rightarrow> exec_view \<times> effect list" where
  "handlePageChange g v = (v, page_request g v)"

definition page_answer :: "env \<Rightarrow> calendar \<Rightarrow> int \<Rightarrow> execution list \<Rightarrow> int option \<Rightarrow> exec_view \<Rightarrow> exec_view result" where
  "page_answer g c now xs tot v = executions_render g c now (v\<lparr>ev_executions := xs, ev_total := tot\<rparr>)"

text \<open>Setting the model's page fires \<open>change:page\<close> only when the value changes.\<close>

definition set_page :: "env \<Rightarrow> int \<Rightarrow> exec_view \<Rightarrow> exec_view \<times> effect list" where
  "set_page g k v = (if k = ev_page v then (v, []) else handlePageChange g (v\<lparr>ev_page := k\<rparr>))"

definition handleChangePageSelection :: "env \<Rightarrow> string \<Rightarrow> exec_view \<Rightarrow> exec_view \<times> effect list" where
  "handleChangePageSelection g el v =
     (if jq_hasClass el ''disabled'' (ev_dom v) then (v, []) else set_page g (ev_link v el) v)"

definition handleChangeView :: "env \<Rightarrow> exec_view \<Rightarrow> exec_view \<times> effect list" where
  "handleChangeView g v =
     (if ev_init v then (v, [])
      else (case handlePageChange g v of (v', es) \<Rightarrow> (v'\<lparr>ev_init := True\<rparr>, es)))"

subsection \<open>The window of page numbers\<close>

lemma page_els: "page_el 1 = ''#page1''" "page_el 2 = ''#page2''" "page_el 3 = ''#page3''"
  "page_el 4 = ''#page4''" "page_el 5 = ''#page5''"
  by code_simp+

lemma pager_dom [simp]:
  "ev_dom (upd_dom f v) = f (ev_dom v)" "ev_link (upd_dom f v) = ev_link v"
  "ev_dom (set_link e k v) = ev_dom v" "ev_link (set_link e k v) = (ev_link v)(e := k)"
  "ev_page (upd_dom f v) = ev_page v" "ev_page (set_link e k v) = ev_page v"
  "pg_class (label_page e k p) = pg_class p"
  by (simp_all add: upd_dom_def set_link_def label_page_def)

lemma label_window_link: "ev_link (label_window s v) = (ev_link v)(''#page1'' := s, ''#page2'' := s + 1,
    ''#page3'' := s + 2, ''#page4'' := s + 3, ''#page5'' := s + 4)"
  by (simp add: label_window_def page_els)

lemma label_window_class: "pg_class (ev_dom (label_window s v)) = pg_class (ev_dom v)"
  by (simp add: label_window_def)

definition num_pages :: "exec_view \<Rightarrow> int" where
  "num_pages v = \<lceil>of_int (case ev_total v of None \<Rightarrow> 1 | Some t \<Rightarrow> if t = 0 then 1 else t) / (of_int (ev_pageSize v) :: rat)\<rceil>"

lemma places: "(\<forall>j \<in> {1..5 :: int}. P j) \<longleftrightarrow> P 1 \<and> P 2 \<and> P 3 \<and> P 4 \<and> P 5"
proof -
  have "{1..5 :: int} = {1, 2, 3, 4, 5}" by auto
  then show ?thesis by simp
qed

lemma mark_disabled_class:
  "\<forall>j \<in> {1..5}. ''disabled'' \<in> set (pg_class (mark_disabled n p) (page_el j)) \<longleftrightarrow> n < j"
  unfolding places by (simp add: mark_disabled_def page_els linorder_not_le)

lemma label_window_links: "\<forall>j \<in> {1..5}. ev_link (label_window s v) (page_el j) = s + j - 1"
  unfolding places by (simp add: label_window_link page_els)

lemma mark_prev_next_class:
  "j \<in> {1..5} \<Longrightarrow> set (pg_class (ev_dom (mark_prev_next a b u)) (page_el j)) = set (pg_class (ev_dom u) (page_el j))"
proof -
  have "page_el j \<noteq> ''#previous'' \<and> page_el j \<noteq> ''#next''" by (simp add: page_el_def)
  then show ?thesis by (simp add: mark_prev_next_def Let_def)
qed

lemma rendered:
  assumes "1 \<le> fst (page_window (ev_page v) (num_pages v))"
  shows "\<exists>w. renderPagination v = Inr w \<and>
    (\<forall>j \<in> {1..5}. ev_link w (page_el j) = snd (page_window (ev_page v) (num_pages v)) + j - 1 \<and>
      (''disabled'' \<in> set (pg_class (ev_dom w) (page_el j)) \<longleftrightarrow> num_pages v < j))"
proof -
  obtain sel s where w: "page_window (ev_page v) (num_pages v) = (sel, s)"
    by (cases "page_window (ev_page v) (num_pages v)")
  define v1 where "v1 = upd_dom (mark_disabled (num_pages v))
     (upd_dom (\<lambda>p. foldl (\<lambda>p e. jq_removeClass e ''active'' p) p pager_elements) (v\<lparr>ev_numPages := num_pages v\<rparr>))"
  define v2 where "v2 = mark_prev_next (ev_page v) (num_pages v) v1"
  define v3 where "v3 = upd_dom (label_page (page_el sel) (ev_page v))
     (set_link (page_el sel) (ev_page v) (upd_dom (jq_addClass (page_el sel) ''active'') v2))"
  have "renderPagination v = Inr (label_window s v3)"
    using assms unfolding renderPagination_def num_pages_def[symmetric] Let_def v3_def v2_def v1_def
    by (simp add: w)
  moreover have "''disabled'' \<in> set (pg_class (ev_dom (label_window s v3)) (page_el j)) \<longleftrightarrow> num_pages v < j"
    if j: "j \<in> {1..5}" for j
  proof -
    have "''disabled'' \<in> set (pg_class (ev_dom (label_window s v3)) (page_el j)) \<longleftrightarrow>
        ''disabled'' \<in> set (pg_class (ev_dom v2) (page_el j))"
      by (simp add: label_window_class v3_def)
    also have "\<dots> \<longleftrightarrow> ''disabled'' \<in> set (pg_class (ev_dom v1) (page_el j))"
      unfolding v2_def mark_prev_next_class[OF j] by (rule refl)
    also have "\<dots> \<longleftrightarrow> num_pages v < j" using mark_disabled_class j by (simp add: v1_def)
    finally show ?thesis .
  qed
  ultimately show ?thesis using label_window_links w by (intro exI[of _ "label_window s v3"]) simp
qed

text \<open>
  C25. With at least five pages the pager is right: its five places link to five consecutive existing
  pages that include the current one, and none of them is disabled.
\<close>

theorem pagination_window:
  assumes "5 \<le> num_pages v" "1 \<le> ev_page v" "ev_page v \<le> num_pages v"
  shows "\<exists>w s. renderPagination v = Inr w \<and> 1 \<le> s \<and> s + 4 \<le> num_pages v \<and> s \<le> ev_page v \<and> ev_page v \<le> s + 4 \<and>
    (\<forall>j \<in> {1..5}. ev_link w (page_el j) = s + j - 1 \<and> ''disabled'' \<notin> set (pg_class (ev_dom w) (page_el j)))"
proof -
  obtain sel s where w: "page_window (ev_page v) (num_pages v) = (sel, s)"
    by (cases "page_window (ev_page v) (num_pages v)")
  then have r: "1 \<le> sel" "1 \<le> s" "s + 4 \<le> num_pages v" "s \<le> ev_page v" "ev_page v \<le> s + 4"
    using assms by (auto simp: page_window_def split: if_splits)
  obtain u where u: "renderPagination v = Inr u"
    "\<forall>j \<in> {1..5}. ev_link u (page_el j) = s + j - 1 \<and> (''disabled'' \<in> set (pg_class (ev_dom u) (page_el j)) \<longleftrightarrow> num_pages v < j)"
    using rendered[of v] w r(1) by auto
  have "\<forall>j \<in> {1..5}. ev_link u (page_el j) = s + j - 1 \<and> ''disabled'' \<notin> set (pg_class (ev_dom u) (page_el j))"
    using u(2) assms(1) by auto
  with u(1) r(2-) show ?thesis by blast
qed

text \<open>
  With three or four pages the last page breaks the pager: the first place, which is not disabled,
  links to a page below 1, and a click on it asks the server for executions from a negative start.
\<close>

theorem pagination_few_pages:
  assumes "3 \<le> num_pages v" "num_pages v < 5" "ev_page v = num_pages v" "0 < ev_pageSize v"
  shows "\<exists>w. renderPagination v = Inr w \<and> ev_link w ''#page1'' < 1 \<and>
    ''disabled'' \<notin> set (pg_class (ev_dom w) ''#page1'') \<and>
    (''start'', show_int ((ev_link w ''#page1'' - 1) * ev_pageSize v)) \<in>
       set (case page_request g (v\<lparr>ev_page := ev_link w ''#page1''\<rparr>) of [Get u ps] \<Rightarrow> ps | _ \<Rightarrow> []) \<and>
    (ev_link w ''#page1'' - 1) * ev_pageSize v < 0"
proof -
  have w: "page_window (ev_page v) (num_pages v) = (5, num_pages v - 4)"
    using assms by (simp add: page_window_def)
  obtain u where u: "renderPagination v = Inr u"
    "\<forall>j \<in> {1..5}. ev_link u (page_el j) = num_pages v - 4 + j - 1 \<and>
       (''disabled'' \<in> set (pg_class (ev_dom u) (page_el j)) \<longleftrightarrow> num_pages v < j)"
    using rendered[of v] w by auto
  have p1: "ev_link u ''#page1'' = num_pages v - 4" "''disabled'' \<notin> set (pg_class (ev_dom u) ''#page1'')"
    using u(2)[unfolded places] assms(1) by (simp_all add: page_els)
  have "(ev_link u ''#page1'' - 1) * ev_pageSize v < 0"
    using p1(1) assms(2,4) by (simp add: mult_neg_pos)
  with u(1) p1 assms(2) show ?thesis by (simp add: page_request_def)
qed

definition demo_view :: "int \<Rightarrow> int \<Rightarrow> exec_view" where
  "demo_view page n = \<lparr>ev_page = page, ev_pageSize = 16, ev_total = Some n, ev_numPages = 0, ev_init = True,
     ev_executions = [], ev_rows = [], ev_dom = blank_page, ev_link = (\<lambda>_. 0)\<rparr>"

theorem pagination_window_witness:
  "\<exists>w s. renderPagination (demo_view 4 100) = Inr w \<and> 1 \<le> s \<and> s \<le> 3 \<and>
    (\<forall>j \<in> {1..5}. ev_link w (page_el j) = s + j - 1)"
proof -
  have "num_pages (demo_view 4 100) = 7" "ev_page (demo_view 4 100) = 4" by (code_simp, simp add: demo_view_def)
  with pagination_window[of "demo_view 4 100"] show ?thesis by force
qed

definition demo_env :: env where
  "demo_env = \<lparr>contextURL = ''/azkaban'', projectName = ''dw'', projectId = ''3'', flowId = ''etl'', execId = ''17'', jobId = ''load''\<rparr>"

theorem pagination_few_pages_witness:
  "\<exists>w. renderPagination (demo_view 3 40) = Inr w \<and> ev_link w ''#page1'' < 1"
proof -
  have "num_pages (demo_view 3 40) = 3" "ev_page (demo_view 3 40) = 3" "0 < ev_pageSize (demo_view 3 40)"
    by (code_simp, simp_all add: demo_view_def)
  with pagination_few_pages[of "demo_view 3 40" demo_env] show ?thesis by auto
qed

subsection \<open>The summary\<close>

text \<open>The model holds the job types and the schedule: its id and whether it has SLA options.\<close>

record summary =
  sm_jobTypes :: "string list option"
  sm_schedule :: "(string option \<times> bool) option"

definition fetchDetails :: "env \<Rightarrow> effect list" where
  "fetchDetails g = [Get (contextURL g @ ''/manager'')
     [(''ajax'', ''fetchflowdetails''), (''project'', projectName g), (''flow'', flowId g)]]"

definition details_answer :: "string list option \<Rightarrow> summary \<Rightarrow> summary \<times> effect list" where
  "details_answer types m = (m\<lparr>sm_jobTypes := types\<rparr>, [Trigger ''render''])"

definition fetchSchedule :: "env \<Rightarrow> effect list" where
  "fetchSchedule g = [Get (contextURL g @ ''/schedule'')
     [(''ajax'', ''fetchSchedule''), (''projectId'', projectId g), (''flowId'', flowId g)]]"

definition fetchSla :: "env \<Rightarrow> summary \<Rightarrow> effect list" where
  "fetchSla g m =
     (case sm_schedule m of
        Some (Some sid, _) \<Rightarrow> [Get (contextURL g @ ''/schedule'') [(''scheduleId'', sid), (''ajax'', ''slaInfo'')]]
      | _ \<Rightarrow> [])"

definition schedule_answer :: "env \<Rightarrow> (string option \<times> bool) option \<Rightarrow> summary \<Rightarrow> summary \<times> effect list" where
  "schedule_answer g sched m =
     (let m = m\<lparr>sm_schedule := sched\<rparr> in (m, Trigger ''render'' # fetchSla g m))"

text \<open>The answer is the number of SLA settings, None when there are none at all.\<close>

definition sla_answer :: "nat option \<Rightarrow> summary \<Rightarrow> summary \<times> effect list" where
  "sla_answer settings m =
     (case settings of
        None \<Rightarrow> (m, [])
      | Some 0 \<Rightarrow> (m, [])
      | Some _ \<Rightarrow> (m\<lparr>sm_schedule := map_option (\<lambda>(sid, _). (sid, True)) (sm_schedule m)\<rparr>, [Trigger ''render'']))"

definition fetchLastRun :: "env \<Rightarrow> effect list" where
  "fetchLastRun g = [Get (contextURL g @ ''/manager'')
     [(''ajax'', ''fetchLastSuccessfulFlowExecution''), (''project'', projectName g), (''flow'', flowId g)]]"

definition last_run_answer :: "string option \<Rightarrow> string option \<Rightarrow> effect list" where
  "last_run_answer success execid =
     (case execid of
        None \<Rightarrow> [Call ''dust.render'' [''flowstats-no-data'']]
      | Some x \<Rightarrow> if success = Some ''false'' then [Call ''dust.render'' [''flowstats-no-data'']]
                 else [Call ''flowStatsView.show'' [x]])"

subsection \<open>Start\<close>

definition load_flow :: "env \<Rightarrow> effect list" where
  "load_flow g = [Get (contextURL g @ ''/manager'')
     [(''project'', projectName g), (''ajax'', ''fetchflowgraph''), (''flow'', flowId g)]]"

definition execute_click :: "env \<Rightarrow> effect list" where
  "execute_click g = [Call ''flowExecuteDialogView.show'' [projectName g, ''executeFlow'', flowId g]]"

text \<open>
  The fragment of the address after loading. The test for \<open>#summary\<close> is no \<open>else\<close> of the first, so
  \<open>#executions\<close> goes on to the last branch as well, where it only sets a variable. A page that is no
  number is NaN, which is not modelled here: None stands for it and leaves the page alone.
\<close>

definition fl_hash :: "env \<Rightarrow> string \<Rightarrow> page \<times> exec_view \<Rightarrow> (page \<times> exec_view) \<times> effect list" where
  "fl_hash g hash pv = (case pv of (p, v) \<Rightarrow>
     (if hash = ''#executions'' then (case fl_handleExecutionLinkClick p of (p, es) \<Rightarrow> ((p, v), es))
      else if hash = ''#summary'' then ((fl_handleSummaryLinkClick p, v), [])
      else if hash = ''#graph'' then ((p, v), [])
      else if substring hash 0 5 = ''#page'' then
        (case fl_handleExecutionLinkClick p of (p, es) \<Rightarrow>
          (case parseInt (drop 5 hash) of
             Fin q \<Rightarrow> (case set_page g \<lfloor>q\<rfloor> v of (v, es') \<Rightarrow> ((p, v), es @ es'))
           | _ \<Rightarrow> ((p, v), es)))
      else ((p, v), [])))"

end
