(* ===== verification/NavigateProps.thy ===== *)
theory NavigateProps
  imports Navigate
begin

text \<open>
  Zooming, the choice of a zoom level and the animation of \<open>util/svg-navigate.js\<close>.
\<close>

subsection \<open>What stays fixed\<close>

lemma retransform_fields [simp, frame]:
  "v_tx (retransform t) = v_tx t" "v_ty (retransform t) = v_ty t" "v_scale (retransform t) = v_scale t"
  "v_zoomIndex (retransform t) = v_zoomIndex t" "v_zoomLevels (retransform t) = v_zoomLevels t"
  "v_anim (retransform t) = v_anim t" "v_divWidth (retransform t) = v_divWidth t"
  "v_divHeight (retransform t) = v_divHeight t" "v_settings (retransform t) = v_settings t"
  by (simp_all add: retransform_def)

lemma nav_trigger_fields [simp, frame]:
  "v_tx (nav_trigger ev t) = v_tx t" "v_ty (nav_trigger ev t) = v_ty t" "v_scale (nav_trigger ev t) = v_scale t"
  "v_zoomIndex (nav_trigger ev t) = v_zoomIndex t"
  by (simp_all add: nav_trigger_def)

lemma scaleGraph_fixed:
  assumes "v_scale t = Fin s" "s \<noteq> 0" "v_tx t = Fin a" "v_ty t = Fin b"
  shows "v_tx (scaleGraph (Fin s') (Fin x) (Fin y) t) = Fin (x - s' * ((x - a) / s)) \<and>
    v_ty (scaleGraph (Fin s') (Fin x) (Fin y) t) = Fin (y - s' * ((y - b) / s)) \<and>
    v_scale (scaleGraph (Fin s') (Fin x) (Fin y) t) = Fin s'"
  using assms by (simp add: scaleGraph_def Let_def field_simps)

text \<open>
  C18. Turning the wheel zooms about the mouse: the point of the graph that is drawn under the mouse
  before the event, at translation plus scale times its position, is drawn there after it, whatever
  the level the wheel leads to.
\<close>

theorem mouseScrolled_fixes_point:
  assumes "v_scale t = Fin s" "s \<noteq> 0" "v_tx t = Fin a" "v_ty t = Fin b"
    "wheel_point e = (Fin x, Fin y)" "v_scale (mouseScrolled e t) = Fin s'"
    "Fin a + Fin s * Fin gx = Fin x" "Fin b + Fin s * Fin gy = Fin y"
  shows "v_tx (mouseScrolled e t) + v_scale (mouseScrolled e t) * Fin gx = Fin x \<and>
    v_ty (mouseScrolled e t) + v_scale (mouseScrolled e t) * Fin gy = Fin y"
proof -
  define z where "z = map_option (\<lambda>z. boundZoomLevel t (z + wheel_delta (w_wheelDelta e) (w_detail e))) (v_zoomIndex t)"
  define sc where "sc = (case z of None \<Rightarrow> NaN | Some l \<Rightarrow> level_scale (v_zoomLevels t) l)"
  have m: "mouseScrolled e t = scaleGraph sc (Fin x) (Fin y) (t\<lparr>v_zoomIndex := z\<rparr>)"
    using assms(5) by (simp add: mouseScrolled_def Let_def sc_def z_def split: option.split)
  then have sc: "sc = Fin s'" using assms(6) by (simp add: scaleGraph_def Let_def)
  have g: "gx = (x - a) / s" "gy = (y - b) / s" using assms(2,7,8) by (auto simp: field_simps)
  have "v_tx (mouseScrolled e t) = Fin (x - s' * gx)" "v_ty (mouseScrolled e t) = Fin (y - s' * gy)"
    using scaleGraph_fixed[of "t\<lparr>v_zoomIndex := z\<rparr>" s a b s' x y] assms(1-4)
    unfolding m sc g by simp_all
  with assms(6) show ?thesis by simp
qed

definition demo_nav :: nav where
  "demo_nav = nav_init nav_defaults
     \<lparr>v_settings = nav_defaults, v_mx = NaN, v_my = NaN, v_mDown = False, v_tx = NaN, v_ty = NaN, v_scale = NaN,
      v_zoomIndex = None, v_zoomLevels = [], v_kids = [(''g'', None), (''rect'', None)], v_divWidth = Fin 800,
      v_divHeight = Fin 600, v_model = None, v_triggers = [],
      v_anim = \<lparr>a_toScaleLevel = 0, a_fromX = NaN, a_fromY = NaN, a_fromScale = NaN, a_toScale = NaN, a_toX = NaN,
        a_toY = NaN, a_startTime = 0, a_endTime = 0\<rparr>\<rparr>"

definition demo_wheel :: wheel where
  "demo_wheel = \<lparr>w_wheelDelta = Some 120, w_detail = None, w_offsetX = Some (Fin 100), w_offsetY = Fin 50,
     w_layerX = NaN, w_layerY = NaN, w_left = NaN, w_top = NaN\<rparr>"

lemma demo_nav_values: "v_scale demo_nav = Fin 1" "v_tx demo_nav = Fin 0" "v_ty demo_nav = Fin 0"
  "v_zoomIndex demo_nav = Some 24"
  by code_simp+

lemma demo_scrolled: "v_scale (mouseScrolled demo_wheel demo_nav) = Fin (9 / 8)"
  "wheel_point demo_wheel = (Fin 100, Fin 50)"
  by code_simp+

theorem mouseScrolled_fixes_point_witness:
  "v_tx (mouseScrolled demo_wheel demo_nav) + v_scale (mouseScrolled demo_wheel demo_nav) * Fin 100 = Fin 100"
  using mouseScrolled_fixes_point[of demo_nav 1 0 0 demo_wheel 100 50 "9 / 8" 100 50]
  by (simp add: demo_nav_values demo_scrolled)

subsection \<open>The zoom levels\<close>

lemma zoom_levels_value: "zoom_levels nav_defaults =
  map Fin [1 / 10, 13 / 120, 7 / 60, 1 / 8, 2 / 15, 57 / 400, 31 / 200, 67 / 400, 9 / 50, 77 / 400, 13 / 60, 31 / 120,
    3 / 10, 41 / 120, 23 / 60, 9 / 20, 8 / 15, 37 / 60, 7 / 10, 47 / 60, 5 / 6, 7 / 8, 11 / 12, 23 / 24, 1, 9 / 8,
    5 / 4, 11 / 8, 3 / 2, 49 / 30, 9 / 5, 59 / 30, 32 / 15, 23 / 10, 38 / 15, 43 / 15, 16 / 5, 53 / 15, 58 / 15, 9 / 2,
    16 / 3, 37 / 6, 7, 47 / 6, 28 / 3, 11, 38 / 3, 43 / 3]"
  by code_simp

text \<open>
  The levels made from the default settings are 48 strictly growing scales that start at 0.1; the
  last zoom point, 16, is never reached, since level 47 is the last one.
\<close>

theorem zoom_levels_default:
  "length (zoom_levels nav_defaults) = 48 \<and> list_all is_fin (zoom_levels nav_defaults) \<and>
   sorted_wrt (<) (map fin_val (zoom_levels nav_defaults)) \<and> hd (zoom_levels nav_defaults) = Fin (1 / 10) \<and>
   last (zoom_levels nav_defaults) < Fin 16"
  by (simp add: zoom_levels_value)

lemma scan_level_spec:
  assumes "sorted (map fin_val zs)" "list_all is_fin zs" "scan_level (Fin s) zs i = k"
  shows "i - 1 \<le> k \<and> k \<le> i + int (length zs) \<and>
    (\<forall>j < length zs. i + int j \<le> k \<longrightarrow> fin_val (zs ! j) \<le> s) \<and>
    (k < i + int (length zs) - 1 \<or> k = i - 1 \<and> zs \<noteq> [] \<longrightarrow> s < fin_val (zs ! nat (k + 1 - i)))"
  using assms
proof (induction zs arbitrary: i)
  case (Cons z zs)
  obtain a where z: "z = Fin a" using Cons.prems(2) by (cases z) auto
  show ?case
  proof (cases "s < a")
    case True
    with Cons.prems(3) z have "k = i - 1" by simp
    with True z show ?thesis by auto
  next
    case False
    with Cons.prems z have ih: "i + 1 - 1 \<le> k \<and> k \<le> i + 1 + int (length zs) \<and>
      (\<forall>j < length zs. i + 1 + int j \<le> k \<longrightarrow> fin_val (zs ! j) \<le> s) \<and>
      (k < i + 1 + int (length zs) - 1 \<or> k = i + 1 - 1 \<and> zs \<noteq> [] \<longrightarrow> s < fin_val (zs ! nat (k + 1 - (i + 1))))"
      by (intro Cons.IH) auto
    have "fin_val ((z # zs) ! j) \<le> s" if "j < length (z # zs)" "i + int j \<le> k" for j
      using ih that False z by (cases j) auto
    moreover have "s < fin_val ((z # zs) ! nat (k + 1 - i))" if "k < i + int (length (z # zs)) - 1"
    proof -
      have e: "nat (k + 1 - i) = Suc (nat (k + 1 - (i + 1)))" using ih by linarith
      show ?thesis unfolding e using ih that by simp
    qed
    moreover have "k \<noteq> i - 1" using ih by simp
    ultimately show ?thesis using ih by auto
  qed
qed simp

text \<open>
  \<open>calculateZoomLevel\<close> returns the level of the greatest zoom scale that is not above the
  requested one, and level 0 when all are above it: the result is always a valid level.
\<close>

theorem calculateZoomLevel_greatest:
  assumes "zs \<noteq> []" "list_all is_fin zs" "sorted (map fin_val zs)"
  shows "(let k = calculateZoomLevel (Fin s) zs in
    0 \<le> k \<and> nat k < length zs \<and> (k = 0 \<or> fin_val (zs ! nat k) \<le> s) \<and>
    (k = int (length zs) - 1 \<or> s \<le> fin_val (zs ! 0) \<or> s < fin_val (zs ! (nat k + 1))))"
proof -
  define n where "n = length zs - 1"
  have n: "length zs = Suc n" using assms(1) by (simp add: n_def)
  have F: "i < length zs \<Longrightarrow> zs ! i = Fin (fin_val (zs ! i))" for i
    using assms(2) Fin_fin_val[of "zs ! i"] by (auto simp: list_all_length)
  have l: "level_scale zs (int n) = Fin (fin_val (zs ! n))" "level_scale zs 0 = Fin (fin_val (zs ! 0))"
    using F[of n] F[of 0] n by (auto simp: level_scale_def)
  consider (top) "fin_val (zs ! n) \<le> s" | (bottom) "\<not> fin_val (zs ! n) \<le> s" "s \<le> fin_val (zs ! 0)"
    | (mid) "\<not> fin_val (zs ! n) \<le> s" "\<not> s \<le> fin_val (zs ! 0)" by blast
  then show ?thesis
  proof cases
    case top
    then show ?thesis by (simp add: calculateZoomLevel_def l n)
  next
    case bottom
    then show ?thesis by (simp add: calculateZoomLevel_def l n)
  next
    case mid
    define k where "k = scan_level (Fin s) zs 0"
    have sp: "-1 \<le> k" "k \<le> int (length zs)" "\<And>j. j < length zs \<Longrightarrow> int j \<le> k \<Longrightarrow> fin_val (zs ! j) \<le> s"
      "k < int (length zs) - 1 \<or> k = -1 \<Longrightarrow> s < fin_val (zs ! nat (k + 1))"
      using scan_level_spec[OF assms(3,2) k_def[symmetric]] assms(1) by auto
    have k1: "k \<noteq> -1" using sp(4) mid(2) by auto
    have kn: "k < int n" using sp(3)[of n] mid(1) n by (cases "int n \<le> k") auto
    have "calculateZoomLevel (Fin s) zs = k"
      using mid k1 sp(1) by (simp add: calculateZoomLevel_def l n k_def[symmetric])
    moreover have "nat (k + 1) = nat k + 1" using sp(1) k1 by linarith
    ultimately show ?thesis using sp(1) sp(3)[of "nat k"] sp(4) k1 kn n by (auto simp: Let_def)
  qed
qed

theorem calculateZoomLevel_greatest_witness:
  "(let zs = zoom_levels nav_defaults; k = calculateZoomLevel (Fin 3) zs in
    k = 35 \<and> fin_val (zs ! 35) \<le> 3 \<and> 3 < fin_val (zs ! 36))"
proof -
  have k: "calculateZoomLevel (Fin 3) (zoom_levels nav_defaults) = 35" by code_simp
  have h: "zoom_levels nav_defaults \<noteq> []" "list_all is_fin (zoom_levels nav_defaults)"
    "sorted (map fin_val (zoom_levels nav_defaults))" "length (zoom_levels nav_defaults) = 48"
    "\<not> 3 \<le> fin_val (zoom_levels nav_defaults ! 0)"
    by (simp_all add: zoom_levels_value)
  from calculateZoomLevel_greatest[OF h(1-3), of 3] h(4,5) show ?thesis by (simp add: Let_def k)
qed

subsection \<open>The animation\<close>

text \<open>
  The ticks of one animation: the first is made at once, each later one when the timer set by the one
  before it fires, at the time \<open>clock n\<close>.
\<close>

fun ticks :: "(nat \<Rightarrow> int) \<Rightarrow> nat \<Rightarrow> nav \<times> bool \<Rightarrow> nav \<times> bool" where
  "ticks clock 0 s = s"
| "ticks clock (Suc n) s =
     (case ticks clock n s of (t, pending) \<Rightarrow> if pending then animateTick (clock (Suc n)) t else (t, False))"

definition arrived :: "nav \<Rightarrow> bool" where
  "arrived t \<longleftrightarrow> v_zoomIndex t = Some (a_toScaleLevel (v_anim t)) \<and>
     v_scale t = level_scale (v_zoomLevels t) (a_toScaleLevel (v_anim t)) \<and>
     v_tx t = a_toX (v_anim t) \<and> v_ty t = a_toY (v_anim t)"

lemma animateTick_keeps:
  "v_anim (fst (animateTick time t)) = v_anim t \<and> v_zoomLevels (fst (animateTick time t)) = v_zoomLevels t"
  by (simp add: animateTick_def Let_def)

lemma animateTick_end:
  "snd (animateTick time t) \<longleftrightarrow> time < a_endTime (v_anim t)"
  "\<not> snd (animateTick time t) \<Longrightarrow> arrived (fst (animateTick time t))"
  by (simp_all add: animateTick_def Let_def arrived_def split: if_splits)

lemma ticks_invariant:
  assumes "\<And>n. clock n < clock (Suc n)" "animateTick (clock 0) t0 = s"
  shows "(case ticks clock n s of (t, pending) \<Rightarrow> v_anim t = v_anim t0 \<and> v_zoomLevels t = v_zoomLevels t0 \<and>
     (pending \<longrightarrow> clock 0 + int n \<le> clock n \<and> clock n < a_endTime (v_anim t0)) \<and> (\<not> pending \<longrightarrow> arrived t))"
proof (induction n)
  case 0
  show ?case using animateTick_keeps[of "clock 0" t0] animateTick_end[of "clock 0" t0] assms(2)
    by (auto split: prod.splits)
next
  case (Suc n)
  obtain t p where tp: "ticks clock n s = (t, p)" by (cases "ticks clock n s")
  show ?case
    using Suc.IH animateTick_keeps[of "clock (Suc n)" t] animateTick_end[of "clock (Suc n)" t] assms(1)[of n]
    by (cases p) (auto simp: tp split: prod.splits)
qed

lemma animation_done:
  assumes "\<And>n. clock n < clock (Suc n)"
  shows "\<exists>t'. ticks clock (nat duration) (animateTransform scale x y duration (clock 0) t) = (t', False) \<and>
    v_tx t' = x \<and> v_ty t' = y \<and>
    v_zoomIndex t' = Some (calculateZoomLevel scale (v_zoomLevels t)) \<and>
    v_scale t' = level_scale (v_zoomLevels t) (calculateZoomLevel scale (v_zoomLevels t))"
proof -
  let ?k = "calculateZoomLevel scale (v_zoomLevels t)"
  define t0 where "t0 = t\<lparr>v_anim := \<lparr>a_toScaleLevel = ?k, a_fromX = v_tx t, a_fromY = v_ty t,
     a_fromScale = v_scale t, a_toScale = level_scale (v_zoomLevels t) ?k, a_toX = x, a_toY = y,
     a_startTime = clock 0, a_endTime = clock 0 + duration\<rparr>\<rparr>"
  have s: "animateTick (clock 0) t0 = animateTransform scale x y duration (clock 0) t"
    by (simp add: animateTransform_def t0_def Let_def)
  obtain t' p where tp: "ticks clock (nat duration) (animateTransform scale x y duration (clock 0) t) = (t', p)"
    by (cases "ticks clock (nat duration) (animateTransform scale x y duration (clock 0) t)")
  have inv: "v_anim t' = v_anim t0" "v_zoomLevels t' = v_zoomLevels t0"
    "p \<Longrightarrow> clock 0 + int (nat duration) < a_endTime (v_anim t0)" "\<not> p \<Longrightarrow> arrived t'"
    using ticks_invariant[OF assms s, of "nat duration"] by (auto simp: tp)
  have "\<not> p"
  proof
    assume p
    from inv(3)[OF this] show False by (simp add: t0_def split: if_splits)
  qed
  with inv tp show ?thesis by (simp add: arrived_def t0_def)
qed



text \<open>
  \<open>transformToBox\<close> computes the translation for the scale that fits the box, but the animation
  ends at a zoom level below that scale. The centre of the box therefore does not come to rest in the
  middle of the page: it is off by the difference of the scales times its position in the graph.
\<close>

theorem transformToBox_centre:
  assumes "\<And>n. clock n < clock (Suc n)" "x_duration b = Some d"
    "x_x b = Fin bx" "x_width b = Fin w" "w \<noteq> 0" "v_divWidth t = Fin dw"
    "box_scale b (x_width b) (box_size (x_height b)) t = Fin s"
    "level_scale (v_zoomLevels t) (calculateZoomLevel (Fin s) (v_zoomLevels t)) = Fin z"
  shows "\<exists>t'. ticks clock (nat d) (transformToBox b (clock 0) t) = (t', False) \<and> v_scale t' = Fin z \<and>
    v_tx t' + v_scale t' * Fin (bx + w / 2) = Fin (dw / 2 - (s - z) * (bx + w / 2))"
proof -
  have sz: "box_size (x_width b) = Fin w" using assms(4,5) by (simp add: box_size_def)
  define sx where "sx = (dw - w * s) / 2 - s * bx"
  define sy where "sy = (v_divHeight t - box_size (x_height b) * Fin s) / Fin 2 - Fin s * x_y b"
  have bs: "box_scale b (Fin w) (box_size (x_height b)) t = Fin s" using assms(4,7) by simp
  have "transformToBox b (clock 0) t = animateTransform (Fin s) (Fin sx) sy d (clock 0) t"
    by (simp add: transformToBox_def Let_def sz bs assms(2,3,6) sx_def sy_def)
  with animation_done[of clock, OF assms(1), of d "Fin s" "Fin sx" sy t] obtain t' where
    t': "ticks clock (nat d) (transformToBox b (clock 0) t) = (t', False)" "v_tx t' = Fin sx" "v_scale t' = Fin z"
    using assms(8) by auto
  moreover have "Fin sx + Fin z * Fin (bx + w / 2) = Fin (dw / 2 - (s - z) * (bx + w / 2))"
    by (simp add: sx_def field_simps)
  ultimately show ?thesis by auto
qed

definition demo_box :: box_args where
  "demo_box = \<lparr>x_x = Fin 1000, x_y = Fin 0, x_width = Fin 240, x_height = Fin 100, x_maxScale = Fin 2,
     x_minScale = NaN, x_duration = Some 500\<rparr>"

theorem transformToBox_centre_witness:
  "\<exists>t'. ticks (\<lambda>n. 16 * int n) 500 (transformToBox demo_box 0 demo_nav) = (t', False) \<and>
    v_tx t' + v_scale t' * Fin 1120 < Fin 370"
proof -
  have s: "box_scale demo_box (x_width demo_box) (box_size (x_height demo_box)) demo_nav = Fin 2"
    "level_scale (v_zoomLevels demo_nav) (calculateZoomLevel (Fin 2) (v_zoomLevels demo_nav)) = Fin (59 / 30)"
    by code_simp+
  have w: "v_divWidth demo_nav = Fin 800" by code_simp
  have c: "(\<lambda>n. 16 * int n) n < (\<lambda>n. 16 * int n) (Suc n)" for n by simp
  from transformToBox_centre[of "\<lambda>n. 16 * int n", OF c, of demo_box 500 1000 240 demo_nav 800 2 "59 / 30", OF _ _ _ _ w s]
  obtain t' where "ticks (\<lambda>n. 16 * int n) 500 (transformToBox demo_box 0 demo_nav) = (t', False)"
    "v_tx t' + v_scale t' * Fin 1120 = Fin (800 / 2 - (2 - 59 / 30) * 1120)"
    by (auto simp: demo_box_def)
  then show ?thesis by (intro exI[of _ t']) simp
qed

end
