(* ===== verification/EditTable.thy ===== *)
theory EditTable
  imports Page
begin

text \<open>
  The tables of key/value rows that are edited in place: \<open>EditTableView\<close> of
  \<open>view/flow-execute-dialog.js\<close>, the parameters of a flow. A cell shows its text in a span or is
  being edited, with an input in place of the span; a row is its key cell and its value cell.
\<close>

datatype cell = Shown string | Editing string

record edit_row =
  r_key :: cell
  r_val :: cell

text \<open>The button "Add Row" calls \<open>handleAddRow\<close> with the event, which has neither property: None.\<close>

definition handleAddRow :: "(string \<times> string) option \<Rightarrow> edit_row list \<Rightarrow> edit_row list" where
  "handleAddRow param rows =
     (let (name, value) = (case param of None \<Rightarrow> ([], []) | Some kv \<Rightarrow> kv)
      in rows @ [\<lparr>r_key = Shown name, r_val = Shown value\<rparr>])"

text \<open>\<open>children(".spanValue").text()\<close>: a cell that is being edited has no span.\<close>

fun span_text :: "cell \<Rightarrow> string" where
  "span_text (Shown s) = s"
| "span_text (Editing s) = []"

definition edit_cell :: "cell \<Rightarrow> cell" where
  "edit_cell c = Editing (span_text c)"

fun close_cell :: "cell \<Rightarrow> cell" where
  "close_cell (Editing s) = Shown s"
| "close_cell (Shown s) = Shown s"

definition upd_cell :: "bool \<Rightarrow> (cell \<Rightarrow> cell) \<Rightarrow> edit_row \<Rightarrow> edit_row" where
  "upd_cell value f r = (if value then r\<lparr>r_val := f (r_val r)\<rparr> else r\<lparr>r_key := f (r_key r)\<rparr>)"

text \<open>A click on a cell of row \<open>i\<close>, the value cell if the flag says so; typing; leaving the input.\<close>

definition handleEditColumn :: "nat \<Rightarrow> bool \<Rightarrow> edit_row list \<Rightarrow> edit_row list" where
  "handleEditColumn i value rows = upd_at i (upd_cell value edit_cell) rows"

definition typed :: "nat \<Rightarrow> bool \<Rightarrow> string \<Rightarrow> edit_row list \<Rightarrow> edit_row list" where
  "typed i value s rows = upd_at i (upd_cell value (\<lambda>_. Editing s)) rows"

definition closeEditingTarget :: "nat \<Rightarrow> bool \<Rightarrow> edit_row list \<Rightarrow> edit_row list" where
  "closeEditingTarget i value rows = upd_at i (upd_cell value close_cell) rows"

definition handleRemoveColumn :: "nat \<Rightarrow> edit_row list \<Rightarrow> edit_row list" where
  "handleRemoveColumn i rows = take i rows @ drop (Suc i) rows"

text \<open>
  Reading the table: the texts of the first two spans of a row, wherever they are; a span that is not
  there reads as the empty text. Rows without a key are left out.
\<close>

definition row_spans :: "edit_row \<Rightarrow> string list" where
  "row_spans r = concat (map (\<lambda>c. case c of Shown s \<Rightarrow> [s] | Editing _ \<Rightarrow> []) [r_key r, r_val r])"

definition nth_text :: "string list \<Rightarrow> nat \<Rightarrow> string" where
  "nth_text ss i = (if i < length ss then ss ! i else [])"

definition read_row :: "string jsobj \<Rightarrow> edit_row \<Rightarrow> string jsobj" where
  "read_row m r =
     (let key = nth_text (row_spans r) 0; val = nth_text (row_spans r) 1
      in if key \<noteq> [] then obj_set key val m else m)"

definition flow_override :: "edit_row list \<Rightarrow> string jsobj" where
  "flow_override rows = foldl read_row [] rows"

definition load_params :: "string jsobj \<Rightarrow> edit_row list \<Rightarrow> edit_row list" where
  "load_params params rows = foldl (\<lambda>rows kv. handleAddRow (Some kv) rows) rows params"

subsection \<open>The table as a dictionary\<close>

text \<open>What the table means: a key is mapped to the value of its last row.\<close>

fun row_pair :: "edit_row \<Rightarrow> (string \<times> string) option" where
  "row_pair \<lparr>r_key = Shown k, r_val = Shown v\<rparr> = (if k = [] then None else Some (k, v))"
| "row_pair _ = None"

definition at_rest :: "edit_row list \<Rightarrow> bool" where
  "at_rest rows \<longleftrightarrow> (\<forall>r \<in> set rows. \<exists>k v. r = \<lparr>r_key = Shown k, r_val = Shown v\<rparr>)"

definition table_map :: "edit_row list \<Rightarrow> string \<Rightarrow> string option" where
  "table_map rows = foldl (\<lambda>m r. case row_pair r of None \<Rightarrow> m | Some (k, v) \<Rightarrow> m(k \<mapsto> v)) Map.empty rows"

lemma table_map_snoc:
  "table_map (rows @ [r]) = (case row_pair r of None \<Rightarrow> table_map rows | Some (k, v) \<Rightarrow> (table_map rows)(k \<mapsto> v))"
  unfolding table_map_def by (simp split: option.split prod.split)

lemma read_row_rest:
  "read_row m \<lparr>r_key = Shown k, r_val = Shown v\<rparr> = (if k = [] then m else obj_set k v m)"
  by (simp add: read_row_def row_spans_def nth_text_def)

lemma override_table_map:
  assumes "at_rest rows"
  shows "obj_get (flow_override rows) = table_map rows \<and> distinct (obj_keys (flow_override rows)) \<and>
    [] \<notin> set (obj_keys (flow_override rows))"
  using assms
proof (induction rows rule: rev_induct)
  case Nil
  show ?case by (simp add: flow_override_def table_map_def obj_keys_def fun_eq_iff)
next
  case (snoc r rows)
  then obtain k v where r: "r = \<lparr>r_key = Shown k, r_val = Shown v\<rparr>" by (auto simp: at_rest_def)
  have ih: "obj_get (flow_override rows) = table_map rows" "distinct (obj_keys (flow_override rows))"
    "[] \<notin> set (obj_keys (flow_override rows))"
    using snoc by (auto simp: at_rest_def)
  have f: "flow_override (rows @ [r]) = (if k = [] then flow_override rows else obj_set k v (flow_override rows))"
    by (simp add: flow_override_def r read_row_rest)
  show ?case
  proof (cases "k = []")
    case True
    then show ?thesis using ih unfolding f by (simp add: r table_map_snoc)
  next
    case False
    then have "obj_get (flow_override (rows @ [r])) = table_map (rows @ [r])"
      unfolding f by (intro ext) (simp add: r table_map_snoc ih(1)[symmetric])
    moreover have "distinct (obj_keys (flow_override (rows @ [r])))"
      using ih(2) False unfolding f by (simp add: distinct_obj_set)
    moreover have "[] \<notin> set (obj_keys (flow_override (rows @ [r])))"
      using ih(3) False unfolding f by (simp add: set_keys_obj_set)
    ultimately show ?thesis by blast
  qed
qed

text \<open>
  C15. Reading the table gives the dictionary the rows stand for, whatever sequence of edits led to
  it: a key has the value of its last row, rows without a key do not count.
\<close>

theorem flow_override_table_map:
  assumes "at_rest rows"
  shows "obj_get (flow_override rows) = table_map rows \<and> distinct (obj_keys (flow_override rows)) \<and>
    [] \<notin> set (obj_keys (flow_override rows))"
  by (rule override_table_map[OF assms])

theorem flow_override_table_map_witness:
  "obj_get (flow_override (handleAddRow (Some (''a'', ''2'')) (handleAddRow None (handleAddRow (Some (''a'', ''1'')) [])))) ''a''
   = Some ''2''"
proof -
  have "at_rest (handleAddRow (Some (''a'', ''2'')) (handleAddRow None (handleAddRow (Some (''a'', ''1'')) [])))"
    by (simp add: at_rest_def handleAddRow_def)
  from flow_override_table_map[OF this] show ?thesis by (simp add: table_map_def handleAddRow_def)
qed

subsection \<open>Round trip\<close>

lemma load_params_rows: "load_params ps rows = rows @ map (\<lambda>(k, v). \<lparr>r_key = Shown k, r_val = Shown v\<rparr>) ps"
  unfolding load_params_def by (induction ps arbitrary: rows) (auto simp: handleAddRow_def)

lemma obj_set_new: "k \<notin> set (obj_keys m) \<Longrightarrow> obj_set k v m = m @ [(k, v)]"
  by (induction m) (auto simp: obj_keys_def)

lemma override_of_loaded:
  assumes "distinct (obj_keys params)" "[] \<notin> set (obj_keys params)"
  shows "flow_override (load_params params []) = params"
proof -
  have "foldl read_row m (map (\<lambda>(k, v). \<lparr>r_key = Shown k, r_val = Shown v\<rparr>) ps) = m @ ps"
    if "distinct (obj_keys (m @ ps))" "[] \<notin> set (obj_keys ps)" for m ps
    using that
  proof (induction ps arbitrary: m)
    case (Cons p ps)
    obtain k v where p: "p = (k, v)" by (cases p)
    have "k \<notin> set (obj_keys m)" "k \<noteq> []" using Cons.prems p by (auto simp: obj_keys_def)
    moreover have "distinct (obj_keys ((m @ [(k, v)]) @ ps))" using Cons.prems(1) p by (simp add: obj_keys_def)
    ultimately show ?case
      using Cons.IH[of "m @ [(k, v)]"] Cons.prems(2) by (simp add: p read_row_rest obj_set_new obj_keys_def)
  qed simp
  from this[of "[]" params] assms show ?thesis by (simp add: flow_override_def load_params_rows)
qed

text \<open>
  The parameters that the server sends are put into the table and read back unchanged, in the same
  order, when the user edits nothing.
\<close>

theorem params_roundtrip:
  assumes "distinct (obj_keys params)" "[] \<notin> set (obj_keys params)"
  shows "flow_override (load_params params []) = params"
  using assms by (rule override_of_loaded)

theorem params_roundtrip_witness:
  "flow_override (load_params [(''day'', ''1''), (''mode'', [])] []) = [(''day'', ''1''), (''mode'', [])]"
  by (rule params_roundtrip) (simp_all add: obj_keys_def)

subsection \<open>Clicking into the input\<close>

text \<open>
  A second click into the cell, for instance to place the cursor, reaches \<open>handleEditColumn\<close> again:
  the cell has no span any more, so the input is replaced by an empty one and what was typed is lost.
\<close>

theorem second_click_loses_text:
  "i < length rows \<Longrightarrow>
   r_val (closeEditingTarget i True (handleEditColumn i True (typed i True s (handleEditColumn i True rows))) ! i) = Shown [] \<and>
   r_val (closeEditingTarget i True (typed i True s (handleEditColumn i True rows)) ! i) = Shown s"
  by (simp add: closeEditingTarget_def handleEditColumn_def typed_def nth_upd_at upd_cell_def edit_cell_def)

theorem second_click_loses_text_witness:
  "r_val (closeEditingTarget 0 True (typed 0 True ''x'' (handleEditColumn 0 True (handleAddRow None []))) ! 0) = Shown ''x''"
  using second_click_loses_text[of 0 "handleAddRow None []" "''x''"] by (simp add: handleAddRow_def)

text \<open>
  A row whose key is being edited is read with its value as the key.
\<close>

lemma half_edited_row:
  "v \<noteq> [] \<Longrightarrow> flow_override [\<lparr>r_key = Editing k, r_val = Shown v\<rparr>] = [(v, [])]"
  by (simp add: flow_override_def read_row_def row_spans_def nth_text_def)

end
