(* ===== verification/ExecDialog.thy ===== *)
theory ExecDialog
  imports EditTable ExecPage FlowDisable
begin

text \<open>
  The execution dialog, \<open>view/flow-execute-dialog.js\<close>: its forms, the data it sends, its side menu and
  context menus, and the requests of \<open>util/ajax.js\<close> it makes. The selection of jobs is modelled in
  \<open>FlowDisable\<close>, the table of parameters in \<open>EditTable\<close>.
\<close>

subsection \<open>JSON of the disabled list\<close>

definition hex_digit :: "nat \<Rightarrow> char" where
  "hex_digit n = (''0123456789abcdef'' ! n)"

definition json_char :: "char \<Rightarrow> string" where
  "json_char c =
     (let n = char_code c; esc = CHR 0x5C in
      if n = 34 \<or> n = 92 then [esc, c]
      else if n = 8 then esc # ''b'' else if n = 9 then esc # ''t'' else if n = 10 then esc # ''n''
      else if n = 12 then esc # ''f'' else if n = 13 then esc # ''r''
      else if n < 32 then esc # ''u00'' @ [hex_digit (n div 16), hex_digit (n mod 16)]
      else [c])"

definition json_string :: "string \<Rightarrow> string" where
  "json_string s = [CHR 0x22] @ concat (map json_char s) @ [CHR 0x22]"

text \<open>\<open>JSON.stringify\<close> of the list.\<close>

fun json_gathered :: "gathered \<Rightarrow> string" where
  "json_gathered (Whole k) = json_string k"
| "json_gathered (Part k gs) =
     CHR 0x7B # json_string ''id'' @ '':'' @ json_string k @ '','' @ json_string ''children'' @ '':['' @
       join '','' (map json_gathered gs) @ '']'' @ [CHR 0x7D]"

definition json_disabled :: "gathered list \<Rightarrow> string" where
  "json_disabled gs = ''['' @ join '','' (map json_gathered gs) @ '']''"

subsection \<open>Forms\<close>

text \<open>
  Checking a radio button unchecks the others of its group; the groups and their order are those of
  the page template.
\<close>

definition check_box :: "string \<Rightarrow> page \<Rightarrow> page" where
  "check_box el = set_attr el ''checked'' (Some ''checked'')"

definition check_radio :: "string list \<Rightarrow> string \<Rightarrow> page \<Rightarrow> page" where
  "check_radio grp el p =
     check_box el (foldl (\<lambda>p e. set_attr e ''checked'' None p) p (filter (\<lambda>e. e \<noteq> el) grp))"

definition notify_group :: "string list" where
  "notify_group = [''#notify-failure-first'', ''#notify-failure-last'']"

definition concurrent_values :: "string list" where
  "concurrent_values = [''skip'', ''ignore'', ''pipeline'']"

definition concurrent_el :: "string \<Rightarrow> string" where
  "concurrent_el v = ''input[value='' @ v @ ''][name=concurrent]''"

definition concurrent_option :: "page \<Rightarrow> string option" where
  "concurrent_option p = find (\<lambda>v. is_checked (concurrent_el v) p) concurrent_values"

text \<open>The checkbox "Override flow email settings" opens and closes the field with the addresses.\<close>

definition override_click :: "string \<Rightarrow> string \<Rightarrow> page \<Rightarrow> page" where
  "override_click box field p =
     (if is_checked box p then set_attr field ''disabled'' None p else set_attr field ''disabled'' (Some ''disabled'') p)"

definition click_override_success :: "page \<Rightarrow> page" where
  "click_override_success = override_click ''#override-success-emails'' ''#success-emails''"

definition click_override_failure :: "page \<Rightarrow> page" where
  "click_override_failure = override_click ''#override-failure-emails'' ''#failure-emails''"

definition js_bool :: "bool \<Rightarrow> string" where
  "js_bool b = (if b then ''true'' else ''false'')"

definition override_params :: "string jsobj \<Rightarrow> (string \<times> string) list" where
  "override_params m = map (\<lambda>(k, v). (''flowOverride['' @ k @ '']'', v)) m"

text \<open>The request as jQuery writes it: the parameters in order, an undefined one as the empty text.\<close>

definition getExecutionOptionData ::
  "env \<Rightarrow> string \<Rightarrow> string \<Rightarrow> jnode \<Rightarrow> edit_row list \<Rightarrow> page \<Rightarrow> (string \<times> string) list" where
  "getExecutionOptionData g project flow data rows p =
     (let concurrentOption = concurrent_option p in
      [(''projectId'', projectId g), (''project'', project), (''ajax'', ''executeFlow''), (''flow'', flow),
       (''disabled'', json_disabled (gatherDisabledNodes data)),
       (''failureEmailsOverride'', js_bool (is_checked ''#override-failure-emails'' p)),
       (''successEmailsOverride'', js_bool (is_checked ''#override-success-emails'' p)),
       (''failureAction'', pg_val p ''#failure-action''),
       (''failureEmails'', pg_val p ''#failure-emails''),
       (''successEmails'', pg_val p ''#success-emails''),
       (''notifyFailureFirst'', js_bool (is_checked ''#notify-failure-first'' p)),
       (''notifyFailureLast'', js_bool (is_checked ''#notify-failure-last'' p))] @
      override_params (flow_override rows) @
      [(''concurrentOption'', (case concurrentOption of None \<Rightarrow> [] | Some c \<Rightarrow> c))] @
      (if concurrentOption = Some ''pipeline'' then [(''pipelineLevel'', pg_val p ''#pipeline-level'')]
       else if concurrentOption = Some ''queue'' then [(''queueLevel'', pg_val p ''#queueLevel'')] else []))"

subsection \<open>The information about the flow\<close>

text \<open>
  The attributes of the model that the dialog reads. An empty text stands for an attribute that is
  not set, as the code treats both alike; \<open>fi_notify\<close> is the object \<open>notifyFailure\<close>.
\<close>

record flow_info =
  fi_successEmails :: "string list option"
  fi_failureEmails :: "string list option"
  fi_failureAction :: string
  fi_notify :: "(bool \<times> bool) option"
  fi_flowParams :: "string jsobj option"
  fi_concurrentOption :: string
  fi_pipelineLevel :: string
  fi_queueLevel :: string
  fi_failureEmailsOverride :: bool
  fi_successEmailsOverride :: bool

definition set_val_if :: "string \<Rightarrow> string \<Rightarrow> page \<Rightarrow> page" where
  "set_val_if el v p = (if v \<noteq> [] then set_val el v p else p)"

text \<open>
  The two override flags are read crosswise: \<open>overrideSuccessEmails\<close> is \<open>failureEmailsOverride\<close>.
\<close>

definition show_overrides :: "flow_info \<Rightarrow> page \<Rightarrow> page" where
  "show_overrides m p =
     (let overrideSuccessEmails = fi_failureEmailsOverride m; overrideFailureEmails = fi_successEmailsOverride m;
          p = (if overrideSuccessEmails then check_box ''#override-success-emails'' p
               else set_attr ''#success-emails'' ''disabled'' (Some ''disabled'') p)
      in if overrideFailureEmails then check_box ''#override-failure-emails'' p
         else set_attr ''#failure-emails'' ''disabled'' (Some ''disabled'') p)"

definition show_notify :: "bool \<times> bool \<Rightarrow> page \<Rightarrow> page" where
  "show_notify fl p =
     (let p = (if fst fl then jq_addClass ''#notify-failure-first parent(.btn)'' ''active''
                 (check_radio notify_group ''#notify-failure-first'' p) else p)
      in if snd fl then jq_addClass ''#notify-failure-last parent(.btn)'' ''active''
           (check_radio notify_group ''#notify-failure-last'' p) else p)"

definition changeFlowInfo :: "flow_info \<Rightarrow> page \<times> edit_row list \<Rightarrow> (page \<times> edit_row list) result" where
  "changeFlowInfo m pr = (case pr of (p, rows) \<Rightarrow>
     (let p = show_overrides m p;
          p = (case fi_successEmails m of None \<Rightarrow> p | Some es \<Rightarrow> set_val ''#success-emails'' (join '','' es) p);
          p = (case fi_failureEmails m of None \<Rightarrow> p | Some es \<Rightarrow> set_val ''#failure-emails'' (join '','' es) p);
          p = set_val_if ''#failure-action'' (fi_failureAction m) p
      in case fi_notify m of
           None \<Rightarrow> Inl TypeError
         | Some fl \<Rightarrow>
             (let p = show_notify fl p;
                  p = (if fi_concurrentOption m \<noteq> []
                       then check_radio (map concurrent_el concurrent_values) (concurrent_el (fi_concurrentOption m)) p else p);
                  p = set_val_if ''#pipeline-level'' (fi_pipelineLevel m) p;
                  p = set_val_if ''#queueLevel'' (fi_queueLevel m) p
              in Inr (p, case fi_flowParams m of None \<Rightarrow> rows | Some ps \<Rightarrow> load_params ps rows))))"

text \<open>
  \<open>fetchFlowInfo\<close>: the answer is copied into the model, except for the override flags, which stay
  as they are; the change is announced also after an error.
\<close>

record info_answer =
  ia_error :: string
  ia_info :: flow_info

definition fetchFlowInfo :: "env \<Rightarrow> string \<Rightarrow> string \<Rightarrow> string \<Rightarrow> effect list" where
  "fetchFlowInfo g project flow execid =
     [Get (contextURL g @ ''/executor'')
        ([(''project'', project), (''ajax'', ''flowInfo''), (''flow'', flow)] @
         (if execid \<noteq> [] then [(''execid'', execid)] else []))]"

definition info_received ::
  "info_answer \<Rightarrow> flow_info \<Rightarrow> page \<times> edit_row list \<Rightarrow> (flow_info \<times> (page \<times> edit_row list)) result \<times> effect list" where
  "info_received d m pr =
     (if ia_error d \<noteq> []
      then (and_then (changeFlowInfo m pr) (\<lambda>pr. Inr (m, pr)), [Alert (ia_error d)])
      else
        (let m' = (ia_info d)\<lparr>fi_failureEmailsOverride := fi_failureEmailsOverride m,
                              fi_successEmailsOverride := fi_successEmailsOverride m\<rparr>
         in (and_then (changeFlowInfo m' pr) (\<lambda>pr. Inr (m', pr)), [])))"

subsection \<open>Side menu\<close>

text \<open>
  The entries of the side menu, each with the panel its attribute \<open>viewpanel\<close> names, and all side
  panels of the page.
\<close>

record side_menu =
  mn_headers :: "(string \<times> string) list"
  mn_panels :: "string list"

definition caption :: "string \<Rightarrow> string" where
  "caption el = el @ '' .menu-caption''"

definition panel_of :: "side_menu \<Rightarrow> string \<Rightarrow> string" where
  "panel_of mn target = ''#'' @ text_of (map_of (mn_headers mn) target)"

definition menuSelect :: "side_menu \<Rightarrow> string \<Rightarrow> page \<Rightarrow> page" where
  "menuSelect mn target p =
     (if jq_hasClass target ''active'' p then p
      else
        (let p = foldl (\<lambda>p e. hide_el e p) p (mn_panels mn);
             p = foldl (\<lambda>p e. jq_removeClass e ''active'' (hide_el (caption e) p)) p (map fst (mn_headers mn));
             p = jq_addClass target ''active'' p;
             p = show_el (caption target) p
         in show_el (panel_of mn target) p))"

definition menu_initialize :: "side_menu \<Rightarrow> page \<Rightarrow> page" where
  "menu_initialize mn p =
     menuSelect mn ''#flow-option''
       (foldl (\<lambda>p e. hide_el (caption e) (jq_addClass e ''menu-header'' p)) p (map fst (mn_headers mn)))"

definition menuClick :: "side_menu \<Rightarrow> string \<Rightarrow> page \<Rightarrow> page" where
  "menuClick mn target p = menuSelect mn target p"

subsection \<open>Opening the dialog\<close>

definition showExecutionOptionPanel :: "side_menu \<Rightarrow> page \<Rightarrow> page \<times> effect list" where
  "showExecutionOptionPanel mn p = (menuSelect mn ''#flow-option'' p, [Modal ''#execute-flow-panel''])"

definition hideExecutionOptionPanel :: "effect list" where
  "hideExecutionOptionPanel = [CloseModal ''#execute-flow-panel'']"

definition scheduleClick :: "effect list" where
  "scheduleClick = hideExecutionOptionPanel @ [Call ''schedulePanelView.showSchedulePanel'' []]"

definition panel_title :: "string \<Rightarrow> page \<Rightarrow> page" where
  "panel_title flow = set_text ''#execute-flow-panel-title'' (''Execute Flow '' @ flow)"

definition showExecuteFlow :: "side_menu \<Rightarrow> string \<Rightarrow> page \<Rightarrow> page \<times> effect list" where
  "showExecuteFlow mn flow p =
     (case showExecutionOptionPanel mn (panel_title flow p) of (p, es) \<Rightarrow> (p, es @ [Trigger ''change:graph'']))"

definition showExecuteJob ::
  "nat \<Rightarrow> side_menu \<Rightarrow> string \<Rightarrow> string \<Rightarrow> bool \<Rightarrow> exec_model \<times> page \<Rightarrow> (exec_model \<times> page \<times> effect list) result" where
  "showExecuteJob fuel mn flow job withDep mp = (case mp of (m, p) \<Rightarrow>
     (let p = panel_title flow (menuSelect mn ''#flow-option'' p) in
      and_then (enableOnlyJob fuel job withDep m) (\<lambda>m.
        (case showExecutionOptionPanel mn p of (p, es) \<Rightarrow>
           Inr (trigger ''change:graph'' m, p, es)))))"

text \<open>
  \<open>show\<close> requests the graph and the information about the flow; the graph's answer is processed by
  \<open>loadGraph_answer\<close>, which copies the statuses of a previous execution, disables the finished jobs and
  then opens the panel for the flow or, if a job is given, for the job.
\<close>

record show_data =
  sh_project :: string
  sh_flow :: string
  sh_job :: string
  sh_withDep :: bool
  sh_execid :: string
  sh_exgraph :: "jnode option"

definition loadGraph :: "env \<Rightarrow> string \<Rightarrow> string \<Rightarrow> effect list" where
  "loadGraph g project flow =
     [Get (contextURL g @ ''/manager'') [(''project'', project), (''ajax'', ''fetchflowgraph''), (''flow'', flow)]]"

definition dialog_show :: "env \<Rightarrow> show_data \<Rightarrow> effect list" where
  "dialog_show g d =
     loadGraph g (sh_project d) (sh_flow d) @ fetchFlowInfo g (sh_project d) (sh_flow d) (sh_execid d)"

definition loadCallback ::
  "nat \<Rightarrow> side_menu \<Rightarrow> show_data \<Rightarrow> exec_model \<times> page \<Rightarrow> (exec_model \<times> page \<times> effect list) result" where
  "loadCallback fuel mn d mp =
     (if sh_job d \<noteq> [] then showExecuteJob fuel mn (sh_flow d) (sh_job d) (sh_withDep d) mp
      else (case mp of (m, p) \<Rightarrow> (case showExecuteFlow mn (sh_flow d) p of (p, es) \<Rightarrow> Inr (m, p, es))))"

definition loadGraph_answer ::
  "nat \<Rightarrow> side_menu \<Rightarrow> show_data \<Rightarrow> jnode \<Rightarrow> exec_model \<times> page \<Rightarrow> (exec_model \<times> page \<times> effect list) result" where
  "loadGraph_answer fuel mn d data mp = (case mp of (m, p) \<Rightarrow>
     and_then (addFlow data) (\<lambda>data.
       (let data = (case sh_exgraph d of None \<Rightarrow> data | Some ex \<Rightarrow> assignInitialStatus data ex);
            data = disableFinishedJobs data
        in loadCallback fuel mn d (m\<lparr>em_data := data\<rparr>, p))))"

subsection \<open>Executing\<close>

definition handleExecuteFlow ::
  "env \<Rightarrow> string \<Rightarrow> string \<Rightarrow> jnode \<Rightarrow> edit_row list \<Rightarrow> page \<Rightarrow> effect list" where
  "handleExecuteFlow g project flow data rows p =
     [Get (contextURL g @ ''/executor'') (getExecutionOptionData g project flow data rows p)]"

text \<open>The answer; the dialog with the message goes to the execution when it is closed.\<close>

definition execute_answer :: "env \<Rightarrow> string \<Rightarrow> string \<Rightarrow> string \<Rightarrow> effect list \<times> effect list" where
  "execute_answer g error message execid =
     (if error \<noteq> [] then (hideExecutionOptionPanel @ [Dialog ''Error Executing Flow'' error], [])
      else (hideExecutionOptionPanel @ [Dialog ''Flow submitted'' message],
            [Redirect (contextURL g @ ''/executor?execid='' @ execid)]))"

text \<open>\<open>flowExecutingStatus\<close> waits for its answer; without one the result is undefined.\<close>

definition flowExecutingStatus :: "env \<Rightarrow> string \<Rightarrow> string \<Rightarrow> effect list" where
  "flowExecutingStatus g project flow =
     [Get (contextURL g @ ''/executor'') [(''ajax'', ''getRunning''), (''project'', project), (''flow'', flow)]]"

definition running_answer :: "bool \<Rightarrow> string \<Rightarrow> string list \<Rightarrow> string list option \<times> effect list" where
  "running_answer has_dialog error execIds =
     (if error = ''session'' then (None, if has_dialog then [Modal ''#invalid-session''] else [])
      else (Some execIds, []))"

subsection \<open>Context menus\<close>

definition job_url :: "env \<Rightarrow> string \<Rightarrow> string \<Rightarrow> string" where
  "job_url g flow job = contextURL g @ ''/manager?project='' @ projectName g @ ''&flow='' @ flow @ ''&job='' @ job"

definition dialog_handleJobMenuClick :: "env \<Rightarrow> string \<Rightarrow> string \<Rightarrow> string \<Rightarrow> effect list" where
  "dialog_handleJobMenuClick g flowName action jobid =
     (if action = ''open'' then [Redirect (job_url g flowName jobid)]
      else if action = ''openwindow'' then [OpenWindow (job_url g flowName jobid)] else [])"

definition touch_call :: "string \<Rightarrow> string \<Rightarrow> bool \<Rightarrow> effect list" where
  "touch_call f job disable = [Call f [job, js_bool disable]]"

definition touch_menu :: "string \<Rightarrow> bool \<Rightarrow> menu_item" where
  "touch_menu job disable =
     Item (if disable then ''Disable'' else ''Enable'') (touch_call ''touchNode'' job disable)
       [Item ''Parents'' (touch_call ''touchParents'' job disable) [],
        Item ''Ancestors'' (touch_call ''touchAncestors'' job disable) [],
        Item ''Children'' (touch_call ''touchChildren'' job disable) [],
        Item ''Descendents'' (touch_call ''touchDescendents'' job disable) [],
        (if disable then Item ''Disable All'' [Call ''disableAll'' []] []
         else Item ''Enable All'' [Call ''enableAll'' []] [])]"

definition expanelNodeClickCallback :: "env \<Rightarrow> string \<Rightarrow> string \<Rightarrow> string \<Rightarrow> bool \<Rightarrow> string \<Rightarrow> menu_item list" where
  "expanelNodeClickCallback g flow job type expanded nodeFlow =
     (if type = ''flow''
      then [if expanded then Item ''Collapse Flow...'' [Call ''collapseFlow'' [job]] []
            else Item ''Expand Flow...'' [Call ''expandFlow'' [job]] [],
            Item ''Open Flow in New Window...'' [OpenWindow (flow_url g nodeFlow)] []]
      else [Item ''Open Job in New Window...'' [OpenWindow (job_url g flow job)] []]) @
     [Break, touch_menu job False, touch_menu job True,
      Item ''Center Job'' [Call ''centerNode'' [job]] []]"

definition expanelGraphClickCallback :: "env \<Rightarrow> string \<Rightarrow> menu_item list" where
  "expanelGraphClickCallback g flow =
     [Item ''Open Flow in New Window...'' [OpenWindow (flow_url g flow)] [], Break,
      Item ''Enable All'' [Call ''enableAll'' []] [], Item ''Disable All'' [Call ''disableAll'' []] [], Break,
      Item ''Center Graph'' [Trigger ''resetPanZoom''] []]"

subsection \<open>The form after the answer\<close>

definition fresh_info :: flow_info where
  "fresh_info = \<lparr>fi_successEmails = None, fi_failureEmails = None, fi_failureAction = [], fi_notify = None,
     fi_flowParams = None, fi_concurrentOption = [], fi_pipelineLevel = [], fi_queueLevel = [],
     fi_failureEmailsOverride = False, fi_successEmailsOverride = False\<rparr>"

lemma check_radio_checked:
  "is_checked e (check_radio grp el p) \<longleftrightarrow> e = el \<or> e \<notin> set grp \<and> is_checked e p"
proof -
  have "pg_attr (foldl (\<lambda>p e. set_attr e ''checked'' None p) p es) e ''checked'' =
      (if e \<in> set es then None else pg_attr p e ''checked'')" for es p
    by (induction es arbitrary: p) (auto simp: set_attr_def)
  then show ?thesis by (auto simp: is_checked_def check_radio_def check_box_def set_attr_def)
qed

lemma radio_val [simp]: "pg_val (check_radio grp el p) = pg_val p"
proof -
  have "pg_val (foldl (\<lambda>p e. set_attr e ''checked'' None p) p es) = pg_val p" for es p
    by (induction es arbitrary: p) auto
  then show ?thesis by (simp add: check_radio_def check_box_def)
qed

lemma checked_frame [simp]:
  "is_checked e (set_val el v p) = is_checked e p" "is_checked e (jq_addClass el c p) = is_checked e p"
  "is_checked e (set_val_if el v p) = is_checked e p"
  "is_checked e (set_attr el ''disabled'' w p) = is_checked e p"
  "is_checked e (check_box el p) \<longleftrightarrow> e = el \<or> is_checked e p"
  by (simp_all add: is_checked_def set_val_if_def check_box_def) (auto simp: set_attr_def)

lemma set_val_if_val [simp]: "pg_val (set_val_if el v p) = (if v \<noteq> [] then (pg_val p)(el := v) else pg_val p)"
  by (simp add: set_val_if_def)

lemma show_overrides_val [simp]: "pg_val (show_overrides m p) = pg_val p"
  by (simp add: show_overrides_def Let_def check_box_def)

lemma show_notify_val [simp]: "pg_val (show_notify fl p) = pg_val p"
  by (simp add: show_notify_def Let_def)

lemma option_els: "distinct (map concurrent_el concurrent_values)"
  "concurrent_el ` set concurrent_values \<inter> {''#override-success-emails'', ''#override-failure-emails'',
     ''#notify-failure-first'', ''#notify-failure-last''} = {}"
  by (simp_all add: concurrent_values_def concurrent_el_def)

lemma checked_override: "is_checked ''#override-success-emails'' (show_overrides m p) \<longleftrightarrow>
    fi_failureEmailsOverride m \<or> is_checked ''#override-success-emails'' p"
  "is_checked ''#override-failure-emails'' (show_overrides m p) \<longleftrightarrow>
    fi_successEmailsOverride m \<or> is_checked ''#override-failure-emails'' p"
  by (auto simp: show_overrides_def Let_def)

lemma checked_notify: "e \<notin> set notify_group \<Longrightarrow> is_checked e (show_notify fl p) = is_checked e p"
  by (auto simp: show_notify_def Let_def check_radio_checked notify_group_def)

lemma concurrent_shown:
  assumes "c \<in> set concurrent_values"
  shows "concurrent_option (check_radio (map concurrent_el concurrent_values) (concurrent_el c) p) = Some c"
  using assms unfolding concurrent_option_def check_radio_checked
  by (auto simp: concurrent_values_def concurrent_el_def)

text \<open>
  The override boxes are read crosswise: whatever else the server says, after the answer the box
  for the success addresses is ticked for a flow that overrides the failure addresses, and the other way
  round, and this is what the dialog then sends back.
\<close>

theorem overrides_swapped:
  assumes "changeFlowInfo m (p, rows) = Inr (p', rows')"
    "\<not> is_checked ''#override-success-emails'' p" "\<not> is_checked ''#override-failure-emails'' p"
  shows "map_of (getExecutionOptionData g project flow data rows' p') ''successEmailsOverride'' =
      Some (js_bool (fi_failureEmailsOverride m)) \<and>
    map_of (getExecutionOptionData g project flow data rows' p') ''failureEmailsOverride'' =
      Some (js_bool (fi_successEmailsOverride m))"
proof -
  have "is_checked e p' = is_checked e (show_overrides m p)"
    if "e = ''#override-success-emails'' \<or> e = ''#override-failure-emails''" for e
  proof -
    have "e \<notin> set notify_group" "e \<noteq> concurrent_el c" "e \<notin> set (map concurrent_el concurrent_values)" for c
      using that by (auto simp: notify_group_def concurrent_el_def)
    then show ?thesis
      using assms(1) by (auto simp: changeFlowInfo_def Let_def check_radio_checked checked_notify split: option.splits if_splits)
  qed
  then have "is_checked ''#override-success-emails'' p' \<longleftrightarrow> fi_failureEmailsOverride m"
    "is_checked ''#override-failure-emails'' p' \<longleftrightarrow> fi_successEmailsOverride m"
    using assms(2,3) checked_override by auto
  then show ?thesis by (simp add: getExecutionOptionData_def Let_def)
qed

definition demo_info :: flow_info where
  "demo_info = fresh_info\<lparr>fi_successEmails := Some [''a@x'', ''b@x''], fi_failureEmails := Some [''c@x''], fi_failureAction := ''finishPossible'',
     fi_notify := Some (True, False), fi_flowParams := Some [(''day'', ''1'')], fi_concurrentOption := ''pipeline'',
     fi_pipelineLevel := ''2'', fi_failureEmailsOverride := True\<rparr>"

definition example_env :: env where
  "example_env = \<lparr>contextURL = [], projectName = ''dw'', projectId = ''3'', flowId = ''etl'', execId = ''17'', jobId = ''load''\<rparr>"

lemma demo_info_form: "\<exists>p' rows'. changeFlowInfo demo_info (blank_page, []) = Inr (p', rows')"
  by (simp add: changeFlowInfo_def demo_info_def fresh_info_def Let_def)

lemma blank_unchecked: "\<not> is_checked e blank_page"
  by (simp add: is_checked_def blank_page_def)

theorem overrides_swapped_witness:
  "\<exists>p' rows'. changeFlowInfo demo_info (blank_page, []) = Inr (p', rows') \<and>
     map_of (getExecutionOptionData example_env ''dw'' ''etl'' sample_flow rows' p') ''successEmailsOverride'' = Some ''true'' \<and>
     map_of (getExecutionOptionData example_env ''dw'' ''etl'' sample_flow rows' p') ''failureEmailsOverride'' = Some ''false''"
proof -
  obtain p' rows' where f: "changeFlowInfo demo_info (blank_page, []) = Inr (p', rows')"
    using demo_info_form by blast
  have "fi_failureEmailsOverride demo_info" "\<not> fi_successEmailsOverride demo_info"
    by (simp_all add: demo_info_def fresh_info_def)
  with f overrides_swapped[OF f blank_unchecked blank_unchecked] show ?thesis by (simp add: js_bool_def)
qed



subsection \<open>Errors and the side menu\<close>

text \<open>An error before the first information is shown to the user, and then the handler throws.\<close>

lemma info_error_throws:
  "ia_error d \<noteq> [] \<Longrightarrow> info_received d fresh_info pr = (Inl TypeError, [Alert (ia_error d)])"
  by (cases pr) (simp add: info_received_def changeFlowInfo_def fresh_info_def Let_def)

text \<open>
  The invariant of the side menu: one entry is active, and its panel is the only one displayed. The
  hypothesis says that the elements the menu works on are different ones.
\<close>

definition wf_menu :: "side_menu \<Rightarrow> bool" where
  "wf_menu mn \<longleftrightarrow> distinct (map fst (mn_headers mn)) \<and>
     set (mn_panels mn) = (\<lambda>e. panel_of mn e) ` set (map fst (mn_headers mn)) \<and>
     caption ` set (map fst (mn_headers mn)) \<inter> set (mn_panels mn) = {}"

definition menu_shows :: "side_menu \<Rightarrow> page \<Rightarrow> string \<Rightarrow> bool" where
  "menu_shows mn p e \<longleftrightarrow> only_active (map fst (mn_headers mn)) p e \<and> only_shown (mn_panels mn) p (panel_of mn e)"

lemma hide_all_shown:
  "pg_shown (foldl (\<lambda>p e. hide_el e p) p es) k \<longleftrightarrow> k \<notin> set es \<and> pg_shown p k"
  by (induction es arbitrary: p) auto

lemma unmark_all:
  "''active'' \<in> set (pg_class (foldl (\<lambda>p e. jq_removeClass e ''active'' (hide_el (caption e) p)) p es) k) \<longleftrightarrow>
     k \<notin> set es \<and> ''active'' \<in> set (pg_class p k)"
  "k \<notin> caption ` set es \<Longrightarrow>
     pg_shown (foldl (\<lambda>p e. jq_removeClass e ''active'' (hide_el (caption e) p)) p es) k = pg_shown p k"
  by (induction es arbitrary: p) auto

lemma menuSelect_shows:
  assumes "wf_menu mn" "target \<in> set (map fst (mn_headers mn))" "\<not> jq_hasClass target ''active'' p"
  shows "menu_shows mn (menuSelect mn target p) target"
proof -
  have c: "k \<in> set (mn_panels mn) \<Longrightarrow> k \<notin> caption ` set (map fst (mn_headers mn))" for k
    using assms(1) by (auto simp: wf_menu_def)
  have t: "k \<in> set (mn_panels mn) \<Longrightarrow> k \<noteq> caption target" for k using c assms(2) by blast
  show ?thesis
    unfolding menu_shows_def only_active_def only_shown_def
  proof (intro conjI ballI)
    fix k assume "k \<in> set (map fst (mn_headers mn))"
    then show "''active'' \<in> set (pg_class (menuSelect mn target p) k) \<longleftrightarrow> k = target"
      using assms(3) by (simp add: menuSelect_def Let_def unmark_all(1))
  next
    fix k assume k: "k \<in> set (mn_panels mn)"
    then show "pg_shown (menuSelect mn target p) k \<longleftrightarrow> k = panel_of mn target"
      using assms(3) t[OF k] c[OF k] by (simp add: menuSelect_def Let_def unmark_all(2) hide_all_shown)
  qed
qed

lemma menuClick_invariant:
  assumes "wf_menu mn" "target \<in> set (map fst (mn_headers mn))" "menu_shows mn p e"
  shows "menu_shows mn (menuClick mn target p) target"
proof (cases "jq_hasClass target ''active'' p")
  case True
  then have "target = e" using assms(2,3) by (auto simp: menu_shows_def only_active_def jq_hasClass_def)
  with True assms(3) show ?thesis by (simp add: menuClick_def menuSelect_def)
next
  case False
  with menuSelect_shows[OF assms(1,2)] show ?thesis by (simp add: menuClick_def)
qed

end
