(* ===== verification/ScheduleOptions.thy ===== *)
theory ScheduleOptions
  imports ExecDialog
begin

text \<open>
  \<open>view/schedule-options.js\<close>: the menu of the schedule dialog, the simple form, and the advanced dialog
  with its own selection of jobs, kept as a dictionary from names to flags, and its own table of
  parameters.
\<close>

subsection \<open>ScheduleContextMenu\<close>

text \<open>The flags say whether each arrow is expanded.\<close>

record arrows =
  ar_enable :: bool
  ar_disable :: bool

definition context_initialize :: "page \<Rightarrow> page" where
  "context_initialize = seq [hide_el ''#scheduleDisableSub'', hide_el ''#scheduleEnableSub'']"

definition handleEnabledClick :: "arrows \<times> page \<Rightarrow> arrows \<times> page" where
  "handleEnabledClick ap = (case ap of (a, p) \<Rightarrow>
     (if ar_enable a
      then (a\<lparr>ar_enable := False\<rparr>, seq [jq_removeClass ''#scheduleEnableArrow'' ''collapse'', hide_el ''#scheduleEnableSub''] p)
      else (a\<lparr>ar_enable := True\<rparr>, seq [jq_addClass ''#scheduleEnableArrow'' ''collapse'', show_el ''#scheduleEnableSub''] p)))"

definition handleDisabledClick :: "arrows \<times> page \<Rightarrow> arrows \<times> page" where
  "handleDisabledClick ap = (case ap of (a, p) \<Rightarrow>
     (if ar_disable a
      then (a\<lparr>ar_disable := False\<rparr>, seq [jq_removeClass ''#scheduleDisableArrow'' ''collapse'', hide_el ''#scheduleDisableSub''] p)
      else (a\<lparr>ar_disable := True\<rparr>, seq [jq_addClass ''#scheduleDisableArrow'' ''collapse'', show_el ''#scheduleDisableSub''] p)))"

subsection \<open>ScheduleFlowView\<close>

definition handleScheduleFlow :: "env \<Rightarrow> string \<Rightarrow> page \<Rightarrow> effect list" where
  "handleScheduleFlow g flowName p =
     [Post ''schedule''
        [(''action'', ''scheduleFlow''), (''projectId'', projectId g), (''projectName'', projectName g),
         (''flowName'', flowName), (''hour'', pg_val p ''#hour''), (''minutes'', pg_val p ''#minutes''),
         (''am_pm'', pg_val p ''#am_pm''), (''timezone'', pg_val p ''#timezone''), (''date'', pg_val p ''#datepicker''),
         (''userExec'', ''dummy''), (''is_recurring'', pg_val p ''#is_recurring''), (''period'', pg_val p ''#period''),
         (''period_units'', pg_val p ''#period_units'')]]"

record sched_answer =
  sa_status :: string
  sa_action :: string
  sa_message :: string

definition schedule_flow_answer :: "env \<Rightarrow> string \<Rightarrow> sched_answer \<Rightarrow> page \<Rightarrow> page \<times> effect list" where
  "schedule_flow_answer g flowName d p =
     (if sa_status d = ''success''
      then (if sa_action d = ''redirect'' then (p, [Redirect (flow_url g flowName)])
            else (set_text ''#success_message'' (''Flow '' @ projectName g @ ''.'' @ flowName @ '' scheduled!'') p,
                  [Redirect (flow_url g flowName)]))
      else (if sa_action d = ''login'' then (p, [Redirect []])
            else (show_el ''#errorMsg'' (set_text ''#errorMsg'' (''ERROR: '' @ sa_message d) p), [])))"

definition handleAdvancedSchedule :: "effect list" where
  "handleAdvancedSchedule = [CloseModal ''modal'', Call ''advancedScheduleView.show'' []]"

subsection \<open>The flow of the advanced dialog\<close>

text \<open>
  The nodes with their links, by name; an edge with the attribute \<open>target\<close>, which may be missing. The
  links are objects whose keys are the names of the neighbours.
\<close>

record onode =
  o_status :: string
  o_in :: "string list option"
  o_out :: "string list option"

record oedge =
  oe_from :: string
  oe_target :: "string option"

definition add_key :: "string \<Rightarrow> string list option \<Rightarrow> string list option" where
  "add_key k m = Some (case m of None \<Rightarrow> [k] | Some ks \<Rightarrow> if k \<in> set ks then ks else ks @ [k])"

definition link_oedge :: "onode jsobj \<Rightarrow> oedge \<Rightarrow> onode jsobj result" where
  "link_oedge ons e =
     (case (obj_get ons (oe_from e), case oe_target e of None \<Rightarrow> None | Some t \<Rightarrow> map_option (Pair t) (obj_get ons t)) of
        (Some fromNode, Some (t, _)) \<Rightarrow>
          (let ons = obj_set (oe_from e) (fromNode\<lparr>o_out := add_key t (o_out fromNode)\<rparr>) ons in
           (case obj_get ons t of
              None \<Rightarrow> Inl TypeError
            | Some toNode \<Rightarrow> Inr (obj_set t (toNode\<lparr>o_in := add_key (oe_from e) (o_in toNode)\<rparr>) ons)))
      | _ \<Rightarrow> Inl TypeError)"

definition initial_disabled_step :: "onode jsobj \<times> bool jsobj \<Rightarrow> string \<Rightarrow> onode jsobj \<times> bool jsobj" where
  "initial_disabled_step nd k = (case nd of (ons, disabled) \<Rightarrow>
     (case obj_get ons k of
        None \<Rightarrow> nd
      | Some n \<Rightarrow>
          if o_status n = ''DISABLED'' \<or> o_status n = ''SKIPPED''
          then (obj_set k (n\<lparr>o_status := ''READY''\<rparr>) ons, obj_set k True disabled)
          else if o_status n = ''SUCCEEDED'' \<or> o_status n = ''RUNNING'' then (ons, obj_set k True disabled)
          else (ons, disabled)))"

record sched_flow =
  sf_nodes :: "onode jsobj"
  sf_disabled :: "bool jsobj"

text \<open>\<open>show\<close>, up to the request: panels, links and the dictionary of disabled jobs.\<close>

definition handleGeneralOptionsSelect :: "page \<Rightarrow> page" where
  "handleGeneralOptionsSelect = seq
     [jq_removeClass ''#scheduleFlowOptions'' ''selected'', jq_addClass ''#scheduleGeneralOptions'' ''selected'',
      show_el ''#scheduleGeneralPanel'', hide_el ''#scheduleGraphPanel'']"

definition adv_show ::
  "env \<Rightarrow> string \<Rightarrow> onode jsobj \<Rightarrow> oedge list \<Rightarrow> page \<Rightarrow> page \<times> (sched_flow \<times> effect list) result" where
  "adv_show g flowName ons edges p =
     (handleGeneralOptionsSelect (show_el ''#schedule-options'' (show_el ''#scheduleModalBackground'' p)),
      and_then (fold_result link_oedge ons edges) (\<lambda>ons.
        (case foldl initial_disabled_step (ons, []) (obj_keys ons) of (ons, disabled) \<Rightarrow>
           Inr (\<lparr>sf_nodes = ons, sf_disabled = disabled\<rparr>,
                [Get (contextURL g @ ''/executor'') [(''project'', projectName g), (''ajax'', ''flowInfo''), (''flow'', flowName)]]))))"

definition handleCancel :: "page \<Rightarrow> page" where
  "handleCancel = seq [hide_el ''#scheduleModalBackground'', hide_el ''#schedule-options'']"

definition handleFlowOptionsSelect :: "bool \<Rightarrow> page \<Rightarrow> (page \<times> effect list) \<times> bool" where
  "handleFlowOptionsSelect flowSetup p =
     (let p = seq [jq_removeClass ''#scheduleGeneralOptions'' ''selected'', jq_addClass ''#scheduleFlowOptions'' ''selected'',
                   show_el ''#scheduleGraphPanel'', hide_el ''#scheduleGeneralPanel''] p
      in if flowSetup then ((p, []), True)
         else ((p, [Call ''new SvgGraphView'' [''#scheduleSvgDivCustom''], Call ''new JobListView'' [''#scheduleJobListCustom''],
                    Trigger ''change:graph'']), True))"

subsection \<open>The table\<close>

text \<open>
  A cell holds a span, an input, or bare text: the parameters that the server sends are written over
  the span with \<open>td.text()\<close>. The state of the table is its rows and the cell that is being edited.
\<close>

datatype scell = Span string | Input string | Bare string

record srow =
  sr_name :: scell
  sr_value :: scell

record stable =
  st_rows :: "srow list"
  st_editing :: "(nat \<times> bool) option"

definition upd_scell :: "bool \<Rightarrow> (scell \<Rightarrow> scell) \<Rightarrow> srow \<Rightarrow> srow" where
  "upd_scell value f r = (if value then r\<lparr>sr_value := f (sr_value r)\<rparr> else r\<lparr>sr_name := f (sr_name r)\<rparr>)"

definition upd_stable :: "nat \<times> bool \<Rightarrow> (scell \<Rightarrow> scell) \<Rightarrow> stable \<Rightarrow> stable" where
  "upd_stable c f t = t\<lparr>st_rows := upd_at (fst c) (upd_scell (snd c) f) (st_rows t)\<rparr>"

definition sched_handleAddRow :: "stable \<Rightarrow> stable" where
  "sched_handleAddRow t = t\<lparr>st_rows := st_rows t @ [\<lparr>sr_name = Span [], sr_value = Span []\<rparr>]\<rparr>"

fun scell_open :: "scell \<Rightarrow> scell" where
  "scell_open (Span s) = Input s"
| "scell_open _ = Input []"

fun scell_close :: "scell \<Rightarrow> scell" where
  "scell_close (Input s) = Span s"
| "scell_close c = c"

text \<open>
  Where a click lands: on the text of a cell, on the cell itself, on its input, on its remove icon, or
  elsewhere in the dialog.
\<close>

datatype place = OnText "nat \<times> bool" | OnCell "nat \<times> bool" | OnInput "nat \<times> bool" | Elsewhere

text \<open>
  \<open>closeEditingTarget\<close> with the event, or without one, which is how \<open>handleEditColumn\<close> calls it: then
  reading the event's target is a TypeError as soon as a cell is being edited. A text that was clicked
  is no longer in its cell when the cell has been emptied, so its parent is not the edited cell.
\<close>

definition sched_closeEditingTarget :: "place option \<Rightarrow> stable \<Rightarrow> stable result" where
  "sched_closeEditingTarget evt t =
     (case st_editing t of
        None \<Rightarrow> Inr t
      | Some c \<Rightarrow>
          (case evt of
             None \<Rightarrow> Inl TypeError
           | Some w \<Rightarrow>
               if w = OnCell c \<or> w = OnInput c then Inr t
               else Inr ((upd_stable c scell_close t)\<lparr>st_editing := None\<rparr>)))"

definition sched_handleEditColumn :: "nat \<times> bool \<Rightarrow> stable \<Rightarrow> stable result" where
  "sched_handleEditColumn c t =
     (if st_editing t \<noteq> Some c
      then and_then (sched_closeEditingTarget None t) (\<lambda>t.
             Inr ((upd_stable c scell_open t)\<lparr>st_editing := Some c\<rparr>))
      else Inr t)"

text \<open>A click: the handler of the cell first, then that of the whole dialog.\<close>

definition table_click :: "place \<Rightarrow> stable \<Rightarrow> stable result" where
  "table_click w t =
     and_then (case w of OnText c \<Rightarrow> sched_handleEditColumn c t | OnCell c \<Rightarrow> sched_handleEditColumn c t
                | OnInput c \<Rightarrow> sched_handleEditColumn c t | Elsewhere \<Rightarrow> Inr t)
       (sched_closeEditingTarget (Some w))"

definition sched_handleRemoveColumn :: "nat \<Rightarrow> stable \<Rightarrow> stable" where
  "sched_handleRemoveColumn i t = t\<lparr>st_rows := take i (st_rows t) @ drop (Suc i) (st_rows t)\<rparr>"

fun td_text :: "scell \<Rightarrow> string" where
  "td_text (Span s) = s"
| "td_text (Input s) = []"
| "td_text (Bare s) = s"

definition sched_override :: "stable \<Rightarrow> string jsobj" where
  "sched_override t = foldl (\<lambda>m r.
     (let key = td_text (sr_name r); val = td_text (sr_value r) in if key \<noteq> [] then obj_set key val m else m)) [] (st_rows t)"

definition load_sched_param :: "stable \<Rightarrow> string \<times> string \<Rightarrow> stable" where
  "load_sched_param t kv =
     (let t = sched_handleAddRow t; i = length (st_rows t) - 1
      in upd_stable (i, True) (\<lambda>_. Bare (snd kv)) (upd_stable (i, False) (\<lambda>_. Bare (fst kv)) t))"

subsection \<open>The answer and the request of the advanced dialog\<close>

record sched_info =
  si_error :: string
  si_successEmails :: "string list option"
  si_failureEmails :: "string list option"
  si_failureAction :: string
  si_notifyFirst :: bool
  si_notifyLast :: bool
  si_flowParam :: "string jsobj option"
  si_running :: "string list option"

definition adv_answer :: "sched_info \<Rightarrow> page \<times> stable \<Rightarrow> (page \<times> stable) \<times> effect list" where
  "adv_answer d pt = (case pt of (p, t) \<Rightarrow>
     (if si_error d \<noteq> [] then (pt, [Alert (si_error d)])
      else
        (let p = (case si_successEmails d of None \<Rightarrow> p | Some es \<Rightarrow> set_val ''#scheduleSuccessEmails'' (join '','' es) p);
             p = (case si_failureEmails d of None \<Rightarrow> p | Some es \<Rightarrow> set_val ''#scheduleFailureEmails'' (join '','' es) p);
             p = set_val_if ''#scheduleFailureAction'' (si_failureAction d) p;
             p = (if si_notifyFirst d then check_box ''#scheduleNotifyFailureFirst'' p else p);
             p = (if si_notifyLast d then check_box ''#scheduleNotifyFailureLast'' p else p);
             t = (case si_flowParam d of None \<Rightarrow> t | Some ps \<Rightarrow> foldl load_sched_param t ps);
             p = (if si_running d = None \<or> si_running d = Some []
                  then jq_addClass ''.radioLabel'' ''disabled'' (set_attr ''.radio'' ''disabled'' (Some ''disabled'') p) else p)
         in ((p, t), []))))"

definition disabled_jobs :: "bool jsobj \<Rightarrow> string" where
  "disabled_jobs disabled = concat (map (\<lambda>(job, d). if d then '','' @ job else []) disabled)"

definition handleAdvSchedule :: "env \<Rightarrow> string \<Rightarrow> string option \<Rightarrow> sched_flow \<Rightarrow> stable \<Rightarrow> page \<Rightarrow> effect list" where
  "handleAdvSchedule g flowName gender f t p =
     [Post (contextURL g @ ''/schedule'')
       ([(''projectId'', projectId g), (''projectName'', projectName g), (''ajax'', ''advSchedule''), (''flowName'', flowName),
         (''scheduleTime'', pg_val p ''#advhour'' @ '','' @ pg_val p ''#advminutes'' @ '','' @ pg_val p ''#advam_pm'' @ '','' @
            pg_val p ''#advtimezone''),
         (''scheduleDate'', pg_val p ''#advdatepicker''), (''is_recurring'', pg_val p ''#advis_recurring''),
         (''period'', pg_val p ''#advperiod'' @ pg_val p ''#advperiod_units''),
         (''disabledJobs'', disabled_jobs (sf_disabled f)),
         (''failureAction'', pg_val p ''#scheduleFailureAction''), (''failureEmails'', pg_val p ''#scheduleFailureEmails''),
         (''successEmails'', pg_val p ''#scheduleSuccessEmails''),
         (''notifyFailureFirst'', js_bool (is_checked ''#scheduleNotifyFailureFirst'' p)),
         (''notifyFailureLast'', js_bool (is_checked ''#scheduleNotifyFailureLast'' p)),
         (''executingJobOption'', (case gender of None \<Rightarrow> [] | Some v \<Rightarrow> v))] @
        override_params (sched_override t))]"

definition adv_schedule_answer :: "env \<Rightarrow> string \<Rightarrow> effect list" where
  "adv_schedule_answer g error = (if error \<noteq> [] then [Alert error] else [Redirect (contextURL g @ ''/schedule'')])"

subsection \<open>The selection of jobs\<close>

definition set_all :: "bool \<Rightarrow> string list \<Rightarrow> bool jsobj \<Rightarrow> bool jsobj" where
  "set_all b ks m = foldl (\<lambda>m k. obj_set k b m) m ks"

definition neighbours :: "(onode \<Rightarrow> string list option) \<Rightarrow> string \<Rightarrow> sched_flow \<Rightarrow> string list result" where
  "neighbours side job f =
     (case obj_get (sf_nodes f) job of
        None \<Rightarrow> Inl TypeError
      | Some n \<Rightarrow> Inr (case side n of None \<Rightarrow> [] | Some ks \<Rightarrow> ks))"

definition put_disabled :: "bool jsobj \<Rightarrow> sched_flow \<Rightarrow> sched_flow \<times> effect list" where
  "put_disabled m f = (f\<lparr>sf_disabled := m\<rparr>, [Trigger ''change:disabled''])"

text \<open>
  The entries for ancestors and descendants call \<open>recurseAllAncestors\<close> of the execution dialog with the
  dictionary of the nodes in place of the node. It has no \<open>inNodes\<close> (jobs of that name are left out
  here), so nothing happens.
\<close>

definition handleDisableMenuClick ::
  "env \<Rightarrow> string \<Rightarrow> string \<Rightarrow> string \<Rightarrow> sched_flow \<Rightarrow> (sched_flow \<times> effect list) result" where
  "handleDisableMenuClick g flowName action job f =
     (let m = sf_disabled f; ks = obj_keys (sf_nodes f);
          all = (\<lambda>b side. and_then (neighbours side job f) (\<lambda>ks. Inr (put_disabled (set_all b ks m) f)))
      in if action = ''open'' then Inr (f, [Redirect (job_url g flowName job)])
         else if action = ''openwindow'' then Inr (f, [OpenWindow (job_url g flowName job)])
         else if action = ''disable'' then Inr (put_disabled (obj_set job True m) f)
         else if action = ''disableAll'' then Inr (put_disabled (set_all True ks m) f)
         else if action = ''disableParents'' then all True o_in
         else if action = ''disableChildren'' then all True o_out
         else if action = ''disableAncestors'' then Inr (put_disabled m f)
         else if action = ''disableDescendents'' then Inr (put_disabled m f)
         else if action = ''enable'' then Inr (put_disabled (obj_set job False m) f)
         else if action = ''enableAll'' then Inr (put_disabled [] f)
         else if action = ''enableParents'' then all False o_in
         else if action = ''enableChildren'' then all False o_out
         else if action = ''enableAncestors'' then Inr (put_disabled m f)
         else if action = ''enableDescendents'' then Inr (put_disabled m f)
         else Inr (f, []))"

subsection \<open>What the clicks do to the table\<close>

lemma upd_scell_twice: "upd_scell v f (upd_scell v g r) = upd_scell v (f \<circ> g) r"
  by (simp add: upd_scell_def)

lemma upd_scell_id: "f (if v then sr_value r else sr_name r) = (if v then sr_value r else sr_name r) \<Longrightarrow> upd_scell v f r = r"
  by (auto simp: upd_scell_def split: if_splits)

definition scell_at :: "stable \<Rightarrow> nat \<times> bool \<Rightarrow> scell" where
  "scell_at t c = (if snd c then sr_value (st_rows t ! fst c) else sr_name (st_rows t ! fst c))"

lemma upd_at_id: "(i < length xs \<Longrightarrow> f (xs ! i) = xs ! i) \<Longrightarrow> upd_at i f xs = xs"
  by (simp add: upd_at_def)

lemma upd_at_twice: "upd_at i f (upd_at i g xs) = upd_at i (f \<circ> g) xs"
  by (simp add: upd_at_def)

text \<open>
  A click on the text of a cell does not let the user edit it: the cell is opened and, since the
  text is no longer inside it, closed again by the same click. A click beside the text opens the cell, but
  while a cell is open every click on another cell throws and changes nothing.
\<close>

theorem table_click_cases:
  assumes "fst c < length (st_rows t)" "scell_at t c = Span s"
  shows "(st_editing t = None \<longrightarrow> table_click (OnText c) t = Inr t) \<and>
    (st_editing t = None \<longrightarrow> table_click (OnCell c) t = Inr ((upd_stable c (\<lambda>_. Input s) t)\<lparr>st_editing := Some c\<rparr>)) \<and>
    (st_editing t \<noteq> None \<and> st_editing t \<noteq> Some c \<longrightarrow>
       table_click (OnText c) t = Inl TypeError \<and> table_click (OnCell c) t = Inl TypeError)"
proof -
  obtain i v where c: "c = (i, v)" by (cases c)
  have sp: "(if v then sr_value (st_rows t ! i) else sr_name (st_rows t ! i)) = Span s"
    using assms(2) by (auto simp: scell_at_def c)
  have o: "upd_stable c scell_open t = upd_stable c (\<lambda>_. Input s) t"
    using assms(1) sp by (simp add: upd_stable_def upd_at_def upd_scell_def c split: if_splits)
  have "upd_at i (upd_scell v scell_close \<circ> upd_scell v scell_open) (st_rows t) = st_rows t"
    by (rule upd_at_id) (use sp in \<open>auto simp: upd_scell_def split: if_splits\<close>)
  then have "st_editing t = None \<Longrightarrow> (upd_stable c scell_close ((upd_stable c scell_open t)\<lparr>st_editing := Some c\<rparr>))\<lparr>st_editing := None\<rparr> = t"
    by (cases t) (simp add: upd_stable_def c upd_at_twice)
  then have "st_editing t = None \<Longrightarrow> table_click (OnText c) t = Inr t"
    by (simp add: table_click_def sched_handleEditColumn_def sched_closeEditingTarget_def)
  moreover have "st_editing t = None \<Longrightarrow> table_click (OnCell c) t = Inr ((upd_stable c (\<lambda>_. Input s) t)\<lparr>st_editing := Some c\<rparr>)"
    by (simp add: table_click_def sched_handleEditColumn_def sched_closeEditingTarget_def o)
  moreover have "st_editing t \<noteq> None \<Longrightarrow> st_editing t \<noteq> Some c \<Longrightarrow>
      table_click (OnText c) t = Inl TypeError \<and> table_click (OnCell c) t = Inl TypeError"
    by (auto simp add: table_click_def sched_handleEditColumn_def sched_closeEditingTarget_def)
  ultimately show ?thesis by blast
qed

definition demo_table :: stable where
  "demo_table = sched_handleAddRow (sched_handleAddRow \<lparr>st_rows = [], st_editing = None\<rparr>)"

theorem table_click_cases_witness:
  "table_click (OnText (0, True)) demo_table = Inr demo_table \<and>
   table_click (OnCell (1, True)) (demo_table\<lparr>st_editing := Some (0, True)\<rparr>) = Inl TypeError"
proof -
  have "fst (0 :: nat, True) < length (st_rows demo_table)" "scell_at demo_table (0, True) = Span []"
    "fst (1 :: nat, True) < length (st_rows (demo_table\<lparr>st_editing := Some (0, True)\<rparr>))"
    "scell_at (demo_table\<lparr>st_editing := Some (0, True)\<rparr>) (1, True) = Span []" "st_editing demo_table = None"
    by (simp_all add: demo_table_def sched_handleAddRow_def scell_at_def)
  with table_click_cases[of "(0, True)" demo_table "[]"]
    table_click_cases[of "(1, True)" "demo_table\<lparr>st_editing := Some (0, True)\<rparr>" "[]"]
  show ?thesis by simp
qed

text \<open>An edge of the graph model has \<open>from\<close> and \<open>to\<close>; without \<open>target\<close> the dialog does not open.\<close>

lemma adv_show_needs_target:
  "e \<in> set edges \<Longrightarrow> oe_target e = None \<Longrightarrow> \<exists>x. snd (adv_show g flow ons edges p) = Inl x"
proof -
  assume "e \<in> set edges" "oe_target e = None"
  then have "\<exists>x. fold_result link_oedge ons edges = Inl x"
  proof (induction edges arbitrary: ons)
    case (Cons e' edges)
    then show ?case
    proof (cases "link_oedge ons e'")
      case (Inr ons')
      then have "oe_target e' \<noteq> None" by (auto simp: link_oedge_def split: option.splits)
      with Cons Inr show ?thesis by auto
    qed simp
  qed simp
  then show ?thesis by (auto simp: adv_show_def)
qed

end
