(* ===== verification/TableSort.thy ===== *)
theory TableSort
  imports Page JsSort
begin

text \<open>
  \<open>view/table-sort.js\<close>: sorting the rows of a table by the text of a column. A row marked \<open>childrow\<close>
  belongs to the row above it and moves with it.
\<close>

record trow =
  tr_id :: nat
  tr_child :: bool
  tr_cells :: "string list"

text \<open>The rows in the order of the table, and the \<open>childRows\<close> that \<open>initialize\<close> hangs on a row.\<close>

record table =
  tb_rows :: "trow list"
  tb_kids :: "nat \<Rightarrow> trow list"

definition group_step :: "trow option \<times> (nat \<Rightarrow> trow list) \<Rightarrow> trow \<Rightarrow> trow option \<times> (nat \<Rightarrow> trow list)" where
  "group_step s nextRow = (case s of (row, kids) \<Rightarrow>
     (case row of
        Some r \<Rightarrow> if tr_child nextRow then (row, kids(tr_id r := kids (tr_id r) @ [nextRow])) else (Some nextRow, kids)
      | None \<Rightarrow> (Some nextRow, kids)))"

definition table_initialize :: "trow list \<Rightarrow> table" where
  "table_initialize rows = \<lparr>tb_rows = rows, tb_kids = snd (foldl group_step (None, \<lambda>_. []) rows)\<rparr>"

definition sort_key :: "nat \<Rightarrow> trow \<Rightarrow> string" where
  "sort_key index r = to_lower (trim (tr_cells r ! index))"

definition cell_cmp :: "nat \<Rightarrow> bool \<Rightarrow> trow \<Rightarrow> trow \<Rightarrow> jsnum" where
  "cell_cmp index desc a b =
     (if desc
      then (if sort_key index a < sort_key index b then Fin 1 else if sort_key index b < sort_key index a then Fin (-1) else Fin 0)
      else (if sort_key index a < sort_key index b then Fin (-1) else if sort_key index b < sort_key index a then Fin 1 else Fin 0))"

text \<open>
  The cell of a row that has no such column is undefined: it has no row, and reading that row's
  \<open>childRows\<close> is a TypeError.
\<close>

definition table_sort :: "nat \<Rightarrow> bool \<Rightarrow> table \<Rightarrow> table result" where
  "table_sort index desc t =
     (let heads = filter (\<lambda>r. \<not> tr_child r) (tb_rows t) in
      if \<exists>r \<in> set heads. length (tr_cells r) \<le> index then Inl TypeError
      else
        (let sorted = js_sort (cell_cmp index desc) heads;
             sortedTR = concat (map (\<lambda>r. r # tb_kids t (tr_id r)) sorted)
         in Inr (t\<lparr>tb_rows := filter (\<lambda>r. r \<notin> set sortedTR) (tb_rows t) @ sortedTR\<rparr>)))"

text \<open>The head of a column: its position and whether it carries \<open>asc\<close> or \<open>desc\<close>.\<close>

definition th_el :: "nat \<Rightarrow> string" where
  "th_el i = ''th'' @ show_nat i"

definition toggleSort :: "nat \<Rightarrow> nat list \<Rightarrow> page \<times> table \<Rightarrow> (page \<times> table) result" where
  "toggleSort i sortable pt = (case pt of (p, t) \<Rightarrow>
     (let th = th_el i in
      if jq_hasClass th ''asc'' p
      then and_then (table_sort i True t) (\<lambda>t. Inr (jq_addClass th ''desc'' (jq_removeClass th ''asc'' p), t))
      else if jq_hasClass th ''desc'' p
      then and_then (table_sort i False t) (\<lambda>t. Inr (jq_addClass th ''asc'' (jq_removeClass th ''desc'' p), t))
      else and_then (table_sort i False t) (\<lambda>t.
             Inr (jq_addClass th ''asc''
                   (foldl (\<lambda>p k. jq_removeClass (th_el k) ''desc'' (jq_removeClass (th_el k) ''asc'' p)) p sortable), t))))"

definition handleClickSort :: "nat \<Rightarrow> nat list \<Rightarrow> page \<times> table \<Rightarrow> (page \<times> table) result" where
  "handleClickSort = toggleSort"

subsection \<open>The comparison\<close>

interpretation by_cell: comparator "cell_cmp index desc" "\<lambda>_. True" for index desc
  by unfold_locales (auto simp: cell_cmp_def split: if_splits)

lemma by_cell_le: "by_cell.le index desc a b \<longleftrightarrow>
    (if desc then sort_key index b \<le> sort_key index a else sort_key index a \<le> sort_key index b)"
  by (auto simp: by_cell.le_def cell_cmp_def)

subsection \<open>Rows and their children\<close>

text \<open>A table that does not begin with a child row is made of blocks.\<close>

definition heads :: "trow list \<Rightarrow> trow list" where
  "heads rows = filter (\<lambda>r. \<not> tr_child r) rows"

definition wf_rows :: "trow list \<Rightarrow> bool" where
  "wf_rows rows \<longleftrightarrow> distinct (map tr_id rows) \<and> (rows \<noteq> [] \<longrightarrow> \<not> tr_child (hd rows))"

definition block :: "(nat \<Rightarrow> trow list) \<Rightarrow> trow \<Rightarrow> trow list" where
  "block kids r = r # kids (tr_id r)"

lemma distinct_blocks_upd:
  "last_head \<notin> set hs \<Longrightarrow> distinct (map tr_id (hs @ [last_head])) \<Longrightarrow>
   concat (map (block (kids(tr_id last_head := ks))) hs) = concat (map (block kids) hs)"
  by (induction hs) (auto simp: block_def)

lemma grouped:
  assumes "wf_rows rows" "rows \<noteq> []"
  shows "\<exists>hs h kids. foldl group_step (None, \<lambda>_. []) rows = (Some h, kids) \<and> heads rows = hs @ [h] \<and>
    concat (map (block kids) (heads rows)) = rows \<and> (\<forall>i. i \<notin> tr_id ` set (heads rows) \<longrightarrow> kids i = [])"
  using assms
proof (induction rows rule: rev_induct)
  case (snoc r rows)
  show ?case
  proof (cases "rows = []")
    case True
    then have "\<not> tr_child r" using snoc.prems(1) by (simp add: wf_rows_def)
    with True show ?thesis by (simp add: group_step_def heads_def block_def)
  next
    case False
    have wf: "wf_rows rows" using snoc.prems(1) False by (auto simp: wf_rows_def)
    obtain hs h kids where ih: "foldl group_step (None, \<lambda>_. []) rows = (Some h, kids)" "heads rows = hs @ [h]"
      "concat (map (block kids) (heads rows)) = rows" "\<forall>i. i \<notin> tr_id ` set (heads rows) \<longrightarrow> kids i = []"
      using snoc.IH[OF wf False] by blast
    have d: "distinct (map tr_id (rows @ [r]))" using snoc.prems(1) by (simp add: wf_rows_def)
    have dh: "distinct (map tr_id (hs @ [h]))"
      unfolding ih(2)[symmetric] heads_def using d by (simp add: distinct_map_filter)
    have nr: "tr_id r \<notin> tr_id ` set (heads rows)" using d by (auto simp: heads_def)
    show ?thesis
    proof (cases "tr_child r")
      case True
      let ?kids = "kids(tr_id h := kids (tr_id h) @ [r])"
      have hh: "heads (rows @ [r]) = hs @ [h]" using True ih(2) by (simp add: heads_def)
      have "concat (map (block ?kids) (hs @ [h])) = concat (map (block kids) (hs @ [h])) @ [r]"
        using distinct_blocks_upd[of h hs kids] dh by (auto simp: block_def)
      then have "concat (map (block ?kids) (heads (rows @ [r]))) = rows @ [r]"
        unfolding hh ih(2)[symmetric] ih(3) .
      moreover have "foldl group_step (None, \<lambda>_. []) (rows @ [r]) = (Some h, ?kids)"
        using True ih(1) by (simp add: group_step_def)
      moreover have "\<forall>i. i \<notin> tr_id ` set (heads (rows @ [r])) \<longrightarrow> ?kids i = []"
        using ih(2,4) hh by auto
      ultimately show ?thesis using hh by blast
    next
      case False
      have hh: "heads (rows @ [r]) = heads rows @ [r]" using False by (simp add: heads_def)
      have "foldl group_step (None, \<lambda>_. []) (rows @ [r]) = (Some r, kids)"
        using False ih(1) by (simp add: group_step_def)
      moreover have "concat (map (block kids) (heads (rows @ [r]))) = rows @ [r]"
        using ih(3,4) nr by (simp add: hh block_def)
      moreover have "\<forall>i. i \<notin> tr_id ` set (heads (rows @ [r])) \<longrightarrow> kids i = []"
        using ih(4) by (simp add: hh)
      ultimately show ?thesis using hh by blast
    qed
  qed
qed simp

lemma mset_concat_map: "mset xs = mset ys \<Longrightarrow> mset (concat (map f xs)) = mset (concat (map f ys))"
  by (simp add: mset_concat comp_def flip: mset_map)
    (metis mset_map sum_mset_sum_list)

text \<open>
  C14. Sorting a table keeps every row, and every row keeps its child rows right below it: the result
  is made of the same blocks, ordered by the text of the column without regard to case and
  surrounding space, upwards or downwards, and blocks with equal text keep their order.
\<close>

theorem table_sort_blocks:
  assumes "wf_rows rows" "\<forall>r \<in> set (heads rows). index < length (tr_cells r)"
  shows "\<exists>t sorted. table_sort index desc (table_initialize rows) = Inr t \<and>
    tb_rows t = concat (map (block (tb_kids t)) sorted) \<and>
    rows = concat (map (block (tb_kids t)) (heads rows)) \<and>
    mset sorted = mset (heads rows) \<and> mset (tb_rows t) = mset rows \<and>
    sorted_wrt (\<lambda>a b. if desc then sort_key index b \<le> sort_key index a else sort_key index a \<le> sort_key index b) sorted \<and>
    (\<forall>k. filter (\<lambda>r. sort_key index r = k) sorted = filter (\<lambda>r. sort_key index r = k) (heads rows))"
proof -
  define kids where "kids = tb_kids (table_initialize rows)"
  define srt where "srt = js_sort (cell_cmp index desc) (heads rows)"
  have blocks: "rows = concat (map (block kids) (heads rows))"
  proof (cases "rows = []")
    case False
    from grouped[OF assms(1) False] show ?thesis by (auto simp: kids_def table_initialize_def)
  qed (simp add: heads_def)
  have m: "mset srt = mset (heads rows)" by (simp add: srt_def)
  have mm: "mset (concat (map (block kids) srt)) = mset rows"
    using mset_concat_map[OF m, of "block kids"] blocks by simp
  then have "set (concat (map (block kids) srt)) = set rows" by (metis set_mset_mset)
  then have rest: "filter (\<lambda>r. r \<notin> set (concat (map (block kids) srt))) rows = []" by (auto simp: filter_empty_conv)
  have "(\<lambda>r. r # kids (tr_id r)) = block kids" by (simp add: block_def fun_eq_iff)
  then have t: "table_sort index desc (table_initialize rows) = Inr ((table_initialize rows)\<lparr>tb_rows := concat (map (block kids) srt)\<rparr>)"
    using assms(2) rest unfolding table_sort_def Let_def kids_def[symmetric] heads_def[symmetric] srt_def[symmetric]
    by (auto simp: table_initialize_def heads_def[symmetric] srt_def[symmetric] not_le)
  have "sorted_wrt (by_cell.le index desc) srt" unfolding srt_def by (rule by_cell.sort_sorted) simp
  moreover have "by_cell.le index desc = (\<lambda>a b. if desc then sort_key index b \<le> sort_key index a else sort_key index a \<le> sort_key index b)"
    by (intro ext) (rule by_cell_le)
  ultimately have s: "sorted_wrt (\<lambda>a b. if desc then sort_key index b \<le> sort_key index a else sort_key index a \<le> sort_key index b) srt"
    by simp
  have st: "filter (\<lambda>r. sort_key index r = k) srt = filter (\<lambda>r. sort_key index r = k) (heads rows)" for k
    unfolding srt_def by (rule by_cell.sort_stable) (simp add: by_cell_le)
  show ?thesis
    using t mm m s st blocks by (intro exI[of _ "(table_initialize rows)\<lparr>tb_rows := concat (map (block kids) srt)\<rparr>"] exI[of _ srt])
      (simp add: kids_def)
qed

definition demo_rows :: "trow list" where
  "demo_rows = [\<lparr>tr_id = 0, tr_child = False, tr_cells = [''Load'']\<rparr>, \<lparr>tr_id = 1, tr_child = True, tr_cells = []\<rparr>,
     \<lparr>tr_id = 2, tr_child = False, tr_cells = ['' extract '']\<rparr>]"

theorem table_sort_blocks_witness:
  "\<exists>t. table_sort 0 False (table_initialize demo_rows) = Inr t \<and> mset (tb_rows t) = mset demo_rows \<and>
     map tr_id (tb_rows t) = [2, 0, 1]"
proof -
  have wf: "wf_rows demo_rows" "\<forall>r \<in> set (heads demo_rows). 0 < length (tr_cells r)"
    by (simp_all add: wf_rows_def demo_rows_def heads_def)
  obtain t where t: "table_sort 0 False (table_initialize demo_rows) = Inr t" "mset (tb_rows t) = mset demo_rows"
    using table_sort_blocks[OF wf, of False] by auto
  have "(case table_sort 0 False (table_initialize demo_rows) of Inl e \<Rightarrow> [] | Inr t \<Rightarrow> map tr_id (tb_rows t)) = [2, 0, 1]"
    by code_simp
  with t show ?thesis by simp
qed

text \<open>
  Numbers in a column are compared as texts: a row with 10 comes before a row with 9.
\<close>

lemma numbers_as_texts: "cell_cmp 0 False \<lparr>tr_id = 0, tr_child = False, tr_cells = [''10'']\<rparr>
    \<lparr>tr_id = 1, tr_child = False, tr_cells = [''9'']\<rparr> = Fin (-1)"
  by code_simp

subsection \<open>The head of the table\<close>

lemma unmark_heads:
  "c \<in> {''asc'', ''desc''} \<Longrightarrow>
   c \<in> set (pg_class (foldl (\<lambda>p k. jq_removeClass (th_el k) ''desc'' (jq_removeClass (th_el k) ''asc'' p)) p ks) e) \<longleftrightarrow>
   e \<notin> th_el ` set ks \<and> c \<in> set (pg_class p e)"
  by (induction ks arbitrary: p) auto

text \<open>After a click exactly the clicked column is marked, unless an ignored column was.\<close>

lemma toggleSort_marks:
  assumes "toggleSort i ks (p, t) = Inr (q, t')" "i \<in> set ks"
    "\<forall>k \<in> set ks. th_el k \<noteq> th_el i \<longrightarrow> ''asc'' \<notin> set (pg_class p (th_el i)) \<and> ''desc'' \<notin> set (pg_class p (th_el i)) \<or>
       ''asc'' \<notin> set (pg_class p (th_el k)) \<and> ''desc'' \<notin> set (pg_class p (th_el k))"
  shows "\<forall>k \<in> set ks. (''asc'' \<in> set (pg_class q (th_el k)) \<or> ''desc'' \<in> set (pg_class q (th_el k))) \<longleftrightarrow> th_el k = th_el i"
  using assms
  by (auto simp: toggleSort_def Let_def and_then_Inr_iff jq_hasClass_def unmark_heads split: if_splits)

end
