(* ===== verification/JobLog.thy ===== *)
theory JobLog
  imports Page
begin

text \<open>
  \<open>model/job-log.js\<close>: the model of a job's log. \<open>refresh\<close> asks the server, and waits for the answer, for
  the log from the current offset on, in pieces of at most 50000, until an answer is empty. The
  server is a parameter: what it answers to a request from an offset.
\<close>

datatype log_reply = LogError string | LogChunk nat nat string | LogFailed

record job_log =
  jl_offset :: nat
  jl_logData :: string

definition joblog_initialize :: job_log where
  "joblog_initialize = \<lparr>jl_offset = 0, jl_logData = []\<rparr>"

definition joblog_request :: "env \<Rightarrow> string \<Rightarrow> job_log \<Rightarrow> effect" where
  "joblog_request g attempt m = Get (contextURL g @ ''/executor'')
     [(''execid'', execId g), (''jobId'', jobId g), (''ajax'', ''fetchExecJobLogs''),
      (''offset'', show_nat (jl_offset m)), (''length'', ''50000''), (''attempt'', attempt)]"

text \<open>One answer; the flag is \<open>finished\<close>.\<close>

definition joblog_answer :: "log_reply \<Rightarrow> job_log \<Rightarrow> job_log \<times> bool" where
  "joblog_answer r m =
     (case r of
        LogError e \<Rightarrow> (m, True)
      | LogFailed \<Rightarrow> (m, True)
      | LogChunk off len text \<Rightarrow>
          if len = 0 then (m, True)
          else (m\<lparr>jl_offset := off + len, jl_logData := jl_logData m @ text\<rparr>, False))"

fun joblog_refresh :: "nat \<Rightarrow> (nat \<Rightarrow> log_reply) \<Rightarrow> job_log \<Rightarrow> job_log result" where
  "joblog_refresh 0 srv m = Inl NoReturn"
| "joblog_refresh (Suc fuel) srv m =
     (case joblog_answer (srv (jl_offset m)) m of
        (m, finished) \<Rightarrow> if finished then Inr m else joblog_refresh fuel srv m)"

text \<open>
  What the server is documented to answer while the log holds the text \<open>full\<close>: the piece of at most
  50000 characters from the offset on, with its offset and length.
\<close>

definition serves :: "(nat \<Rightarrow> log_reply) \<Rightarrow> string \<Rightarrow> bool" where
  "serves srv full \<longleftrightarrow> (\<forall>off. srv off = LogChunk off (min 50000 (length full - off)) (take 50000 (drop off full)))"

definition holds_prefix :: "string \<Rightarrow> job_log \<Rightarrow> bool" where
  "holds_prefix full m \<longleftrightarrow> jl_offset m \<le> length full \<and> jl_logData m = take (jl_offset m) full"

lemma rounds: "0 < r \<Longrightarrow> (r + 49999) div 50000 = Suc ((r - min 50000 r + 49999) div 50000)" for r :: nat
proof (cases "r \<le> 50000")
  case True
  assume "0 < r"
  with True have "r + 49999 = 50000 + (r - 1)" "r - 1 < 50000" by simp_all
  then show ?thesis using True by (simp add: min_def)
next
  case False
  then have "r + 49999 = 50000 + (r - 50000 + 49999)" by simp
  then show ?thesis using False by (simp add: min_def)
qed

lemma refresh_gets_all:
  assumes "serves srv full" "holds_prefix full m" "(length full - jl_offset m + 49999) div 50000 + 1 \<le> fuel"
  shows "joblog_refresh fuel srv m = Inr \<lparr>jl_offset = length full, jl_logData = full\<rparr>"
  using assms(2,3)
proof (induction fuel arbitrary: m)
  case 0
  then show ?case by simp
next
  case (Suc fuel)
  define off where "off = jl_offset m"
  have off: "off \<le> length full" "jl_logData m = take off full"
    using Suc.prems(1) by (simp_all add: holds_prefix_def off_def)
  have srv: "srv off = LogChunk off (min 50000 (length full - off)) (take 50000 (drop off full))"
    using assms(1) by (simp add: serves_def)
  show ?case
  proof (cases "off = length full")
    case True
    then have "m = \<lparr>jl_offset = length full, jl_logData = full\<rparr>" using off by (cases m) (simp add: off_def)
    with True srv show ?thesis by (simp add: joblog_answer_def off_def)
  next
    case False
    let ?n = "min 50000 (length full - off)"
    let ?m = "m\<lparr>jl_offset := off + ?n, jl_logData := jl_logData m @ take 50000 (drop off full)\<rparr>"
    have "take 50000 (drop off full) = take ?n (drop off full)" by (simp add: min_def)
    then have "jl_logData m @ take 50000 (drop off full) = take (off + ?n) full" using off by (simp add: take_add)
    then have "holds_prefix full ?m" using off(1) by (simp add: holds_prefix_def)
    moreover have "(length full - (off + ?n) + 49999) div 50000 + 1 \<le> fuel"
    proof -
      have "0 < length full - off" using False off(1) by simp
      then have "(length full - off + 49999) div 50000 = Suc ((length full - off - ?n + 49999) div 50000)"
        by (rule rounds)
      moreover have "(length full - off + 49999) div 50000 \<le> fuel"
        using Suc.prems(2) unfolding off_def[symmetric] by (metis Suc_eq_plus1 Suc_le_mono)
      moreover have "length full - off - ?n = length full - (off + ?n)" by (rule diff_diff_left)
      ultimately show ?thesis by (metis Suc_eq_plus1)
    qed
    ultimately have "joblog_refresh fuel srv ?m = Inr \<lparr>jl_offset = length full, jl_logData = full\<rparr>"
      using Suc.IH[of ?m] by simp
    moreover have "?n \<noteq> 0" using False off(1) by simp
    ultimately show ?thesis using srv by (simp add: joblog_answer_def off_def[symmetric])
  qed
qed



text \<open>A server that never answers with an empty piece keeps the page waiting for ever.\<close>

lemma joblog_refresh_endless:
  "(\<And>off. srv off = LogChunk off 1 ''x'') \<Longrightarrow> joblog_refresh fuel srv m = Inl NoReturn"
  by (induction fuel arbitrary: m) (simp_all add: joblog_answer_def)

end
