(* ===== verification/Menus.thy ===== *)
theory Menus
  imports ExecDialog
begin

text \<open>
  Context menus: \<open>view/context-menu.js\<close> draws and operates them, \<open>util/flow-loader.js\<close> says what they
  offer on the pages that show a flow.
\<close>

subsection \<open>The menus of a flow page\<close>

definition panel_id :: "string option \<Rightarrow> string \<Rightarrow> string" where
  "panel_id parentPath node = (if truthy parentPath then the parentPath @ '':'' @ node @ ''-info'' else node @ ''-info'')"

definition createNewPanel :: "string option \<Rightarrow> string \<Rightarrow> effect list" where
  "createNewPanel parentPath node =
     [Call ''clone'' [''#flowInfoBase'', panel_id parentPath node], Call ''showExtendedView'' [panel_id parentPath node]]"

definition closeAllSubDisplays :: "page \<Rightarrow> page" where
  "closeAllSubDisplays = hide_el ''.flowExtendedView''"

definition open_flow :: "env \<Rightarrow> string \<Rightarrow> menu_item list" where
  "open_flow g flow =
     [Item ''Open Flow...'' [Redirect (flow_url g flow)] [],
      Item ''Open Flow in New Window...'' [OpenWindow (flow_url g flow)] []]"

definition open_properties :: "env \<Rightarrow> string \<Rightarrow> string \<Rightarrow> menu_item list" where
  "open_properties g flow job =
     [Item ''Open Properties...'' [Redirect (job_url g flow job)] [],
      Item ''Open Properties in New Window...'' [OpenWindow (job_url g flow job)] []]"

definition open_job :: "env \<Rightarrow> string \<Rightarrow> string \<Rightarrow> menu_item list" where
  "open_job g flow job =
     [Item ''Open Job...'' [Redirect (job_url g flow job)] [],
      Item ''Open Job in New Window...'' [OpenWindow (job_url g flow job)] []]"

definition nodeClickCallback :: "env \<Rightarrow> string \<Rightarrow> string \<Rightarrow> string \<Rightarrow> bool \<Rightarrow> string \<Rightarrow> menu_item list" where
  "nodeClickCallback g flow job type expanded nodeFlow =
     (if type = ''flow''
      then [if expanded then Item ''Collapse Flow...'' [Call ''collapseFlow'' [job]] []
            else Item ''Expand Flow...'' [Call ''expandFlow'' [job]] []] @
           [Break] @ open_flow g nodeFlow @ [Break] @ open_properties g flow job @
           [Break, Item ''Center Flow'' [Call ''centerNode'' [job]] []]
      else open_job g flow job @ [Break, Item ''Center Job'' [Call ''centerNode'' [job]] []])"

definition jobClickCallback :: "env \<Rightarrow> string \<Rightarrow> string \<Rightarrow> string \<Rightarrow> string \<Rightarrow> menu_item list" where
  "jobClickCallback g flow job type nodeFlow =
     (if type = ''flow''
      then open_flow g nodeFlow @ [Break] @ open_properties g flow job @
           [Break, Item ''Center Flow'' [Call ''centerNode'' [job]] []]
      else open_job g flow job @ [Break, Item ''Center Job'' [Call ''centerNode'' [job]] []])"

definition graphClickCallback :: "env \<Rightarrow> string \<Rightarrow> menu_item list" where
  "graphClickCallback g flow = open_flow g flow @ [Break, Item ''Center Graph'' [Trigger ''resetPanZoom''] []]"

subsection \<open>Drawing\<close>

text \<open>
  A drawn menu is a list of entries; an entry with a submenu refers to it by its number. The state is
  the menus in the document, each with its number, and the next number; only a menu that is no
  submenu is displayed when it is drawn.
\<close>

datatype dom_item = DBreak | DItem string "effect list" "nat option"

record dom_menu =
  dm_items :: "dom_item list"
  dm_sub :: bool
  dm_shown :: bool
  dm_pos :: "int \<times> int"

record menu_dom =
  md_menus :: "(nat \<times> dom_menu) list"
  md_next :: nat

definition add_menu :: "dom_menu \<Rightarrow> menu_dom \<Rightarrow> nat \<times> menu_dom" where
  "add_menu m d = (md_next d, \<lparr>md_menus = md_menus d @ [(md_next d, m)], md_next = Suc (md_next d)\<rparr>)"

fun setupMenu :: "menu_item list \<Rightarrow> menu_dom \<Rightarrow> dom_item list \<times> menu_dom" where
  "setupMenu [] d = ([], d)"
| "setupMenu (Break # ms) d = (case setupMenu ms d of (items, d) \<Rightarrow> (DBreak # items, d))"
| "setupMenu (Item title callback [] # ms) d =
     (case setupMenu ms d of (items, d) \<Rightarrow> (DItem title callback None # items, d))"
| "setupMenu (Item title callback (s # ss) # ms) d =
     (case setupMenu (s # ss) d of (sub, d) \<Rightarrow>
        (case add_menu \<lparr>dm_items = sub, dm_sub = True, dm_shown = False, dm_pos = (0, 0)\<rparr> d of (k, d) \<Rightarrow>
           (case setupMenu ms d of (items, d) \<Rightarrow> (DItem title callback (Some k) # items, d))))"

definition menus_hide :: "menu_dom \<Rightarrow> menu_dom" where
  "menus_hide d = d\<lparr>md_menus := []\<rparr>"

definition menus_show :: "int \<times> int \<Rightarrow> menu_item list \<Rightarrow> menu_dom \<Rightarrow> menu_dom" where
  "menus_show pos menu d =
     (case setupMenu menu (menus_hide d) of (items, d) \<Rightarrow>
        snd (add_menu \<lparr>dm_items = items, dm_sub = False, dm_shown = True, dm_pos = pos\<rparr> d))"

text \<open>A click on an entry hides its menu and calls the callback.\<close>

definition upd_menu :: "nat \<Rightarrow> (dom_menu \<Rightarrow> dom_menu) \<Rightarrow> menu_dom \<Rightarrow> menu_dom" where
  "upd_menu k f d = d\<lparr>md_menus := map (\<lambda>(j, m). (j, if j = k then f m else m)) (md_menus d)\<rparr>"

definition menu_item_click :: "nat \<Rightarrow> effect list \<Rightarrow> menu_dom \<Rightarrow> menu_dom \<times> effect list" where
  "menu_item_click k callback d = (upd_menu k (\<lambda>m. m\<lparr>dm_shown := False\<rparr>) d, callback)"

text \<open>
  The mouse on an entry with a submenu: entering hides all submenus and starts a timer; when it
  fires and the mouse has not left, the submenu is displayed beside the entry.
\<close>

definition menu_mouseenter :: "menu_dom \<Rightarrow> menu_dom \<times> bool" where
  "menu_mouseenter d = (d\<lparr>md_menus := map (\<lambda>(j, m). (j, if dm_sub m then m\<lparr>dm_shown := False\<rparr> else m)) (md_menus d)\<rparr>, True)"

definition menu_mouseleave :: "bool" where
  "menu_mouseleave = False"

definition menu_timer :: "bool \<Rightarrow> nat \<Rightarrow> int \<Rightarrow> int \<Rightarrow> int \<Rightarrow> menu_dom \<Rightarrow> menu_dom" where
  "menu_timer selected sub left topY width d =
     (if selected then upd_menu sub (\<lambda>m. m\<lparr>dm_pos := (left + width - 5, topY), dm_shown := True\<rparr>) d else d)"

subsection \<open>What is drawn\<close>

definition drawn_ids :: "menu_dom \<Rightarrow> nat list" where
  "drawn_ids d = map fst (md_menus d)"

definition wf_dom :: "menu_dom \<Rightarrow> bool" where
  "wf_dom d \<longleftrightarrow> distinct (drawn_ids d) \<and> (\<forall>k \<in> set (drawn_ids d). k < md_next d)"

lemma add_menu_wf: "wf_dom d \<Longrightarrow> wf_dom (snd (add_menu m d))"
  by (auto simp: wf_dom_def add_menu_def drawn_ids_def)

lemma setupMenu_subs:
  "wf_dom d \<Longrightarrow> wf_dom (snd (setupMenu ms d)) \<and>
   (\<exists>new. md_menus (snd (setupMenu ms d)) = md_menus d @ new \<and> (\<forall>m \<in> snd ` set new. dm_sub m \<and> \<not> dm_shown m))"
proof (induction ms d rule: setupMenu.induct)
  case (4 title callback s ss ms d)
  obtain sub d1 where s1: "setupMenu (s # ss) d = (sub, d1)" by (cases "setupMenu (s # ss) d")
  define m where "m = \<lparr>dm_items = sub, dm_sub = True, dm_shown = False, dm_pos = (0, 0)\<rparr>"
  obtain k d2 where s2: "add_menu m d1 = (k, d2)" by (cases "add_menu m d1")
  obtain items d3 where s3: "setupMenu ms d2 = (items, d3)" by (cases "setupMenu ms d2")
  have i1: "wf_dom d1 \<and> (\<exists>new. md_menus d1 = md_menus d @ new \<and> (\<forall>m \<in> snd ` set new. dm_sub m \<and> \<not> dm_shown m))"
    using 4 s1 by simp
  then have w2: "wf_dom d2" using add_menu_wf[of d1 m] s2 by simp
  have "wf_dom d3 \<and> (\<exists>new. md_menus d3 = md_menus d2 @ new \<and> (\<forall>m \<in> snd ` set new. dm_sub m \<and> \<not> dm_shown m))"
    using "4.IH"(2)[OF s1[symmetric] s2[symmetric, unfolded m_def] w2] s3 by simp
  moreover have "md_menus d2 = md_menus d1 @ [(k, m)]" using s2 by (auto simp: add_menu_def)
  ultimately show ?case using i1 s1 s2 s3 by (auto simp: m_def)
qed (auto split: prod.splits)

text \<open>
  The document holds the menus of the last call of \<open>show\<close> only, and of these exactly the main menu is
  displayed.
\<close>

lemma menus_show_main:
  assumes "wf_dom d"
  shows "map fst (filter (\<lambda>(k, m). dm_shown m) (md_menus (menus_show pos menu d))) = [md_next (menus_show pos menu d) - 1]"
proof -
  have "wf_dom (menus_hide d)" by (simp add: wf_dom_def menus_hide_def drawn_ids_def)
  from setupMenu_subs[OF this, of menu] show ?thesis
    by (fastforce simp: menus_show_def add_menu_def menus_hide_def filter_empty_conv split: prod.splits)
qed

end
