(* ===== verification/Sla.thy ===== *)
theory Sla
  imports ExecDialog
begin

text \<open>
  The rules a schedule is supervised by: \<open>view/schedule-sla.js\<close>, the older copy of it in
  \<open>view/triggers.js\<close>, the requests of \<open>util/schedule.js\<close>, and the server's reading of a rule
  (\<open>ScheduleServlet.parseSlaSetting\<close>). The table of the dialog ends with the row of the button
  "Add Row"; the rows kept here are those above it. The time picker on the duration fields is a library and
  does not change their values by itself.
\<close>

subsection \<open>Selections\<close>

text \<open>
  A selection field: the text and value of its options, and the selected one. The first option that is
  added is the selected one until another is.
\<close>

record selection =
  sel_options :: "(string \<times> string) list"
  sel_index :: nat

definition add_option :: "string option \<Rightarrow> selection \<Rightarrow> string \<times> string \<Rightarrow> selection" where
  "add_option wanted s tv =
     (let s' = s\<lparr>sel_options := sel_options s @ [tv]\<rparr>
      in if wanted = Some (snd tv) then s'\<lparr>sel_index := length (sel_options s)\<rparr> else s')"

definition fill_selection :: "string option \<Rightarrow> (string \<times> string) list \<Rightarrow> selection" where
  "fill_selection wanted tvs = foldl (add_option wanted) \<lparr>sel_options = [], sel_index = 0\<rparr> tvs"

definition sel_value :: "selection \<Rightarrow> string" where
  "sel_value s = (if sel_index s < length (sel_options s) then snd (sel_options s ! sel_index s) else [])"

subsection \<open>The dialog\<close>

record sla_row =
  sr_id :: selection
  sr_rule :: selection
  sr_duration :: string
  sr_email :: bool
  sr_kill :: bool

text \<open>\<open>indexToName\<close> and \<open>indexToText\<close> have the keys 0, 1, 2 and so on: lists.\<close>

record sla_view =
  sv_scheduleId :: string
  sv_indexToName :: "string list"
  sv_nameToIndex :: "nat jsobj"
  sv_indexToText :: "string list"
  sv_rows :: "sla_row list"

text \<open>An answer to \<open>slaInfo\<close>; what is missing is None.\<close>

record sla_setting =
  ss_id :: string
  ss_rule :: string
  ss_duration :: string
  ss_actions :: "string list"

record sla_info =
  si_error :: "string option"
  si_slaEmails :: "string list option"
  si_allJobNames :: "string list"
  si_settings :: "sla_setting list option"

definition ruleBoxOptions :: "string list" where
  "ruleBoxOptions = [''SUCCESS'', ''FINISH'']"

definition rule_options :: "(string \<times> string) list" where
  "rule_options = map (\<lambda>r. (r, r)) ruleBoxOptions"

definition handleSlaCancel :: "sla_view \<Rightarrow> sla_view" where
  "handleSlaCancel v = v\<lparr>sv_rows := (tl ^^ length (sv_rows v)) (sv_rows v)\<rparr>"

definition sla_request :: "env \<Rightarrow> string \<Rightarrow> effect list" where
  "sla_request g scheduleId =
     [Get (contextURL g @ ''/schedule'') [(''scheduleId'', scheduleId), (''ajax'', ''slaInfo'')], Modal ''#sla-options'']"

definition initFromSched :: "env \<Rightarrow> string \<Rightarrow> sla_view \<Rightarrow> sla_view \<times> effect list" where
  "initFromSched g scheduleId v =
     (v\<lparr>sv_scheduleId := scheduleId, sv_indexToName := [], sv_nameToIndex := [], sv_indexToText := []\<rparr>,
      sla_request g scheduleId)"

text \<open>The names of the flow and its jobs.\<close>

definition name_tables :: "string \<Rightarrow> string list \<Rightarrow> sla_view \<Rightarrow> sla_view" where
  "name_tables flowName jobs v =
     v\<lparr>sv_indexToName := [] # jobs,
       sv_nameToIndex := foldl (\<lambda>m i. obj_set (jobs ! i) (Suc i) m) [(flowName, 0)] [0..<length jobs],
       sv_indexToText := (''flow '' @ flowName) # map (\<lambda>j. ''job '' @ j) jobs\<rparr>"

definition id_options :: "sla_view \<Rightarrow> (string \<times> string) list" where
  "id_options v = zip (sv_indexToText v) (sv_indexToName v)"

text \<open>
  \<open>hours + ":" + minutes\<close>, of the number of minutes before the unit. The remainder has the sign of the
  dividend.
\<close>

definition js_rem :: "int \<Rightarrow> int \<Rightarrow> int" where
  "js_rem a b = sgn a * (\<bar>a\<bar> mod \<bar>b\<bar>)"

definition duration_text :: "string \<Rightarrow> string" where
  "duration_text raw =
     (case parseInt (substring raw 0 (length raw - 1)) of
        Fin q \<Rightarrow> show_int (\<lfloor>q\<rfloor> div 60) @ '':'' @ show_int (js_rem \<lfloor>q\<rfloor> 60)
      | _ \<Rightarrow> ''NaN:NaN'')"

definition setting_row :: "sla_view \<Rightarrow> sla_setting \<Rightarrow> sla_row" where
  "setting_row v s =
     \<lparr>sr_id = fill_selection (Some (ss_id s)) (id_options v),
      sr_rule = fill_selection (Some (ss_rule s)) rule_options,
      sr_duration = duration_text (ss_duration s),
      sr_email = (''EMAIL'' \<in> set (ss_actions s)), sr_kill = (''KILL'' \<in> set (ss_actions s))\<rparr>"

text \<open>The handler of the answer; every rule is inserted above the others.\<close>

definition sla_info_answer :: "string \<Rightarrow> sla_info \<Rightarrow> page \<times> sla_view \<Rightarrow> (page \<times> sla_view) \<times> effect list" where
  "sla_info_answer flowName d pv = (case pv of (p, v) \<Rightarrow>
     if truthy (si_error d) then ((p, v), [Alert (text_of (si_error d))])
     else
       let p = (case si_slaEmails d of None \<Rightarrow> p | Some es \<Rightarrow> set_val ''#slaEmails'' (join '','' es) p);
           v = name_tables flowName (si_allJobNames d) v;
           rows = foldl (\<lambda>rs s. setting_row v s # rs) (sv_rows v) (case si_settings d of None \<Rightarrow> [] | Some ss \<Rightarrow> ss)
       in ((p, v\<lparr>sv_rows := rows\<rparr>), []))"

text \<open>The button names a success handler that does not exist.\<close>

definition handleRemoveSla :: "sla_view \<Rightarrow> (effect list) result" where
  "handleRemoveSla v = Inl ReferenceError"

definition js_bool_text :: "bool \<Rightarrow> string" where
  "js_bool_text b = (if b then ''true'' else ''false'')"

definition row_setting :: "sla_row \<Rightarrow> string" where
  "row_setting r = sel_value (sr_id r) @ '','' @ sel_value (sr_rule r) @ '','' @ sr_duration r @ '','' @
     js_bool_text (sr_email r) @ '','' @ js_bool_text (sr_kill r)"

definition handleSetSla :: "env \<Rightarrow> page \<Rightarrow> sla_view \<Rightarrow> effect list" where
  "handleSetSla g p v = [Post (contextURL g @ ''/schedule'')
     ([(''scheduleId'', sv_scheduleId v), (''ajax'', ''setSla''), (''slaEmails'', pg_val p ''#slaEmails'')] @
      map (\<lambda>i. (''settings['' @ show_nat i @ '']'', row_setting (sv_rows v ! i))) [0..<length (sv_rows v)])]"

text \<open>The answers to the requests that change a schedule: an error is shown, or the page is loaded again.\<close>

definition set_sla_answer :: "env \<Rightarrow> string option \<Rightarrow> effect list" where
  "set_sla_answer g err = (if truthy err then [Alert (text_of err)] else [Redirect (contextURL g @ ''/schedule'')])"

definition sla_handleAddRow :: "sla_view \<Rightarrow> sla_view" where
  "sla_handleAddRow v = v\<lparr>sv_rows := sv_rows v @
     [\<lparr>sr_id = fill_selection None (id_options v), sr_rule = fill_selection None rule_options,
       sr_duration = [], sr_email = False, sr_kill = False\<rparr>]\<rparr>"

definition error_or_redirect :: "string \<Rightarrow> string option \<Rightarrow> page \<Rightarrow> page \<times> effect list" where
  "error_or_redirect url err p =
     (if truthy err then (set_text ''#errorMsg'' (text_of err) p, []) else (p, [Redirect url]))"

definition removeSched :: "env \<Rightarrow> string \<Rightarrow> effect list" where
  "removeSched g scheduleId =
     [Post (contextURL g @ ''/schedule'') [(''action'', ''removeSched''), (''scheduleId'', scheduleId)]]"

definition removeSched_answer :: "env \<Rightarrow> string option \<Rightarrow> page \<Rightarrow> page \<times> effect list" where
  "removeSched_answer g = error_or_redirect (contextURL g @ ''/schedule'')"

definition removeSla :: "env \<Rightarrow> string \<Rightarrow> effect list" where
  "removeSla g scheduleId =
     [Post (contextURL g @ ''/schedule'') [(''action'', ''removeSla''), (''scheduleId'', scheduleId)]]"

definition removeSla_answer :: "env \<Rightarrow> string option \<Rightarrow> page \<Rightarrow> page \<times> effect list" where
  "removeSla_answer g = error_or_redirect (contextURL g @ ''/schedule'')"

subsection \<open>The page of the triggers\<close>

text \<open>
  \<open>view/triggers.js\<close> has the dialog once more. There the answer returns early when there are rules,
  and the loop over the rules is reached only when there are none.
\<close>

definition expireTrigger :: "env \<Rightarrow> string \<Rightarrow> effect list" where
  "expireTrigger g triggerId =
     [Post (contextURL g @ ''/triggers'') [(''ajax'', ''expireTrigger''), (''triggerId'', triggerId)]]"

definition expireTrigger_answer :: "env \<Rightarrow> string option \<Rightarrow> page \<Rightarrow> page \<times> effect list" where
  "expireTrigger_answer g = error_or_redirect (contextURL g @ ''/triggers'')"

definition trig_removeSched :: "env \<Rightarrow> string \<Rightarrow> effect list" where
  "trig_removeSched g scheduleId =
     [Post (contextURL g @ ''/schedule'') [(''action'', ''removeSched''), (''scheduleId'', scheduleId)]]"

definition trig_removeSla :: "env \<Rightarrow> string \<Rightarrow> effect list" where
  "trig_removeSla g scheduleId =
     [Post (contextURL g @ ''/schedule'') [(''action'', ''removeSla''), (''scheduleId'', scheduleId)]]"

definition trig_handleSlaCancel :: "page \<times> sla_view \<Rightarrow> page \<times> sla_view" where
  "trig_handleSlaCancel pv = (case pv of (p, v) \<Rightarrow>
     (seq [hide_el ''#slaModalBackground'', hide_el ''#sla-options''] p,
      v\<lparr>sv_rows := (tl ^^ length (sv_rows v)) (sv_rows v)\<rparr>))"

definition trig_initFromSched :: "env \<Rightarrow> string \<Rightarrow> page \<times> sla_view \<Rightarrow> (page \<times> sla_view) \<times> effect list" where
  "trig_initFromSched g scheduleId pv = (case pv of (p, v) \<Rightarrow>
     ((seq [show_el ''#slaModalBackground'', show_el ''#sla-options''] p,
       v\<lparr>sv_scheduleId := scheduleId, sv_indexToName := [], sv_nameToIndex := [], sv_indexToText := []\<rparr>),
      [Get (contextURL g @ ''/schedule'') [(''scheduleId'', scheduleId), (''ajax'', ''slaInfo'')]]))"

definition trig_sla_answer :: "string \<Rightarrow> sla_info \<Rightarrow> page \<times> sla_view \<Rightarrow> (page \<times> sla_view) \<times> effect list" where
  "trig_sla_answer flowName d pv = (case pv of (p, v) \<Rightarrow>
     if truthy (si_error d) then ((p, v), [Alert (text_of (si_error d))])
     else
       let p = (case si_slaEmails d of None \<Rightarrow> p | Some es \<Rightarrow> set_val ''#slaEmails'' (join '','' es) p);
           v = name_tables flowName (si_allJobNames d) v
       in (case si_settings d of
             Some _ \<Rightarrow> ((p, v), [])
           | None \<Rightarrow> ((p, v\<lparr>sv_rows := foldl (\<lambda>rs s. setting_row v s # rs) (sv_rows v) []\<rparr>), [])))"

definition trig_handleRemoveSla :: "env \<Rightarrow> sla_view \<Rightarrow> effect list" where
  "trig_handleRemoveSla g v =
     [Post (contextURL g @ ''/schedule'') [(''action'', ''removeSla''), (''scheduleId'', sv_scheduleId v)]]"

definition trig_handleSetSla :: "env \<Rightarrow> page \<Rightarrow> sla_view \<Rightarrow> effect list" where
  "trig_handleSetSla g p v = [Post (contextURL g @ ''/schedule'')
     ([(''scheduleId'', sv_scheduleId v), (''ajax'', ''setSla''), (''slaEmails'', pg_val p ''#slaEmails'')] @
      map (\<lambda>i. (''settings['' @ show_nat i @ '']'', row_setting (sv_rows v ! i))) [0..<length (sv_rows v)])]"

definition trig_handleAddRow :: "sla_view \<Rightarrow> sla_view" where
  "trig_handleAddRow v = v\<lparr>sv_rows := sv_rows v @
     [\<lparr>sr_id = fill_selection None (id_options v), sr_rule = fill_selection None rule_options,
       sr_duration = [], sr_email = False, sr_kill = False\<rparr>]\<rparr>"

subsection \<open>The server\<close>

text \<open>
  A rule of the server: the job it watches, None for the flow, whether the job or flow has to succeed or only
  to finish, the minutes, and what is done. \<open>toWebObject\<close> is the form in which it is served; a duration
  of no minutes has no period string.
\<close>

record sla_option =
  so_job :: "string option"
  so_succeed :: bool
  so_minutes :: int
  so_email :: bool
  so_kill :: bool

definition createPeriodString :: "int \<Rightarrow> string" where
  "createPeriodString m = (if 0 < m then show_int m @ ''m'' else ''null'')"

definition toWebObject :: "sla_option \<Rightarrow> sla_setting" where
  "toWebObject s = \<lparr>ss_id = (case so_job s of None \<Rightarrow> [] | Some j \<Rightarrow> j),
     ss_rule = (if so_succeed s then ''SUCCESS'' else ''FINISH''), ss_duration = createPeriodString (so_minutes s),
     ss_actions = (if so_email s then [''EMAIL''] else []) @ (if so_kill s then [''KILL''] else [])\<rparr>"

text \<open>\<open>Integer.parseInt\<close> and the arithmetic of \<open>int\<close>; Java's \<open>split\<close> drops empty pieces at the end.\<close>

definition java_int :: "int \<Rightarrow> int" where
  "java_int x = (x + 2 ^ 31) mod 2 ^ 32 - 2 ^ 31"

definition java_parseInt :: "string \<Rightarrow> int option" where
  "java_parseInt s =
     (let (neg, ds) = (case s of [] \<Rightarrow> (False, [])
        | c # r \<Rightarrow> if c = CHR ''-'' then (True, r) else if c = CHR ''+'' then (False, r) else (False, s));
          n = (if neg then - int (digits_value ds) else int (digits_value ds))
      in if ds = [] \<or> \<not> list_all is_digit ds \<or> n < - (2 ^ 31) \<or> 2 ^ 31 \<le> n then None else Some n)"

definition java_split :: "char \<Rightarrow> string \<Rightarrow> string list" where
  "java_split d s = (if s = [] then [[]] else rev (dropWhile (\<lambda>t. t = []) (rev (split_on d s))))"

definition parseDuration :: "string \<Rightarrow> int option" where
  "parseDuration s =
     (case java_split (CHR '':'') s of
        h # m # _ \<Rightarrow> (case (java_parseInt h, java_parseInt m) of
            (Some hour, Some mins) \<Rightarrow> Some (java_int (mins + java_int (hour * 60)))
          | _ \<Rightarrow> None)
      | _ \<Rightarrow> None)"

text \<open>A rule without an action is dropped, \<open>Some None\<close>; an exception is None.\<close>

definition parseSlaSetting :: "string \<Rightarrow> sla_option option option" where
  "parseSlaSetting s =
     (case split_on (CHR '','') s of
        jid # rule # duration # email # kill # _ \<Rightarrow>
          if email = ''true'' \<or> kill = ''true''
          then (case parseDuration duration of
                  None \<Rightarrow> None
                | Some m \<Rightarrow> Some (Some \<lparr>so_job = (if jid = [] then None else Some jid), so_succeed = (rule = ''SUCCESS''),
                    so_minutes = m, so_email = (email = ''true''), so_kill = (kill = ''true'')\<rparr>))
          else Some None
      | _ \<Rightarrow> None)"

text \<open>What an existing rule looks like: it does something, and lasts a while.\<close>

definition wf_option :: "string list \<Rightarrow> sla_option \<Rightarrow> bool" where
  "wf_option jobs s \<longleftrightarrow> (so_email s \<or> so_kill s) \<and> 0 < so_minutes s \<and> so_minutes s < 2 ^ 31 \<and>
     (case so_job s of None \<Rightarrow> True | Some j \<Rightarrow> j \<noteq> [] \<and> CHR '','' \<notin> set j \<and> j \<in> set jobs)"

subsection \<open>From the server and back\<close>

lemma add_option_value:
  assumes "sel_index s < length (sel_options s) \<or> sel_options s = [] \<and> sel_index s = 0"
  shows "sel_options (add_option (Some w) s tv) = sel_options s @ [tv]"
    "sel_index (add_option (Some w) s tv) < Suc (length (sel_options s))"
    "sel_value (add_option (Some w) s tv) =
       (if w = snd tv then w else if sel_options s = [] then snd tv else sel_value s)"
  using assms by (auto simp: add_option_def Let_def sel_value_def nth_append)

lemma selected_value:
  "sel_value (fill_selection (Some w) tvs) = (if w \<in> snd ` set tvs then w else case tvs of [] \<Rightarrow> [] | tv # _ \<Rightarrow> snd tv)"
proof -
  define f where "f = fill_selection (Some w)"
  have f: "f (tvs @ [tv]) = add_option (Some w) (f tvs) tv" for tvs tv by (simp add: f_def fill_selection_def)
  have "sel_options (f tvs) = tvs \<and> (sel_index (f tvs) < length tvs \<or> tvs = [] \<and> sel_index (f tvs) = 0) \<and>
    sel_value (f tvs) = (if w \<in> snd ` set tvs then w else case tvs of [] \<Rightarrow> [] | tv # _ \<Rightarrow> snd tv)" for tvs
  proof (induction tvs rule: rev_induct)
    case Nil
    show ?case by (simp add: f_def fill_selection_def sel_value_def)
  next
    case (snoc tv tvs)
    then have i: "sel_index (f tvs) < length (sel_options (f tvs)) \<or> sel_options (f tvs) = [] \<and> sel_index (f tvs) = 0"
      by auto
    show ?case unfolding f using add_option_value[OF i, of w tv] snoc by (cases tvs) auto
  qed
  then show ?thesis by (simp add: f_def)
qed

lemma duration_back:
  assumes "0 < m" "m < 2 ^ 31"
  shows "parseDuration (duration_text (createPeriodString m)) = Some m"
proof -
  have d: "list_all is_digit (show_nat n)" for n by (rule show_nat_digits)
  have c: "CHR '':'' \<notin> set (show_nat n)" for n
    using d[of n] by (auto simp: list_all_iff is_digit_def char_code_def)
  have jp: "java_parseInt (show_nat n) = Some (int n)" if "int n < 2 ^ 31" for n
  proof -
    obtain x ds where x: "show_nat n = x # ds" by (cases "show_nat n") auto
    have "is_digit x" using d[of n] x by simp
    then have "x \<noteq> CHR ''-''" "x \<noteq> CHR ''+''" by (auto dest: is_digit_special)
    then show ?thesis using that d[of n] digits_value_show[of n]
      by (simp add: java_parseInt_def x Let_def del: digits_value_show)
  qed
  have dv: "duration_text (createPeriodString m) = show_nat (nat (m div 60)) @ CHR '':'' # show_nat (nat (m mod 60))"
  proof -
    have "parseInt (show_nat (nat m)) = Fin (of_nat (nat m))" using parseInt_show_nat[of "[]" "nat m"] by simp
    moreover have "0 \<le> m div 60" "0 \<le> m mod 60" using assms(1) by (simp_all add: pos_imp_zdiv_nonneg_iff)
    ultimately show ?thesis
      using assms(1) by (simp add: duration_text_def createPeriodString_def show_int_def substring_def js_rem_def not_less)
  qed
  have "java_split (CHR '':'') (duration_text (createPeriodString m)) =
      [show_nat (nat (m div 60)), show_nat (nat (m mod 60))]"
    unfolding dv by (simp add: java_split_def split_on_append split_on_none c)
  moreover have "m div 60 * 60 < 2 ^ 31" "0 \<le> m div 60" using assms by (simp_all add: pos_imp_zdiv_nonneg_iff)
  moreover have "m mod 60 + m div 60 * 60 = m" by simp
  ultimately show ?thesis
    unfolding parseDuration_def using assms jp by (simp add: java_int_def)
qed

lemma comma_free:
  "CHR '','' \<notin> set (js_bool_text b)" "CHR '','' \<notin> set (duration_text (createPeriodString m))"
proof -
  show "CHR '','' \<notin> set (js_bool_text b)" by (simp add: js_bool_text_def)
  have "CHR '','' \<notin> set (show_nat n)" for n
    using show_nat_digits[of n] by (auto simp: list_all_iff is_digit_def char_code_def)
  then have "CHR '','' \<notin> set (show_int i)" for i by (simp add: show_int_def)
  then show "CHR '','' \<notin> set (duration_text (createPeriodString m))"
    by (auto simp: duration_text_def split: jsnum.split)
qed

lemma split_five:
  assumes "CHR '','' \<notin> set a" "CHR '','' \<notin> set b" "CHR '','' \<notin> set c" "CHR '','' \<notin> set d" "CHR '','' \<notin> set e"
  shows "split_on (CHR '','') (a @ '','' @ b @ '','' @ c @ '','' @ d @ '','' @ e) = [a, b, c, d, e]"
  using split_join[of "[a, b, c, d, e]" "CHR '',''"] assms by simp

lemma option_back:
  assumes "wf_option jobs s" "v = name_tables flowName jobs w"
  shows "parseSlaSetting (row_setting (setting_row v (toWebObject s))) = Some (Some s)"
proof -
  let ?r = "setting_row v (toWebObject s)" and ?id = "case so_job s of None \<Rightarrow> [] | Some j \<Rightarrow> j"
  have m: "0 < so_minutes s" "so_minutes s < 2 ^ 31" "so_email s \<or> so_kill s" using assms(1) by (simp_all add: wf_option_def)
  have "?id \<in> snd ` set (id_options v)"
    using assms by (auto simp: wf_option_def id_options_def name_tables_def image_iff set_zip in_set_conv_nth split: option.splits)
  then have idv: "sel_value (sr_id ?r) = ?id" by (simp add: setting_row_def selected_value toWebObject_def)
  have ru: "sel_value (sr_rule ?r) = (if so_succeed s then ''SUCCESS'' else ''FINISH'')"
    by (simp add: setting_row_def selected_value toWebObject_def rule_options_def ruleBoxOptions_def)
  have c: "CHR '','' \<notin> set ?id" using assms(1) by (auto simp: wf_option_def split: option.splits)
  have "split_on (CHR '','') (row_setting ?r) = [?id, if so_succeed s then ''SUCCESS'' else ''FINISH'',
      duration_text (createPeriodString (so_minutes s)), js_bool_text (so_email s), js_bool_text (so_kill s)]"
    unfolding row_setting_def idv ru
    by (subst split_five) (use c in \<open>simp_all add: setting_row_def toWebObject_def comma_free\<close>)
  moreover have "?id = [] \<longleftrightarrow> so_job s = None" using assms(1) by (auto simp: wf_option_def split: option.splits)
  ultimately show ?thesis
    using m unfolding parseSlaSetting_def
    by (cases s) (auto simp: duration_back js_bool_text_def split: option.splits)
qed

text \<open>
  C28. The rules of a schedule survive the dialog: the rules that the server has are shown, and "Set" without
  a change sends texts in which the server reads the same rules, the last one first. This holds for rules
  that do something and last at least a minute, on jobs the flow still has.
\<close>

theorem sla_roundtrip:
  assumes "\<forall>s \<in> set opts. wf_option jobs s" "sv_rows v = []" "\<not> truthy (si_error d)"
    "si_allJobNames d = jobs" "si_settings d = Some (map toWebObject opts)"
  shows "\<exists>p' v'. sla_info_answer flowName d (p, v) = ((p', v'), []) \<and>
    map (\<lambda>r. parseSlaSetting (row_setting r)) (sv_rows v') = map (\<lambda>s. Some (Some s)) (rev opts) \<and>
    (\<exists>url fields. handleSetSla g p' v' = [Post url (fields @
       map (\<lambda>i. (''settings['' @ show_nat i @ '']'', row_setting (sv_rows v' ! i))) [0..<length opts])])"
proof -
  define v1 where "v1 = name_tables flowName jobs v"
  have f: "foldl (\<lambda>rs s. setting_row v1 s # rs) rs ss = rev (map (setting_row v1) ss) @ rs" for rs ss
    by (induction ss arbitrary: rs) auto
  have r: "sv_rows v1 = []" using assms(2) by (simp add: v1_def name_tables_def)
  have "map (\<lambda>r. parseSlaSetting (row_setting r)) (rev (map (setting_row v1) (map toWebObject opts))) =
      map (\<lambda>s. Some (Some s)) (rev opts)"
    using option_back[OF _ v1_def] assms(1) by (simp add: rev_map[symmetric])
  then show ?thesis
    using assms(3-5) by (simp add: sla_info_answer_def Let_def v1_def[symmetric] f r handleSetSla_def)
qed

definition demo_rules :: "sla_option list" where
  "demo_rules = [\<lparr>so_job = None, so_succeed = True, so_minutes = 90, so_email = True, so_kill = False\<rparr>,
     \<lparr>so_job = Some ''load'', so_succeed = False, so_minutes = 5, so_email = True, so_kill = True\<rparr>]"

definition demo_sla_info :: sla_info where
  "demo_sla_info = \<lparr>si_error = None, si_slaEmails = Some [''a@b.c''], si_allJobNames = [''extract'', ''load''],
     si_settings = Some (map toWebObject demo_rules)\<rparr>"

definition empty_sla_view :: sla_view where
  "empty_sla_view = \<lparr>sv_scheduleId = ''7'', sv_indexToName = [], sv_nameToIndex = [], sv_indexToText = [], sv_rows = []\<rparr>"

theorem sla_roundtrip_witness:
  "map (\<lambda>r. parseSlaSetting (row_setting r)) (sv_rows (snd (fst (sla_info_answer ''etl'' demo_sla_info (blank_page, empty_sla_view)))))
   = map (\<lambda>s. Some (Some s)) (rev demo_rules)"
proof -
  have "\<forall>s \<in> set demo_rules. wf_option [''extract'', ''load''] s" by (simp add: demo_rules_def wf_option_def)
  then obtain p' v' where "sla_info_answer ''etl'' demo_sla_info (blank_page, empty_sla_view) = ((p', v'), [])"
    "map (\<lambda>r. parseSlaSetting (row_setting r)) (sv_rows v') = map (\<lambda>s. Some (Some s)) (rev demo_rules)"
    using sla_roundtrip[of demo_rules "[''extract'', ''load'']" empty_sla_view demo_sla_info "''etl''" blank_page]
    unfolding empty_sla_view_def demo_sla_info_def truthy_def sla_info.simps sla_view.simps by blast
  then show ?thesis by simp
qed

text \<open>
  C37. A rule on a job that the flow no longer has does not vanish and is not shown as missing: the field falls
  back to its first option, and "Set" turns it into a rule on the whole flow.
\<close>

theorem sla_unknown_job:
  assumes "so_job s = Some j" "j \<noteq> []" "j \<notin> set jobs" "so_email s \<or> so_kill s" "0 < so_minutes s" "so_minutes s < 2 ^ 31"
  shows "parseSlaSetting (row_setting (setting_row (name_tables flowName jobs v) (toWebObject s))) =
    Some (Some (s\<lparr>so_job := None\<rparr>))"
proof -
  let ?v = "name_tables flowName jobs v"
  have "setting_row ?v (toWebObject s) = setting_row ?v (toWebObject (s\<lparr>so_job := None\<rparr>))\<lparr>sr_id :=
      fill_selection (Some j) (id_options ?v)\<rparr>"
    using assms(1) by (simp add: setting_row_def toWebObject_def)
  moreover have "sel_value (fill_selection (Some j) (id_options ?v)) = []"
    using assms(2,3) by (auto simp: selected_value id_options_def name_tables_def dest: set_zip_rightD)
  moreover have "sel_value (sr_id (setting_row ?v (toWebObject (s\<lparr>so_job := None\<rparr>)))) = []"
    by (simp add: setting_row_def selected_value id_options_def name_tables_def toWebObject_def)
  ultimately have "row_setting (setting_row ?v (toWebObject s)) = row_setting (setting_row ?v (toWebObject (s\<lparr>so_job := None\<rparr>)))"
    by (simp add: row_setting_def)
  then show ?thesis using option_back[of jobs "s\<lparr>so_job := None\<rparr>"] assms by (simp add: wf_option_def)
qed

theorem sla_unknown_job_witness:
  "parseSlaSetting (row_setting (setting_row (name_tables ''etl'' [''extract''] empty_sla_view)
     (toWebObject \<lparr>so_job = Some ''load'', so_succeed = True, so_minutes = 30, so_email = False, so_kill = True\<rparr>))) =
   Some (Some \<lparr>so_job = None, so_succeed = True, so_minutes = 30, so_email = False, so_kill = True\<rparr>)"
  using sla_unknown_job[of "\<lparr>so_job = Some ''load'', so_succeed = True, so_minutes = 30, so_email = False, so_kill = True\<rparr>"
      "''load''" "[''extract'']" "''etl''" empty_sla_view] by simp

text \<open>On the page of the triggers the rules of a schedule are never shown.\<close>

lemma trig_rules_never_shown:
  "sv_rows (snd (fst (trig_sla_answer flowName d (p, v)))) = sv_rows v"
  by (simp add: trig_sla_answer_def Let_def name_tables_def split: option.split)

text \<open>A duration of less than a minute, or no duration in a row that does something, is refused by the server.\<close>

lemma sla_no_duration:
  "duration_text (createPeriodString 0) = ''NaN:NaN''" "parseDuration ''NaN:NaN'' = None" "parseDuration [] = None"
  by code_simp+

text \<open>Closing the dialog empties the table.\<close>

lemma sla_cancel_empties: "sv_rows (handleSlaCancel v) = []" "sv_rows (snd (trig_handleSlaCancel (p, v))) = []"
proof -
  have "(tl ^^ length xs) xs = []" for xs :: "'a list"
    by (induction xs) (simp_all add: funpow_Suc_right del: funpow.simps)
  then show "sv_rows (handleSlaCancel v) = []" "sv_rows (snd (trig_handleSlaCancel (p, v))) = []"
    by (simp_all add: handleSlaCancel_def trig_handleSlaCancel_def)
qed

end
