(* ===== verification/FlowStats.thy ===== *)
theory FlowStats
  imports Page JsSort
begin

text \<open>
  \<open>view/flow-stats.js\<close>: the statistics of an execution, gathered from the statistics of its jobs. A
  peak is the greatest value seen and the job it was seen in. The two requests are synchronous; their
  answers are arguments.
\<close>

record peak =
  pk_max :: jsnum
  pk_job :: "string option"

record sized_peak =
  sp_set :: bool
  sp_max :: jsnum
  sp_str :: "string option"
  sp_job :: "string option"

record stats =
  st_mapSlots :: peak
  st_reduceSlots :: peak
  st_totalMapSlots :: jsnum
  st_totalReduceSlots :: jsnum
  st_numJobs :: nat
  st_longestTaskTime :: jsnum
  st_jobMapMemoryMb :: peak
  st_jobReduceMemoryMb :: peak
  st_xmx :: sized_peak
  st_xms :: sized_peak
  st_fileBytesRead :: peak
  st_hdfsBytesRead :: peak
  st_fileBytesWritten :: peak
  st_hdfsBytesWritten :: peak
  st_cacheUsing :: bool
  st_distributedCache :: peak

record stats_data =
  sd_success :: bool
  sd_message :: "string option"
  sd_warnings :: "string list"
  sd_durations :: "(string \<times> int) list"
  sd_histogram :: bool
  sd_stats :: stats

text \<open>What the server says of a job; a missing property is None.\<close>

record job_state =
  js_totalMappers :: string
  js_totalReducers :: string
  js_counters :: "string jsobj jsobj option"

record job_stat =
  jb_state :: job_state
  jb_conf :: "string jsobj option"

record stat_job =
  sj_id :: string
  sj_startTime :: int
  sj_endTime :: int

text \<open>\<open>parseInt\<close> of a property that may be missing.\<close>

definition parse_prop :: "string jsobj \<Rightarrow> string \<Rightarrow> jsnum" where
  "parse_prop m k = (case obj_get m k of None \<Rightarrow> NaN | Some s \<Rightarrow> parseInt s)"

definition bump :: "string \<Rightarrow> jsnum \<Rightarrow> peak \<Rightarrow> peak" where
  "bump job v p = (if pk_max p \<le> v then \<lparr>pk_max = v, pk_job = Some job\<rparr> else p)"

definition updateStatsMapred :: "job_state \<Rightarrow> string \<Rightarrow> stats_data \<Rightarrow> stats_data" where
  "updateStatsMapred state job d =
     (let stats = sd_stats d; mappers = parseInt (js_totalMappers state); reducers = parseInt (js_totalReducers state)
      in d\<lparr>sd_stats := stats\<lparr>st_mapSlots := bump job mappers (st_mapSlots stats),
             st_reduceSlots := bump job reducers (st_reduceSlots stats),
             st_totalMapSlots := st_totalMapSlots stats + mappers,
             st_totalReduceSlots := st_totalReduceSlots stats + reducers\<rparr>\<rparr>)"

definition warn :: "string \<Rightarrow> stats_data \<Rightarrow> stats_data" where
  "warn w d = d\<lparr>sd_warnings := sd_warnings d @ [w]\<rparr>"

text \<open>One option of the virtual machine: \<open>-Xmx\<close> or \<open>-Xms\<close> and a size.\<close>

definition bump_size :: "string \<Rightarrow> string \<Rightarrow> sized_peak \<Rightarrow> sized_peak" where
  "bump_size job sz p =
     (let val = sizeStrToBytes sz
      in if sp_max p \<le> val then p\<lparr>sp_max := val, sp_str := Some sz, sp_job := Some job\<rparr> else p)"

definition java_opt :: "string \<Rightarrow> stats \<Rightarrow> string \<Rightarrow> stats" where
  "java_opt job stats str =
     (if indexOf str ''Xmx'' \<noteq> None \<and> length str \<le> 4 then stats
      else
        let sz = substring str 4 (length str);
            s1 = (if indexOf str ''Xmx'' \<noteq> None then stats\<lparr>st_xmx := bump_size job sz (st_xmx stats)\<rparr> else stats)
        in if indexOf str ''Xms'' \<noteq> None
           then (if length str \<le> 4 then s1
                 else s1\<lparr>st_xms := bump_size job sz ((st_xms s1)\<lparr>sp_set := True\<rparr>)\<rparr>)
           else s1)"

definition updateStatsConf :: "string jsobj option \<Rightarrow> string \<Rightarrow> stats_data \<Rightarrow> stats_data result" where
  "updateStatsConf conf job d =
     (case conf of
        None \<Rightarrow> Inr (warn (''No job conf available for job '' @ job) d)
      | Some c \<Rightarrow>
          let s = sd_stats d;
              s = s\<lparr>st_jobMapMemoryMb := bump job (parse_prop c ''mapred.job.map.memory.mb'') (st_jobMapMemoryMb s)\<rparr>;
              s = s\<lparr>st_jobReduceMemoryMb := bump job (parse_prop c ''mapred.job.reduce.memory.mb'') (st_jobReduceMemoryMb s)\<rparr>
          in (case obj_get c ''mapred.child.java.opts'' of
                None \<Rightarrow> Inl TypeError
              | Some opts \<Rightarrow>
                  let s = foldl (java_opt job) s (split_on (CHR '' '') opts);
                      s = (case (obj_get c ''mapred.cache.files'', obj_get c ''mapred.cache.files.filesizes'') of
                             (Some _, Some sizes) \<Rightarrow>
                               let total = foldl (\<lambda>n t. n + parseInt t) (Fin 0) (split_on (CHR '','') sizes)
                               in s\<lparr>st_cacheUsing := True, st_distributedCache := bump job total (st_distributedCache s)\<rparr>
                           | _ \<Rightarrow> s)
                  in Inr (d\<lparr>sd_stats := s\<rparr>)))"

definition updateStatsCounters :: "job_state \<Rightarrow> string \<Rightarrow> stats_data \<Rightarrow> stats_data" where
  "updateStatsCounters state job d =
     (case js_counters state of
        None \<Rightarrow> warn (''No job counters available for job '' @ job) d
      | Some cs \<Rightarrow>
          (case obj_get cs ''FileSystemCounters'' of
             None \<Rightarrow> warn (''No FileSystemCounters available for job '' @ job) d
           | Some fs \<Rightarrow>
               let s = sd_stats d in
               d\<lparr>sd_stats := s
                 \<lparr>st_fileBytesRead := bump job (parse_prop fs ''FILE_BYTES_READ'') (st_fileBytesRead s),
                  st_fileBytesWritten := bump job (parse_prop fs ''FILE_BYTES_WRITTEN'') (st_fileBytesWritten s),
                  st_hdfsBytesRead := bump job (parse_prop fs ''HDFS_BYTES_READ'') (st_hdfsBytesRead s),
                  st_hdfsBytesWritten := bump job (parse_prop fs ''HDFS_BYTES_WRITTEN'') (st_hdfsBytesWritten s)\<rparr>\<rparr>))"

definition updateStats :: "job_stat \<Rightarrow> string \<Rightarrow> stats_data \<Rightarrow> stats_data result" where
  "updateStats jobStats job d =
     and_then (updateStatsConf (jb_conf jobStats) job (updateStatsMapred (jb_state jobStats) job d)) (\<lambda>d.
       Inr (updateStatsCounters (jb_state jobStats) job d))"

definition finalizeStats :: "stats_data \<Rightarrow> stats_data" where
  "finalizeStats d = d\<lparr>sd_success := True\<rparr>"

subsection \<open>The execution\<close>

definition fetchJobs_request :: "env \<Rightarrow> string \<Rightarrow> effect" where
  "fetchJobs_request g execid = Get (contextURL g @ ''/executor'') [(''execid'', execid), (''ajax'', ''fetchexecflow'')]"

text \<open>The answer; without one the list stays empty.\<close>

definition fetchJobs :: "stat_job list option \<Rightarrow> stat_job list" where
  "fetchJobs reply =
     (case reply of None \<Rightarrow> [] | Some ns \<Rightarrow> js_sort (by_difference (\<lambda>j. Fin (of_int (sj_startTime j)))) ns)"

definition fetchJobStats_request :: "env \<Rightarrow> string \<Rightarrow> string \<Rightarrow> effect" where
  "fetchJobStats_request g job execid = Get (contextURL g @ ''/executor'')
     [(''execid'', execid), (''flowid'', flowId g), (''jobid'', job), (''ajax'', ''fetchExecJobStats'')]"

text \<open>
  The answers to the requests for the jobs: no answer at all (None), an answer without statistics
  (Some None), or the statistics of the job's attempts.
\<close>

type_synonym stat_reply = "job_stat list option option"

definition zero_peak :: peak where
  "zero_peak = \<lparr>pk_max = Fin 0, pk_job = None\<rparr>"

definition zero_size :: sized_peak where
  "zero_size = \<lparr>sp_set = False, sp_max = Fin 0, sp_str = None, sp_job = None\<rparr>"

definition fresh_stats :: "nat \<Rightarrow> stats" where
  "fresh_stats n = \<lparr>st_mapSlots = zero_peak, st_reduceSlots = zero_peak, st_totalMapSlots = Fin 0,
     st_totalReduceSlots = Fin 0, st_numJobs = n, st_longestTaskTime = Fin 0, st_jobMapMemoryMb = zero_peak,
     st_jobReduceMemoryMb = zero_peak, st_xmx = zero_size, st_xms = zero_size, st_fileBytesRead = zero_peak,
     st_hdfsBytesRead = zero_peak, st_fileBytesWritten = zero_peak, st_hdfsBytesWritten = zero_peak,
     st_cacheUsing = False, st_distributedCache = zero_peak\<rparr>"

definition fresh_data :: "bool \<Rightarrow> nat \<Rightarrow> stats_data" where
  "fresh_data hist n = \<lparr>sd_success = False, sd_message = None, sd_warnings = [], sd_durations = [],
     sd_histogram = hist, sd_stats = fresh_stats n\<rparr>"

fun fold_stats :: "string \<Rightarrow> job_stat list \<Rightarrow> stats_data \<Rightarrow> stats_data result" where
  "fold_stats job [] d = Inr d"
| "fold_stats job (s # ss) d = and_then (updateStats s job d) (fold_stats job ss)"

definition analyze_job ::
  "(string \<Rightarrow> stat_reply) \<Rightarrow> stats_data \<times> nat \<Rightarrow> stat_job \<Rightarrow> (stats_data \<times> nat) result" where
  "analyze_job reply dn job = (case dn of (d, n) \<Rightarrow>
     let d = d\<lparr>sd_durations := sd_durations d @ [(sj_id job, sj_endTime job - sj_startTime job)]\<rparr>
     in (case reply (sj_id job) of
           None \<Rightarrow> Inl TypeError
         | Some None \<Rightarrow> Inr (warn (''No job stats available for job '' @ sj_id job) d, n)
         | Some (Some ss) \<Rightarrow> and_then (fold_stats (sj_id job) ss d) (\<lambda>d. Inr (d, Suc n))))"

fun analyze_jobs ::
  "(string \<Rightarrow> stat_reply) \<Rightarrow> stat_job list \<Rightarrow> stats_data \<times> nat \<Rightarrow> (stats_data \<times> nat) result" where
  "analyze_jobs reply [] dn = Inr dn"
| "analyze_jobs reply (j # js) dn = and_then (analyze_job reply dn j) (analyze_jobs reply js)"

definition analyzeExecution ::
  "bool \<Rightarrow> stat_job list option \<Rightarrow> (string \<Rightarrow> stat_reply) \<Rightarrow> stats_data result" where
  "analyzeExecution hist nodes reply =
     (let jobs = fetchJobs nodes in
      and_then (analyze_jobs reply jobs (fresh_data hist (length jobs), 0)) (\<lambda>(d, jobsAnalyzed).
        Inr (if jobsAnalyzed = 0
             then d\<lparr>sd_success := False, sd_message := Some ''There were no job stats provided by any job.''\<rparr>
             else finalizeStats d)))"

text \<open>Which template the page is filled with, and whether the histogram is drawn.\<close>

definition flowstats_render :: "bool \<Rightarrow> stats_data option \<Rightarrow> string \<times> bool" where
  "flowstats_render hist data =
     (case data of
        None \<Rightarrow> (''flowstats-no-data'', False)
      | Some d \<Rightarrow> if \<not> sd_success d then (''flowstats-no-data'', False) else (''flowstats'', hist))"

subsection \<open>When the analysis throws\<close>

definition has_opts :: "job_stat \<Rightarrow> bool" where
  "has_opts s \<longleftrightarrow> (case jb_conf s of None \<Rightarrow> True | Some c \<Rightarrow> obj_get c ''mapred.child.java.opts'' \<noteq> None)"

lemma updateStats_ok: "(\<exists>d'. updateStats s job d = Inr d') \<longleftrightarrow> has_opts s"
  by (auto simp: updateStats_def updateStatsConf_def has_opts_def and_then_Inr_iff Let_def split: option.splits)

lemma fold_stats_ok: "(\<exists>d'. fold_stats job ss d = Inr d') \<longleftrightarrow> list_all has_opts ss"
proof (induction ss arbitrary: d)
  case (Cons s ss)
  have "(\<exists>d'. fold_stats job (s # ss) d = Inr d') \<longleftrightarrow> (\<exists>d1. updateStats s job d = Inr d1 \<and> (\<exists>d'. fold_stats job ss d1 = Inr d'))"
    by (auto simp: and_then_Inr_iff)
  then show ?case unfolding Cons.IH using updateStats_ok[of s job d] by auto
qed simp

definition answered :: "(string \<Rightarrow> stat_reply) \<Rightarrow> stat_job \<Rightarrow> bool" where
  "answered reply job \<longleftrightarrow> (case reply (sj_id job) of None \<Rightarrow> False | Some None \<Rightarrow> True | Some (Some ss) \<Rightarrow> list_all has_opts ss)"

lemma analyze_job_ok: "(\<exists>r. analyze_job reply dn job = Inr r) \<longleftrightarrow> answered reply job"
proof (cases "reply (sj_id job)")
  case (Some r)
  then show ?thesis
    using fold_stats_ok[of "sj_id job"]
    by (cases dn; cases r) (auto simp: analyze_job_def answered_def Let_def and_then_Inr_iff)
qed (cases dn; simp add: analyze_job_def answered_def)

lemma analyze_jobs_ok: "(\<exists>r. analyze_jobs reply js dn = Inr r) \<longleftrightarrow> list_all (answered reply) js"
proof (induction js arbitrary: dn)
  case (Cons j js)
  have "(\<exists>r. analyze_jobs reply (j # js) dn = Inr r) \<longleftrightarrow> (\<exists>d1. analyze_job reply dn j = Inr d1 \<and> (\<exists>r. analyze_jobs reply js d1 = Inr r))"
    by (auto simp: and_then_Inr_iff)
  then show ?case unfolding Cons.IH using analyze_job_ok[of reply dn j] by auto
qed simp


subsection \<open>Peaks\<close>

text \<open>
  What a peak must be: no value seen is greater, and it is the value of a job, or none has been seen. Values
  that are no number or negative do not count.
\<close>

definition is_peak :: "peak \<Rightarrow> (string \<times> jsnum) list \<Rightarrow> bool" where
  "is_peak p vs \<longleftrightarrow> (\<forall>(j, v) \<in> set vs. Fin 0 \<le> v \<longrightarrow> v \<le> pk_max p) \<and>
     (case pk_job p of
        None \<Rightarrow> pk_max p = Fin 0 \<and> (\<forall>(j, v) \<in> set vs. \<not> Fin 0 \<le> v)
      | Some j \<Rightarrow> (j, pk_max p) \<in> set vs)"

lemma js_le_trans: "x \<le> y \<Longrightarrow> y \<le> z \<Longrightarrow> x \<le> (z :: jsnum)"
  by (cases x; cases y; cases z) (auto simp: js_num)

lemma js_le_total: "\<not> x \<le> y \<Longrightarrow> x \<noteq> NaN \<Longrightarrow> y \<noteq> NaN \<Longrightarrow> y \<le> (x :: jsnum)"
  by (cases x; cases y) (auto simp: js_num)

lemma is_peak_bump:
  assumes "is_peak p vs" "Fin 0 \<le> pk_max p"
  shows "is_peak (bump j v p) (vs @ [(j, v)]) \<and> Fin 0 \<le> pk_max (bump j v p)"
proof (cases "pk_max p \<le> v")
  case True
  have "Fin 0 \<le> v" by (rule js_le_trans[OF assms(2) True])
  moreover have "v \<le> v" using True by (cases v; cases "pk_max p") (auto simp: js_num)
  moreover have "Fin 0 \<le> w \<Longrightarrow> (k, w) \<in> set vs \<Longrightarrow> w \<le> v" for k w
    using assms(1) True js_le_trans by (fastforce simp: is_peak_def)
  ultimately show ?thesis using True by (auto simp: bump_def is_peak_def)
next
  case False
  then have "Fin 0 \<le> v \<Longrightarrow> v \<le> pk_max p"
    using assms(2) by (intro js_le_total) (auto simp: js_num)
  moreover have "pk_job p = None \<Longrightarrow> \<not> Fin 0 \<le> v" using assms(1) False by (simp add: is_peak_def)
  ultimately show ?thesis using False assms by (auto simp: bump_def is_peak_def split: option.splits)
qed

lemma is_peak_bumps: "is_peak (foldl (\<lambda>p (j, v). bump j v p) zero_peak vs) vs \<and>
    Fin 0 \<le> pk_max (foldl (\<lambda>p (j, v). bump j v p) zero_peak vs)"
proof (induction vs rule: rev_induct)
  case Nil
  show ?case by (simp add: is_peak_def zero_peak_def)
next
  case (snoc jv vs)
  obtain j v where jv: "jv = (j, v)" by (cases jv)
  show ?case using is_peak_bump[OF conjunct1[OF snoc.IH] conjunct2[OF snoc.IH], of j v] by (simp add: jv)
qed

text \<open>All values of a kind, in the order in which they are seen.\<close>

definition seen :: "(job_stat \<Rightarrow> jsnum list) \<Rightarrow> (string \<Rightarrow> stat_reply) \<Rightarrow> stat_job list \<Rightarrow> (string \<times> jsnum) list" where
  "seen h reply jobs = concat (map (\<lambda>j. case reply (sj_id j) of
       Some (Some ss) \<Rightarrow> map (Pair (sj_id j)) (concat (map h ss)) | _ \<Rightarrow> []) jobs)"

text \<open>A statistic: where it is kept, and which values of an attempt go into it.\<close>

locale statistic =
  fixes g :: "stats \<Rightarrow> peak" and h :: "job_stat \<Rightarrow> jsnum list"
  assumes fresh_zero: "g (fresh_stats n) = zero_peak"
    and update: "updateStats s job d = Inr d' \<Longrightarrow> g (sd_stats d') = foldl (\<lambda>p v. bump job v p) (g (sd_stats d)) (h s)"
begin

lemma fold_update:
  "fold_stats job ss d = Inr d' \<Longrightarrow> g (sd_stats d') = foldl (\<lambda>p v. bump job v p) (g (sd_stats d)) (concat (map h ss))"
  by (induction ss arbitrary: d) (auto simp: and_then_Inr_iff dest: update)

lemma job_update:
  assumes "analyze_job reply (d, n) job = Inr (d', n')"
  shows "g (sd_stats d') = foldl (\<lambda>p (j, v). bump j v p) (g (sd_stats d)) (seen h reply [job])"
proof -
  have m: "foldl (\<lambda>p (j, v). bump j v p) p (map (Pair k) vs) = foldl (\<lambda>p v. bump k v p) p vs" for p k vs
    by (induction vs arbitrary: p) auto
  show ?thesis
    using assms fold_update[of "sj_id job"]
    by (auto simp: analyze_job_def Let_def warn_def seen_def m and_then_Inr_iff split: option.splits)
qed

lemma jobs_update:
  "analyze_jobs reply js (d, n) = Inr (d', n') \<Longrightarrow>
   g (sd_stats d') = foldl (\<lambda>p (j, v). bump j v p) (g (sd_stats d)) (seen h reply js)"
proof (induction js arbitrary: d n)
  case Nil
  then show ?case by (simp add: seen_def)
next
  case (Cons j js)
  then obtain d1 n1 where "analyze_job reply (d, n) j = Inr (d1, n1)" "analyze_jobs reply js (d1, n1) = Inr (d', n')"
    by (auto simp: and_then_Inr_iff)
  with job_update[of reply d n j] Cons.IH show ?case by (simp add: seen_def)
qed

lemma found:
  assumes "analyzeExecution hist nodes reply = Inr d"
  shows "is_peak (g (sd_stats d)) (seen h reply (fetchJobs nodes))"
proof -
  obtain d1 n1 where a: "analyze_jobs reply (fetchJobs nodes) (fresh_data hist (length (fetchJobs nodes)), 0) = Inr (d1, n1)"
    and d: "sd_stats d = sd_stats d1"
    using assms by (auto simp: analyzeExecution_def Let_def and_then_Inr_iff finalizeStats_def split: if_splits)
  have "g (sd_stats d) = foldl (\<lambda>p (j, v). bump j v p) zero_peak (seen h reply (fetchJobs nodes))"
    using jobs_update[OF a] by (simp add: d fresh_data_def fresh_zero)
  then show ?thesis using is_peak_bumps by simp
qed

end

text \<open>The values of an attempt that go into the statistics.\<close>

definition conf_values :: "string \<Rightarrow> job_stat \<Rightarrow> jsnum list" where
  "conf_values k s = (case jb_conf s of None \<Rightarrow> [] | Some c \<Rightarrow> [parse_prop c k])"

definition counter_values :: "string \<Rightarrow> job_stat \<Rightarrow> jsnum list" where
  "counter_values k s =
     (case js_counters (jb_state s) of None \<Rightarrow> []
      | Some cs \<Rightarrow> (case obj_get cs ''FileSystemCounters'' of None \<Rightarrow> [] | Some fs \<Rightarrow> [parse_prop fs k]))"

lemma java_opts_frame:
  assumes "\<And>s x. g (s\<lparr>st_xmx := x\<rparr>) = g s" "\<And>s x. g (s\<lparr>st_xms := x\<rparr>) = g s"
  shows "g (foldl (java_opt job) s opts) = g s"
  using assms by (induction opts arbitrary: s) (auto simp: java_opt_def Let_def)

lemmas update_defs = updateStats_def updateStatsMapred_def updateStatsConf_def updateStatsCounters_def warn_def
  and_then_Inr_iff Let_def

interpretation map_slots: statistic st_mapSlots "\<lambda>s. [parseInt (js_totalMappers (jb_state s))]"
  by unfold_locales (auto simp: fresh_stats_def update_defs java_opts_frame[where g = st_mapSlots] split: option.splits)

interpretation reduce_slots: statistic st_reduceSlots "\<lambda>s. [parseInt (js_totalReducers (jb_state s))]"
  by unfold_locales (auto simp: fresh_stats_def update_defs java_opts_frame[where g = st_reduceSlots] split: option.splits)

interpretation map_memory: statistic st_jobMapMemoryMb "conf_values ''mapred.job.map.memory.mb''"
  by unfold_locales (auto simp: fresh_stats_def update_defs conf_values_def java_opts_frame[where g = st_jobMapMemoryMb] split: option.splits)

interpretation reduce_memory: statistic st_jobReduceMemoryMb "conf_values ''mapred.job.reduce.memory.mb''"
  by unfold_locales (auto simp: fresh_stats_def update_defs conf_values_def java_opts_frame[where g = st_jobReduceMemoryMb] split: option.splits)

interpretation bytes_read: statistic st_fileBytesRead "counter_values ''FILE_BYTES_READ''"
  by unfold_locales (auto simp: fresh_stats_def update_defs counter_values_def java_opts_frame[where g = st_fileBytesRead] split: option.splits)

interpretation bytes_written: statistic st_fileBytesWritten "counter_values ''FILE_BYTES_WRITTEN''"
  by unfold_locales (auto simp: fresh_stats_def update_defs counter_values_def java_opts_frame[where g = st_fileBytesWritten] split: option.splits)

interpretation hdfs_read: statistic st_hdfsBytesRead "counter_values ''HDFS_BYTES_READ''"
  by unfold_locales (auto simp: fresh_stats_def update_defs counter_values_def java_opts_frame[where g = st_hdfsBytesRead] split: option.splits)

interpretation hdfs_written: statistic st_hdfsBytesWritten "counter_values ''HDFS_BYTES_WRITTEN''"
  by unfold_locales (auto simp: fresh_stats_def update_defs counter_values_def java_opts_frame[where g = st_hdfsBytesWritten] split: option.splits)


definition demo_attempt :: "string \<Rightarrow> job_stat" where
  "demo_attempt mappers = \<lparr>jb_state = \<lparr>js_totalMappers = mappers, js_totalReducers = ''1'', js_counters = None\<rparr>,
     jb_conf = Some [(''mapred.child.java.opts'', ''-Xmx512m -Xms1g'')]\<rparr>"

definition demo_stat_reply :: "string \<Rightarrow> stat_reply" where
  "demo_stat_reply j = (if j = ''load'' then Some (Some [demo_attempt ''4'', demo_attempt ''x'', demo_attempt ''9'']) else Some None)"

definition demo_stat_jobs :: "stat_job list" where
  "demo_stat_jobs = [\<lparr>sj_id = ''load'', sj_startTime = 20, sj_endTime = 50\<rparr>, \<lparr>sj_id = ''extract'', sj_startTime = 10, sj_endTime = 20\<rparr>]"


text \<open>The totals, other than the peaks, are no number as soon as one attempt reports none.\<close>

lemma total_no_number:
  "parseInt (js_totalMappers state) = NaN \<Longrightarrow> st_totalMapSlots (sd_stats (updateStatsMapred state job d)) = NaN"
  by (simp add: updateStatsMapred_def Let_def)

end
