(* ===== verification/Permissions.thy ===== *)
theory Permissions
  imports Page
begin

text \<open>
  \<open>view/project-permissions.js\<close>: the table of the users of a project, and the dialogs that add and remove
  proxy users and change permissions; and what the server makes of a change
  (\<open>ProjectManagerServlet.ajaxChangePermissions\<close>, \<open>ajaxAddPermission\<close>).
\<close>

subsection \<open>Proxy users\<close>

definition permissions_url :: "env \<Rightarrow> string" where
  "permissions_url g = contextURL g @ ''/manager?project='' @ projectName g @ ''&permissions''"

text \<open>The answer to a change: the error is shown in the dialog, or the page is loaded again.\<close>

definition show_error_or_reload :: "env \<Rightarrow> string \<Rightarrow> string option \<Rightarrow> page \<Rightarrow> page \<times> effect list" where
  "show_error_or_reload g el err p =
     (if truthy err then (seq [set_text el (text_of err), show_el el] p, [])
      else (p, [Redirect (permissions_url g)]))"

definition removeProxy_display :: "string \<Rightarrow> page \<Rightarrow> page \<times> effect list" where
  "removeProxy_display proxyName p =
     (set_text ''#remove-proxy-msg'' (''Removing proxy user '' @ [CHR 0x27] @ proxyName @ [CHR 0x27]) p,
      [Modal ''#remove-proxy''])"

definition handleRemoveProxy :: "env \<Rightarrow> string \<Rightarrow> effect list" where
  "handleRemoveProxy g proxyName = [Get (contextURL g @ ''/manager'')
     [(''project'', projectName g), (''name'', proxyName), (''ajax'', ''removeProxyUser'')]]"

definition removeProxy_answer :: "env \<Rightarrow> string option \<Rightarrow> page \<Rightarrow> page \<times> effect list" where
  "removeProxy_answer g = show_error_or_reload g ''#remove-proxy-error-msg''"

definition addProxy_display :: "effect list" where
  "addProxy_display = [Modal ''#add-proxy'']"

definition handleAddProxy :: "env \<Rightarrow> page \<Rightarrow> effect list" where
  "handleAddProxy g p = [Get (contextURL g @ ''/manager'')
     [(''project'', projectName g), (''name'', trim (pg_val p ''#proxy-user-box'')), (''ajax'', ''addProxyUser'')]]"

definition addProxy_answer :: "env \<Rightarrow> string option \<Rightarrow> page \<Rightarrow> page \<times> effect list" where
  "addProxy_answer g = show_error_or_reload g ''#add-proxy-error-msg''"

subsection \<open>The dialog of the permissions\<close>

record permission =
  pm_admin :: bool
  pm_read :: bool
  pm_write :: bool
  pm_execute :: bool
  pm_schedule :: bool

record perm_view =
  pv_userid :: string
  pv_permission :: permission
  pv_newPerm :: bool
  pv_group :: bool

definition perm_boxes :: "string list" where
  "perm_boxes = [''#read-change'', ''#write-change'', ''#execute-change'', ''#schedule-change'']"

definition check_attr :: "string \<Rightarrow> bool \<Rightarrow> page \<Rightarrow> page" where
  "check_attr el b = set_attr el ''checked'' (if b then Some ''checked'' else None)"

text \<open>
  \<open>changeCheckbox\<close>. The last branch sets a property of the jQuery object, not of the button, so only the
  class is changed there.
\<close>

definition changeCheckbox :: "perm_view \<Rightarrow> page \<Rightarrow> page" where
  "changeCheckbox v p =
     (let perm = pv_permission v;
          p = (if pm_admin perm
               then seq ([check_attr ''#admin-change'' True] @
                 concat (map (\<lambda>b. [check_attr b True, set_attr b ''disabled'' (Some ''disabled'')]) perm_boxes)) p
               else seq [check_attr ''#admin-change'' False,
                 check_attr ''#read-change'' (pm_read perm), set_attr ''#read-change'' ''disabled'' None,
                 check_attr ''#write-change'' (pm_write perm), set_attr ''#write-change'' ''disabled'' None,
                 check_attr ''#execute-change'' (pm_execute perm), set_attr ''#execute-change'' ''disabled'' None,
                 check_attr ''#schedule-change'' (pm_schedule perm), set_attr ''#schedule-change'' ''disabled'' None] p);
          p = seq [jq_removeClass ''#change-btn'' ''btn-disabled'', set_attr ''#change-btn'' ''disabled'' None] p
      in if pm_admin perm \<or> pm_read perm \<or> pm_write perm \<or> pm_execute perm \<or> pm_schedule perm
         then set_text ''#change-btn'' ''Commit'' p
         else if pv_newPerm v then jq_addClass ''#change-btn'' ''btn-disabled'' p
         else set_text ''#change-btn'' ''Remove'' p)"

definition box_of :: "string \<Rightarrow> string \<Rightarrow> string" where
  "box_of userid what = ''#'' @ userid @ ''-'' @ what @ ''-checkbox''"

definition perm_display :: "string \<Rightarrow> bool \<Rightarrow> bool \<Rightarrow> bool \<Rightarrow> page \<Rightarrow> (perm_view \<times> page) \<times> effect list" where
  "perm_display userid newPerm grp proxy p =
     (let uid = (if grp \<or> proxy then substring userid 6 (length userid) else userid);
          p = set_val ''#user-box'' uid p;
          p = (if newPerm
               then seq [set_text ''#change-title'' (if grp then ''Add New Group Permissions''
                   else if proxy then ''Add New Proxy User Permissions'' else ''Add New User Permissions''),
                   set_attr ''#user-box'' ''disabled'' None] p
               else seq [set_text ''#change-title'' (if grp then ''Change Group Permissions'' else ''Change User Permissions''),
                   set_attr ''#user-box'' ''disabled'' (Some ''disabled'')] p);
          perm = (if newPerm
                  then \<lparr>pm_admin = False, pm_read = True, pm_write = False, pm_execute = False, pm_schedule = False\<rparr>
                  else \<lparr>pm_admin = is_checked (box_of userid ''admin'') p, pm_read = is_checked (box_of userid ''read'') p,
                        pm_write = is_checked (box_of userid ''write'') p, pm_execute = is_checked (box_of userid ''execute'') p,
                        pm_schedule = is_checked (box_of userid ''schedule'') p\<rparr>);
          v = \<lparr>pv_userid = uid, pv_permission = perm, pv_newPerm = newPerm, pv_group = grp\<rparr>
      in ((v, changeCheckbox v p), [Modal ''#change-permission'']))"

text \<open>
  A click on a box: the browser has changed the box, which is named by its permission, before the handler
  runs. Only boxes that are enabled can be clicked.
\<close>

datatype perm_name = Admin | Read | Write | Execute | Schedule

fun box_name :: "perm_name \<Rightarrow> string" where
  "box_name Admin = ''#admin-change''"
| "box_name Read = ''#read-change''"
| "box_name Write = ''#write-change''"
| "box_name Execute = ''#execute-change''"
| "box_name Schedule = ''#schedule-change''"

fun set_perm :: "perm_name \<Rightarrow> bool \<Rightarrow> permission \<Rightarrow> permission" where
  "set_perm Admin b m = m\<lparr>pm_admin := b\<rparr>"
| "set_perm Read b m = m\<lparr>pm_read := b\<rparr>"
| "set_perm Write b m = m\<lparr>pm_write := b\<rparr>"
| "set_perm Execute b m = m\<lparr>pm_execute := b\<rparr>"
| "set_perm Schedule b m = m\<lparr>pm_schedule := b\<rparr>"

definition handleCheckboxClick :: "perm_name \<Rightarrow> perm_view \<times> page \<Rightarrow> perm_view \<times> page" where
  "handleCheckboxClick n vp = (case vp of (v, p) \<Rightarrow>
     let v = v\<lparr>pv_permission := set_perm n (is_checked (box_name n) p) (pv_permission v)\<rparr>
     in (v, changeCheckbox v p))"

definition user_clicks :: "perm_name \<Rightarrow> perm_view \<times> page \<Rightarrow> perm_view \<times> page" where
  "user_clicks n vp = (case vp of (v, p) \<Rightarrow>
     if pg_attr p (box_name n) ''disabled'' \<noteq> None then (v, p)
     else handleCheckboxClick n (v, check_attr (box_name n) (\<not> is_checked (box_name n) p) p))"

definition js_flag :: "bool \<Rightarrow> string" where
  "js_flag b = (if b then ''true'' else ''false'')"

text \<open>What is sent is \<open>this.permission\<close>; the object read from the boxes is not used.\<close>

definition sent_permissions :: "permission \<Rightarrow> (string \<times> string) list" where
  "sent_permissions m = [(''permissions[admin]'', js_flag (pm_admin m)), (''permissions[read]'', js_flag (pm_read m)),
     (''permissions[write]'', js_flag (pm_write m)), (''permissions[execute]'', js_flag (pm_execute m)),
     (''permissions[schedule]'', js_flag (pm_schedule m))]"

definition handleChangePermissions :: "env \<Rightarrow> perm_view \<times> page \<Rightarrow> effect list" where
  "handleChangePermissions g vp = (case vp of (v, p) \<Rightarrow>
     [Get (contextURL g @ ''/manager'')
       ([(''project'', projectName g), (''name'', trim (pg_val p ''#user-box'')),
         (''ajax'', if pv_newPerm v then ''addPermission'' else ''changePermission'')] @
        sent_permissions (pv_permission v) @ [(''group'', js_flag (pv_group v))])])"

definition changePermission_answer :: "env \<Rightarrow> string option \<Rightarrow> page \<Rightarrow> page \<times> effect list" where
  "changePermission_answer g = show_error_or_reload g ''#change-permission-error-msg''"

text \<open>The buttons of the page.\<close>

definition handleChangePermission :: "string \<Rightarrow> bool \<Rightarrow> bool \<Rightarrow> page \<Rightarrow> (perm_view \<times> page) \<times> effect list" where
  "handleChangePermission buttonId grp proxy p = perm_display buttonId False grp proxy p"

definition addUser_click :: "page \<Rightarrow> (perm_view \<times> page) \<times> effect list" where
  "addUser_click p = perm_display [] True False False p"

definition addGroup_click :: "page \<Rightarrow> (perm_view \<times> page) \<times> effect list" where
  "addGroup_click p = perm_display [] True True False p"

subsection \<open>The server\<close>

datatype server_change = Grant "perm_name set" | RemoveUser

definition parse_flag :: "(string \<times> string) list \<Rightarrow> string \<Rightarrow> bool" where
  "parse_flag req k = (map_of req k = Some ''true'')"

definition read_flags :: "(string \<times> string) list \<Rightarrow> perm_name set" where
  "read_flags req =
     (if parse_flag req ''permissions[admin]'' then {Admin}
      else (if parse_flag req ''permissions[read]'' then {Read} else {}) \<union>
        (if parse_flag req ''permissions[write]'' then {Write} else {}) \<union>
        (if parse_flag req ''permissions[execute]'' then {Execute} else {}) \<union>
        (if parse_flag req ''permissions[schedule]'' then {Schedule} else {}))"

definition ajaxAddPermission :: "(string \<times> string) list \<Rightarrow> server_change" where
  "ajaxAddPermission req = Grant (read_flags req)"

definition ajaxChangePermissions :: "(string \<times> string) list \<Rightarrow> server_change" where
  "ajaxChangePermissions req =
     (let admin = parse_flag req ''permissions[admin]''; rd = parse_flag req ''permissions[read]'';
          wr = parse_flag req ''permissions[write]''; ex = parse_flag req ''permissions[execute]'';
          sc = parse_flag req ''permissions[schedule]''
      in if admin \<or> rd \<or> wr \<or> ex \<or> sc then Grant (read_flags req) else RemoveUser)"

definition ajax_permission :: "(string \<times> string) list \<Rightarrow> server_change" where
  "ajax_permission req =
     (if map_of req ''ajax'' = Some ''addPermission'' then ajaxAddPermission req else ajaxChangePermissions req)"

text \<open>Permission to administer includes all others.\<close>

definition may :: "perm_name set \<Rightarrow> perm_name \<Rightarrow> bool" where
  "may ps n \<longleftrightarrow> Admin \<in> ps \<or> n \<in> ps"

subsection \<open>What is shown is what is granted\<close>

fun get_perm :: "perm_name \<Rightarrow> permission \<Rightarrow> bool" where
  "get_perm Admin m = pm_admin m"
| "get_perm Read m = pm_read m"
| "get_perm Write m = pm_write m"
| "get_perm Execute m = pm_execute m"
| "get_perm Schedule m = pm_schedule m"

text \<open>Any dialog, after any number of clicks.\<close>

inductive perm_reach :: "perm_view \<times> page \<Rightarrow> bool" where
  opened: "perm_display userid newPerm grp proxy p = (vp, es) \<Longrightarrow> perm_reach vp"
| clicked: "perm_reach vp \<Longrightarrow> perm_reach (user_clicks n vp)"

inductive_cases perm_reachE: "perm_reach vp"

definition boxes_shown :: "perm_view \<times> page \<Rightarrow> bool" where
  "boxes_shown vp \<longleftrightarrow> (\<forall>n. is_checked (box_name n) (snd vp) \<longleftrightarrow> get_perm Admin (pv_permission (fst vp)) \<or> get_perm n (pv_permission (fst vp))) \<and>
     (pg_text (snd vp) ''#change-btn'' = ''Remove'' \<or> pv_newPerm (fst vp) \<or> (\<exists>n. get_perm n (pv_permission (fst vp)))) \<and>
     ((\<exists>n. get_perm n (pv_permission (fst vp))) \<longrightarrow> pg_text (snd vp) ''#change-btn'' = ''Commit'')"

lemma some_perm: "(\<exists>n. get_perm n m) \<longleftrightarrow> pm_admin m \<or> pm_read m \<or> pm_write m \<or> pm_execute m \<or> pm_schedule m"
  by (metis get_perm.simps perm_name.exhaust)

lemma checked_page [simp]:
  "is_checked e (set_text a s p) = is_checked e p" "is_checked e (jq_addClass a c p) = is_checked e p"
  "is_checked e (jq_removeClass a c p) = is_checked e p"
  "is_checked e (check_attr a b p) = (if e = a then b else is_checked e p)"
  "is_checked e (set_attr a ''disabled'' w p) = is_checked e p"
  by (auto simp: is_checked_def check_attr_def set_attr_def)

lemma text_page [simp]: "pg_text (check_attr a b p) = pg_text p"
  by (simp add: check_attr_def)

lemma changeCheckbox_shows: "boxes_shown (v, changeCheckbox v p)"
proof -
  have "is_checked (box_name n) (changeCheckbox v p) \<longleftrightarrow> get_perm Admin (pv_permission v) \<or> get_perm n (pv_permission v)" for n
    by (cases n) (simp_all add: changeCheckbox_def Let_def perm_boxes_def)
  then show ?thesis
    by (simp add: boxes_shown_def some_perm changeCheckbox_def Let_def)
qed

lemma reach_shows: "perm_reach vp \<Longrightarrow> boxes_shown vp"
proof (induction rule: perm_reach.induct)
  case (opened userid newPerm grp proxy p vp es)
  then show ?case using changeCheckbox_shows by (auto simp: perm_display_def Let_def)
next
  case (clicked vp n)
  obtain v p where vp: "vp = (v, p)" by (cases vp)
  show ?case using clicked.IH changeCheckbox_shows by (simp add: vp user_clicks_def handleCheckboxClick_def Let_def)
qed

lemma server_reads:
  assumes "\<forall>k \<in> fst ` set pre. k \<notin> fst ` set (sent_permissions m)"
  shows "read_flags (pre @ sent_permissions m @ suf) = (if pm_admin m then {Admin} else {n. get_perm n m})"
    "ajaxChangePermissions (pre @ sent_permissions m @ suf) =
      (if \<exists>n. get_perm n m then Grant (if pm_admin m then {Admin} else {n. get_perm n m}) else RemoveUser)"
proof -
  have f: "parse_flag (pre @ sent_permissions m @ suf) k = (map_of (sent_permissions m) k = Some ''true'')"
    if "k \<in> fst ` set (sent_permissions m)" for k
  proof -
    have "map_of pre k = None" using assms that by (force simp: map_of_eq_None_iff)
    moreover have "map_of (sent_permissions m) k \<noteq> None" using that by (simp add: map_of_eq_None_iff)
    ultimately show ?thesis by (auto simp: parse_flag_def map_add_def split: option.splits)
  qed
  have "{n. get_perm n m} = (if pm_admin m then {Admin} else {}) \<union> (if pm_read m then {Read} else {}) \<union>
      (if pm_write m then {Write} else {}) \<union> (if pm_execute m then {Execute} else {}) \<union> (if pm_schedule m then {Schedule} else {})"
    by (auto elim!: get_perm.elims)
  then have sets: "(if pm_read m then {Read} else {}) \<union> (if pm_write m then {Write} else {}) \<union>
      (if pm_execute m then {Execute} else {}) \<union> (if pm_schedule m then {Schedule} else {}) = {n. get_perm n m}" if "\<not> pm_admin m"
    using that by simp
  have flags: "parse_flag (pre @ sent_permissions m @ suf) ''permissions[admin]'' = pm_admin m"
    "parse_flag (pre @ sent_permissions m @ suf) ''permissions[read]'' = pm_read m"
    "parse_flag (pre @ sent_permissions m @ suf) ''permissions[write]'' = pm_write m"
    "parse_flag (pre @ sent_permissions m @ suf) ''permissions[execute]'' = pm_execute m"
    "parse_flag (pre @ sent_permissions m @ suf) ''permissions[schedule]'' = pm_schedule m"
    by (subst f; simp add: sent_permissions_def js_flag_def)+
  show r: "read_flags (pre @ sent_permissions m @ suf) = (if pm_admin m then {Admin} else {n. get_perm n m})"
    unfolding read_flags_def flags by (cases "pm_admin m") (simp, simp only: if_False, rule sets)
  show "ajaxChangePermissions (pre @ sent_permissions m @ suf) =
      (if \<exists>n. get_perm n m then Grant (if pm_admin m then {Admin} else {n. get_perm n m}) else RemoveUser)"
    unfolding ajaxChangePermissions_def Let_def r unfolding flags some_perm by (rule refl)
qed


definition perm_env :: env where
  "perm_env = \<lparr>contextURL = [], projectName = ''dw'', projectId = ''3'', flowId = [], execId = [], jobId = []\<rparr>"


text \<open>
  The button is never locked: for a new user without permissions only its class changes, and its text is
  the one that the dialog had before.
\<close>

lemma change_button_enabled: "pg_attr (changeCheckbox v p) ''#change-btn'' ''disabled'' = None"
proof -
  have "pg_attr (set_text a t q) = pg_attr q" "pg_attr (jq_addClass a t q) = pg_attr q" for a t q by simp_all
  then show ?thesis
    unfolding changeCheckbox_def Let_def by (simp add: set_attr_def)
qed

end
