(* ===== verification/JobEdit.thy ===== *)
theory JobEdit
  imports EditTable
begin

text \<open>
  \<open>view/job-edit.js\<close>: the dialog that overrides the parameters of a job. Its table is edited in place, one
  cell at a time. The rows kept here are those above the button "Add Row"; a row that has been deleted while
  one of its cells was being edited leaves that cell outside the table.
\<close>

datatype target = Cell nat bool | Detached

record job_edit =
  je_project :: string
  je_flow :: string
  je_job :: string
  je_override :: "string jsobj"
  je_general :: "string jsobj"
  je_rows :: "edit_row list"
  je_target :: "target option"

definition je_url :: "env \<Rightarrow> string" where
  "je_url g = contextURL g @ ''manager''"

definition je_initialize :: job_edit where
  "je_initialize = \<lparr>je_project = [], je_flow = [], je_job = [], je_override = [], je_general = [], je_rows = [], je_target = None\<rparr>"

definition je_handleCancel :: "page \<times> job_edit \<Rightarrow> page \<times> job_edit" where
  "je_handleCancel ps = (case ps of (p, s) \<Rightarrow>
     (hide_el ''#job-edit-pane'' p, s\<lparr>je_rows := (tl ^^ length (je_rows s)) (je_rows s)\<rparr>))"

definition je_show :: "env \<Rightarrow> string \<Rightarrow> string \<Rightarrow> string \<Rightarrow> job_edit \<Rightarrow> job_edit \<times> effect list" where
  "je_show g project flow job s =
     (s\<lparr>je_project := project, je_flow := flow, je_job := job\<rparr>,
      [Modal ''#job-edit-pane'', Get (je_url g)
        [(''project'', project), (''ajax'', ''fetchJobInfo''), (''flowName'', flow), (''jobName'', job)]])"

record job_info =
  ji_error :: "string option"
  ji_jobName :: string
  ji_jobType :: string
  ji_general :: "string jsobj"
  ji_override :: "string jsobj"

definition je_handleAddRow :: "edit_row list \<Rightarrow> edit_row list" where
  "je_handleAddRow rows = rows @ [\<lparr>r_key = Shown [], r_val = Shown []\<rparr>]"

text \<open>The texts of the two spans of the last row, which was just added.\<close>

definition set_last_row :: "string \<Rightarrow> string \<Rightarrow> edit_row list \<Rightarrow> edit_row list" where
  "set_last_row k v rows = upd_at (length rows - 1) (\<lambda>_. \<lparr>r_key = Shown k, r_val = Shown v\<rparr>) rows"

definition je_answer :: "job_info \<Rightarrow> page \<times> job_edit \<Rightarrow> (page \<times> job_edit) \<times> effect list" where
  "je_answer d ps = (case ps of (p, s) \<Rightarrow>
     if truthy (ji_error d) then ((p, s), [Alert (text_of (ji_error d))])
     else ((seq [set_text ''#jobName'' (ji_jobName d), set_text ''#jobType'' (ji_jobType d)] p,
            s\<lparr>je_override := ji_override d, je_general := ji_general d,
              je_rows := foldl (\<lambda>rows (k, v).
                if k \<noteq> ''type'' \<and> k \<noteq> ''dependencies'' then set_last_row k v (je_handleAddRow rows) else rows)
                (je_rows s) (ji_override d)\<rparr>), []))"

subsection \<open>Editing\<close>

text \<open>
  \<open>closeEditingTarget\<close>: nothing is closed by an event on the cell that is being edited or on its span; every
  other event, also one on the input, closes it.
\<close>

definition close_target :: "job_edit \<Rightarrow> job_edit" where
  "close_target s =
     (case je_target s of
        None \<Rightarrow> s
      | Some Detached \<Rightarrow> s\<lparr>je_target := None\<rparr>
      | Some (Cell i v) \<Rightarrow> s\<lparr>je_rows := upd_at i (upd_cell v close_cell) (je_rows s), je_target := None\<rparr>)"

definition je_closeEditingTarget :: "target option \<Rightarrow> job_edit \<Rightarrow> job_edit" where
  "je_closeEditingTarget clicked s = (if je_target s = None \<or> je_target s = clicked then s else close_target s)"

definition je_handleEditColumn :: "nat \<Rightarrow> bool \<Rightarrow> job_edit \<Rightarrow> job_edit" where
  "je_handleEditColumn i v s =
     (if je_target s = Some (Cell i v) then s
      else
        let s = je_closeEditingTarget (Some (Cell i v)) s
        in s\<lparr>je_rows := upd_at i (upd_cell v edit_cell) (je_rows s), je_target := Some (Cell i v)\<rparr>)"

text \<open>
  A click on "Delete" reaches the button's handler and then that of the cell around it, which is no longer in
  the table: the other cell is closed and the lost one is the target.
\<close>

definition je_handleRemoveColumn :: "nat \<Rightarrow> job_edit \<Rightarrow> job_edit" where
  "je_handleRemoveColumn i s =
     (let rows = take i (je_rows s) @ drop (Suc i) (je_rows s) in
      case je_target s of
        Some (Cell j v) \<Rightarrow> if j = i then s\<lparr>je_rows := rows, je_target := Some Detached\<rparr>
                           else s\<lparr>je_rows := rows, je_target := Some (Cell (if i < j then j - 1 else j) v)\<rparr>
      | t \<Rightarrow> s\<lparr>je_rows := rows\<rparr>)"

definition je_delete_click :: "nat \<Rightarrow> job_edit \<Rightarrow> job_edit" where
  "je_delete_click i s = (close_target (je_handleRemoveColumn i s))\<lparr>je_target := Some Detached\<rparr>"

definition je_typed :: "string \<Rightarrow> job_edit \<Rightarrow> job_edit" where
  "je_typed t s =
     (case je_target s of
        Some (Cell i v) \<Rightarrow> s\<lparr>je_rows := upd_at i (upd_cell v (\<lambda>_. Editing t)) (je_rows s)\<rparr>
      | _ \<Rightarrow> s)"

subsection \<open>Sending\<close>

definition job_override :: "job_edit \<Rightarrow> string jsobj" where
  "job_override s =
     (let ov = flow_override (je_rows s);
          ov = obj_set ''type'' (case obj_get (je_override s) ''type'' of None \<Rightarrow> [] | Some t \<Rightarrow> t) ov
      in (case obj_get (je_override s) ''dependencies'' of None \<Rightarrow> ov | Some d \<Rightarrow> obj_set ''dependencies'' d ov))"

definition je_handleSet :: "env \<Rightarrow> job_edit \<Rightarrow> job_edit \<times> effect list" where
  "je_handleSet g s =
     (let s = je_closeEditingTarget None s in
      (s, [Get (je_url g)
        ([(''project'', je_project s), (''flowName'', je_flow s), (''jobName'', je_job s),
          (''ajax'', ''setJobOverrideProperty'')] @
         map (\<lambda>(k, v). (''jobOverride['' @ k @ '']'', v)) (job_override s))]))"

definition je_set_answer :: "env \<Rightarrow> string option \<Rightarrow> job_edit \<Rightarrow> effect list" where
  "je_set_answer g err s =
     (if truthy err then [Alert (text_of err)]
      else [Redirect (je_url g @ ''?project='' @ je_project s @ ''&flow='' @ je_flow s @ ''&job='' @ je_job s)])"

subsection \<open>One cell at a time\<close>

text \<open>What the user can do with the table.\<close>

inductive edit_step :: "job_edit \<Rightarrow> job_edit \<Rightarrow> bool" where
  step_add: "edit_step s (s\<lparr>je_rows := je_handleAddRow (je_rows s)\<rparr>)"
| step_cell: "i < length (je_rows s) \<Longrightarrow> edit_step s (je_handleEditColumn i v s)"
| step_type: "edit_step s (je_typed t s)"
| step_close: "edit_step s (close_target s)"
| step_delete: "i < length (je_rows s) \<Longrightarrow> edit_step s (je_delete_click i s)"

inductive_cases edit_stepE: "edit_step s s'"

text \<open>Exactly the target is being edited.\<close>

definition is_shown :: "cell \<Rightarrow> bool" where
  "is_shown c \<longleftrightarrow> (\<exists>t. c = Shown t)"

definition get_cell :: "bool \<Rightarrow> edit_row \<Rightarrow> cell" where
  "get_cell v r = (if v then r_val r else r_key r)"

definition one_edited :: "job_edit \<Rightarrow> bool" where
  "one_edited s \<longleftrightarrow>
     (\<forall>i < length (je_rows s). \<forall>v. is_shown (get_cell v (je_rows s ! i)) \<longleftrightarrow> je_target s \<noteq> Some (Cell i v)) \<and>
     (\<forall>i v. je_target s = Some (Cell i v) \<longrightarrow> i < length (je_rows s))"

lemma get_upd_cell: "get_cell w (upd_cell v f r) = (if w = v then f (get_cell w r) else get_cell w r)"
  by (simp add: get_cell_def upd_cell_def)

lemma shown_cells [simp]: "is_shown (close_cell c)" "\<not> is_shown (edit_cell c)" "\<not> is_shown (Editing t)" "is_shown (Shown t)"
  by (cases c; simp add: is_shown_def edit_cell_def)+

lemma cell_upd_at:
  "k < length rows \<Longrightarrow> get_cell w (upd_at i (upd_cell v f) rows ! k) =
     (if k = i \<and> w = v then f (get_cell w (rows ! k)) else get_cell w (rows ! k))"
  by (simp add: nth_upd_at get_upd_cell)

lemma nth_removed:
  "i < length xs \<Longrightarrow> k < length xs - 1 \<Longrightarrow> (take i xs @ drop (Suc i) xs) ! k = xs ! (if k < i then k else Suc k)"
  by (auto simp: nth_append)

lemma close_edited: "one_edited s \<Longrightarrow> one_edited (close_target s) \<and> je_target (close_target s) = None"
  by (cases "je_target s") (auto simp: one_edited_def close_target_def cell_upd_at split: target.splits)

lemma close_frame [simp]: "length (je_rows (close_target s)) = length (je_rows s)"
  by (simp add: close_target_def split: option.split target.split)

lemma edit_edited:
  assumes "one_edited s" "je_target s = None" "i < length (je_rows s)"
  shows "one_edited (s\<lparr>je_rows := upd_at i (upd_cell v edit_cell) (je_rows s), je_target := Some (Cell i v)\<rparr>)"
  using assms by (auto simp: one_edited_def cell_upd_at)

lemma removed_edited:
  assumes "one_edited s" "i < length (je_rows s)"
  shows "one_edited (je_handleRemoveColumn i s)"
proof -
  let ?xs = "je_rows s" and ?ys = "take i (je_rows s) @ drop (Suc i) (je_rows s)"
  define t where "t = je_target (je_handleRemoveColumn i s)"
  have r: "je_rows (je_handleRemoveColumn i s) = ?ys"
    by (simp add: je_handleRemoveColumn_def Let_def split: option.split target.split)
  have l: "length ?ys = length ?xs - 1" using assms(2) by simp
  have t: "t = Some (Cell k v) \<longleftrightarrow> je_target s = Some (Cell (if k < i then k else Suc k) v)"
    if "k < length ?xs - 1" for k v
    using that by (auto simp: t_def je_handleRemoveColumn_def Let_def split: option.splits target.splits if_splits)
  have "k < length ?xs - 1" if "t = Some (Cell k v)" for k v
    using that assms by (auto simp: one_edited_def t_def je_handleRemoveColumn_def Let_def split: option.splits target.splits if_splits)
  moreover have "is_shown (get_cell v (?ys ! k)) \<longleftrightarrow> t \<noteq> Some (Cell k v)" if "k < length ?xs - 1" for k v
    using assms(1) that unfolding t[OF that] nth_removed[OF assms(2) that] one_edited_def by auto
  ultimately show ?thesis unfolding one_edited_def r l t_def[symmetric] by blast
qed

lemma edit_step_edited: "edit_step s s' \<Longrightarrow> one_edited s \<Longrightarrow> one_edited s'"
proof (induction rule: edit_step.induct)
  case (step_add s)
  then show ?case
    by (auto simp: one_edited_def je_handleAddRow_def nth_append get_cell_def less_Suc_eq)
next
  case (step_cell i s v)
  then show ?case
    using close_edited[of s] edit_edited[of s i v] edit_edited[of "close_target s" i v]
    by (auto simp: je_handleEditColumn_def je_closeEditingTarget_def Let_def)
next
  case (step_type t s)
  then show ?case
    by (auto simp: one_edited_def je_typed_def cell_upd_at split: option.splits target.splits)
next
  case (step_close s)
  then show ?case using close_edited by blast
next
  case (step_delete i s)
  have "one_edited (close_target (je_handleRemoveColumn i s))" "je_target (close_target (je_handleRemoveColumn i s)) = None"
    using close_edited removed_edited[OF step_delete(2,1)] by blast+
  then show ?case by (auto simp: je_delete_click_def one_edited_def)
qed

lemma edits_edited: "edit_step\<^sup>*\<^sup>* s s' \<Longrightarrow> one_edited s \<Longrightarrow> one_edited s'"
  by (induction rule: rtranclp_induct) (auto dest: edit_step_edited)

lemma edited_at_rest:
  assumes "one_edited s" "je_target s = None"
  shows "at_rest (je_rows s)"
  unfolding at_rest_def
proof
  fix r
  assume "r \<in> set (je_rows s)"
  then obtain i where "i < length (je_rows s)" "r = je_rows s ! i" by (metis in_set_conv_nth)
  then have "is_shown (get_cell False r)" "is_shown (get_cell True r)" using assms by (auto simp: one_edited_def)
  then show "\<exists>k v. r = \<lparr>r_key = Shown k, r_val = Shown v\<rparr>" by (cases r) (auto simp: is_shown_def get_cell_def)
qed

lemma rest_edited: "at_rest (je_rows s) \<Longrightarrow> je_target s = None \<Longrightarrow> one_edited s"
  by (fastforce simp: at_rest_def one_edited_def is_shown_def get_cell_def dest: nth_mem)

lemma set_closes:
  assumes "one_edited s"
  shows "at_rest (je_rows (je_closeEditingTarget None s))"
  using assms close_edited[OF assms] edited_at_rest by (auto simp: je_closeEditingTarget_def)

lemma job_override_get:
  "obj_get (job_override s) k =
     (if k = ''dependencies'' \<and> obj_get (je_override s) k \<noteq> None then obj_get (je_override s) k
      else if k = ''type'' then Some (case obj_get (je_override s) k of None \<Rightarrow> [] | Some t \<Rightarrow> t)
      else obj_get (flow_override (je_rows s)) k)"
  by (auto simp: job_override_def Let_def split: option.split)


definition edit_env :: env where
  "edit_env = \<lparr>contextURL = ''/az'', projectName = ''dw'', projectId = ''3'', flowId = [], execId = [], jobId = []\<rparr>"

definition demo_edit :: job_edit where
  "demo_edit = je_initialize\<lparr>je_override := [(''type'', ''command'')], je_rows := je_handleAddRow []\<rparr>"


subsection \<open>Round trip\<close>

lemma loaded_rows:
  "foldl (\<lambda>rows (k, v). if k \<noteq> ''type'' \<and> k \<noteq> ''dependencies'' then set_last_row k v (je_handleAddRow rows) else rows) rows ps =
   rows @ map (\<lambda>(k, v). \<lparr>r_key = Shown k, r_val = Shown v\<rparr>) (filter (\<lambda>(k, v). k \<noteq> ''type'' \<and> k \<noteq> ''dependencies'') ps)"
proof (induction ps arbitrary: rows)
  case (Cons p ps)
  have "set_last_row k v (je_handleAddRow rows) = rows @ [\<lparr>r_key = Shown k, r_val = Shown v\<rparr>]" for k v rows
    by (simp add: set_last_row_def je_handleAddRow_def upd_at_def)
  with Cons show ?case by (cases p) simp
qed simp

lemma obj_get_filter: "obj_get (filter (\<lambda>(k, v). P k) m) k = (if P k then obj_get m k else None)"
  by (induction m) (auto simp: obj_get_def)

text \<open>
  C31. The parameters of a job survive the dialog: "Set" without a change sends the parameters that the server
  sent, those that are not shown included.
\<close>

theorem job_edit_roundtrip:
  assumes "\<not> truthy (ji_error d)" "je_rows s = []" "je_target s = None"
    "distinct (obj_keys (ji_override d))" "[] \<notin> set (obj_keys (ji_override d))" "obj_get (ji_override d) ''type'' \<noteq> None"
  shows "\<exists>p' s'. je_answer d (p, s) = ((p', s'), []) \<and>
    (\<forall>k. obj_get (job_override (fst (je_handleSet g s'))) k = obj_get (ji_override d) k)"
proof -
  let ?f = "filter (\<lambda>(k, v). k \<noteq> ''type'' \<and> k \<noteq> ''dependencies'') (ji_override d)"
  define s' where "s' = s\<lparr>je_override := ji_override d, je_general := ji_general d, je_rows := load_params ?f []\<rparr>"
  have a: "\<exists>p'. je_answer d (p, s) = ((p', s'), [])"
    using assms(1,2) by (simp add: je_answer_def loaded_rows load_params_rows s'_def)
  have "flow_override (load_params ?f []) = ?f"
    using assms(4,5) by (intro override_of_loaded) (auto simp: obj_keys_def distinct_map_filter)
  then have o: "obj_get (flow_override (je_rows s')) k = (if k = ''type'' \<or> k = ''dependencies'' then None else obj_get (ji_override d) k)" for k
    using obj_get_filter[of "\<lambda>k. k \<noteq> ''type'' \<and> k \<noteq> ''dependencies''" "ji_override d" k] by (auto simp: s'_def)
  have ov: "je_override s' = ji_override d" by (simp add: s'_def)
  have "fst (je_handleSet g s') = s'" using assms(3) by (simp add: je_handleSet_def je_closeEditingTarget_def s'_def Let_def)
  then have "obj_get (job_override (fst (je_handleSet g s'))) k = obj_get (ji_override d) k" for k
    using assms(6) unfolding job_override_get by (auto simp: o ov)
  then show ?thesis using a by blast
qed

theorem job_edit_roundtrip_witness:
  "obj_get (job_override (fst (je_handleSet edit_env (snd (fst (je_answer
     \<lparr>ji_error = None, ji_jobName = ''load'', ji_jobType = ''command'', ji_general = [],
       ji_override = [(''type'', ''command''), (''day'', ''1''), (''dependencies'', ''extract'')]\<rparr> (blank_page, je_initialize))))))) ''day''
   = Some ''1''"
proof -
  let ?d = "\<lparr>ji_error = None, ji_jobName = ''load'', ji_jobType = ''command'', ji_general = [],
       ji_override = [(''type'', ''command''), (''day'', ''1''), (''dependencies'', ''extract'')]\<rparr>"
  have "obj_get (ji_override ?d) ''type'' \<noteq> None" "distinct (obj_keys (ji_override ?d))" "[] \<notin> set (obj_keys (ji_override ?d))"
    by (simp_all add: obj_get_def obj_keys_def)
  with job_edit_roundtrip[of ?d je_initialize blank_page edit_env] obtain p' s' where
    "je_answer ?d (blank_page, je_initialize) = ((p', s'), [])"
    "obj_get (job_override (fst (je_handleSet edit_env s'))) ''day'' = obj_get (ji_override ?d) ''day''"
    by (auto simp: truthy_def je_initialize_def)
  then show ?thesis by (simp add: obj_get_def)
qed

end
