(* ===== verification/Projects.thy ===== *)
theory Projects
  imports Page JsSort
begin

text \<open>
  The lists of projects and flows: \<open>view/main.js\<close>, \<open>view/project.js\<close> and \<open>view/project-modals.js\<close>. A row of
  these lists opens on a click and fetches what it shows the first time. Clicks and the answer of the server come
  in any order; \<open>lazy_run\<close> is the relation of all such runs and \<open>lazy_list\<close> the contract of a row.
\<close>

subsection \<open>Rows that are filled once\<close>

definition requests :: "effect list \<Rightarrow> nat" where
  "requests es = length (filter (\<lambda>e. case e of Get _ _ \<Rightarrow> True | _ \<Rightarrow> False) es)"

text \<open>The state, the requests not yet answered, all requests sent, and the answers so far.\<close>

inductive lazy_run ::
  "('e \<Rightarrow> 's \<Rightarrow> 's \<times> effect list) \<Rightarrow> ('d \<Rightarrow> 's \<Rightarrow> 's \<times> effect list) \<Rightarrow> 's \<Rightarrow> 's \<Rightarrow> nat \<Rightarrow> nat \<Rightarrow> 'd list \<Rightarrow> bool"
  for click answer s0 where
  run_start: "lazy_run click answer s0 s0 0 0 []"
| run_click: "lazy_run click answer s0 s pending sent ds \<Longrightarrow> click e s = (s', es) \<Longrightarrow>
    lazy_run click answer s0 s' (pending + requests es) (sent + requests es) ds"
| run_answer: "lazy_run click answer s0 s (Suc pending) sent ds \<Longrightarrow> answer d s = (s', es) \<Longrightarrow>
    lazy_run click answer s0 s' pending sent (ds @ [d])"

inductive_cases lazy_runE: "lazy_run click answer s0 s pending sent ds"

locale lazy_list =
  fixes click :: "'e \<Rightarrow> 's \<Rightarrow> 's \<times> effect list"
    and answer :: "'d \<Rightarrow> 's \<Rightarrow> 's \<times> effect list"
    and loading loaded :: "'s \<Rightarrow> bool"
    and items :: "'s \<Rightarrow> 'i list"
    and rows :: "'d \<Rightarrow> 'i list"
  assumes click_idle: "\<not> loading s \<Longrightarrow> \<not> loaded s \<Longrightarrow> click e s = (s', es) \<Longrightarrow>
      items s' = items s \<and> \<not> loaded s' \<and> requests es = (if loading s' then 1 else 0)"
    and click_busy: "loading s \<or> loaded s \<Longrightarrow> click e s = (s', es) \<Longrightarrow>
      items s' = items s \<and> loading s' = loading s \<and> loaded s' = loaded s \<and> requests es = 0"
    and answer_fills: "answer d s = (s', es) \<Longrightarrow> items s' = items s @ rows d \<and> loaded s' \<and> \<not> loading s'"
begin

lemma filled_once:
  assumes "lazy_run click answer s0 s pending sent ds" "\<not> loading s0" "\<not> loaded s0" "items s0 = []"
  shows "sent \<le> 1 \<and> pending + length ds = sent \<and> (loading s \<longleftrightarrow> pending = 1) \<and> (loaded s \<longleftrightarrow> ds \<noteq> []) \<and>
    items s = concat (map rows ds)"
  using assms(1)
proof (induction rule: lazy_run.induct)
  case run_start
  show ?case using assms by simp
next
  case (run_click s pending sent ds e s' es)
  show ?case
  proof (cases "loading s \<or> loaded s")
    case True
    with click_busy[OF True run_click(2)] run_click.IH show ?thesis by simp
  next
    case False
    then have "ds = []" "pending = 0" using run_click.IH by auto
    with False click_idle[OF _ _ run_click(2)] run_click.IH show ?thesis by auto
  qed
next
  case (run_answer s pending sent ds d s' es)
  then show ?case using answer_fills[OF run_answer(2)] by auto
qed

end

subsection \<open>The flows of a project\<close>

text \<open>An item of the list: the properties of its element, its buttons, and its link.\<close>

record flow_item =
  fi_id :: string
  fi_flowId :: string
  fi_dependents :: "string list option"
  fi_dependencies :: "string list option"
  fi_projectName :: string
  fi_jobName :: string
  fi_buttons :: bool
  fi_margin :: int
  fi_href :: string

record flow_job =
  fj_id :: string
  fj_level :: int
  fj_dependents :: "string list option"
  fj_dependencies :: "string list option"

record flow_jobs =
  fs_flowId :: string
  fs_project :: string
  fs_nodes :: "flow_job list"

definition createJobListTable :: "env \<Rightarrow> bool \<Rightarrow> flow_jobs \<Rightarrow> flow_item list" where
  "createJobListTable g execAccess d = map (\<lambda>job.
     \<lparr>fi_id = fs_flowId d @ ''-'' @ fj_id job, fi_flowId = fs_flowId d, fi_dependents = fj_dependents job,
      fi_dependencies = fj_dependencies job, fi_projectName = fs_project d, fi_jobName = fj_id job,
      fi_buttons = execAccess, fi_margin = fj_level job * 20,
      fi_href = contextURL g @ ''/manager?project='' @ fs_project d @ ''&flow='' @ fs_flowId d @ ''&job='' @ fj_id job\<rparr>)
     (fs_nodes d)"

record 'i lazy_row =
  lr_id :: string
  lr_loading :: bool
  lr_loaded :: bool
  lr_items :: "'i list"
  lr_page :: page

definition down_up :: "string \<Rightarrow> page \<Rightarrow> page" where
  "down_up el = seq [jq_removeClass el ''glyphicon-chevron-down'', jq_addClass el ''glyphicon-chevron-up'']"

definition up_down :: "string \<Rightarrow> page \<Rightarrow> page" where
  "up_down el = seq [jq_removeClass el ''glyphicon-chevron-up'', jq_addClass el ''glyphicon-chevron-down'']"

definition expander_icon :: "'i lazy_row \<Rightarrow> string" where
  "expander_icon r = lr_id r @ '' .flow-expander-icon''"

text \<open>The event carries the tag of the element clicked.\<close>

definition expandFlowProject :: "env \<Rightarrow> string \<Rightarrow> flow_item lazy_row \<Rightarrow> flow_item lazy_row \<times> effect list" where
  "expandFlowProject g tag r =
     (if tag = ''A'' \<or> tag = ''BUTTON'' then (r, [])
      else if lr_loading r then (r, [])
      else if lr_loaded r then
        (r\<lparr>lr_page := (if jq_hasClass (expander_icon r) ''glyphicon-chevron-down'' (lr_page r)
                      then down_up (expander_icon r) (lr_page r) else up_down (expander_icon r) (lr_page r))\<rparr>,
         [Call ''collapse'' [lr_id r @ ''-child'', ''toggle'']])
      else (r\<lparr>lr_loading := True\<rparr>,
        [Get (contextURL g @ ''/manager'') [(''project'', projectName g), (''ajax'', ''fetchflowjobs''), (''flow'', lr_id r)]]))"

definition flowProject_answer ::
  "env \<Rightarrow> bool \<Rightarrow> flow_jobs \<Rightarrow> flow_item lazy_row \<Rightarrow> flow_item lazy_row \<times> effect list" where
  "flowProject_answer g execAccess d r =
     (r\<lparr>lr_loaded := True, lr_loading := False, lr_items := lr_items r @ createJobListTable g execAccess d,
        lr_page := down_up (expander_icon r) (lr_page r)\<rparr>,
      [Call ''collapse'' [lr_id r @ ''-child'', ''show'']])"

text \<open>
  Highlighting. The marks are classes of the items, which are named by their ids; a name without an item
  selects nothing.
\<close>

definition remove_marks :: "string list \<Rightarrow> page \<Rightarrow> page" where
  "remove_marks ids p = foldl (\<lambda>p i. jq_removeClass i ''dependency'' (jq_removeClass i ''dependent'' p)) p ids"

definition toggleClass :: "string \<Rightarrow> string \<Rightarrow> page \<Rightarrow> page" where
  "toggleClass el c p = (if jq_hasClass el c p then jq_removeClass el c p else jq_addClass el c p)"

definition toggle_marks :: "string list \<Rightarrow> string \<Rightarrow> string \<Rightarrow> string list option \<Rightarrow> page \<Rightarrow> page" where
  "toggle_marks ids flow c names p =
     (case names of None \<Rightarrow> p
      | Some ns \<Rightarrow> foldl (\<lambda>p n. if flow @ ''-'' @ n \<in> set ids then toggleClass (flow @ ''-'' @ n) c p else p) p ns)"

definition highlightJob :: "string list \<Rightarrow> flow_item \<Rightarrow> page \<Rightarrow> page" where
  "highlightJob ids i p =
     toggle_marks ids (fi_flowId i) ''dependency'' (fi_dependencies i)
       (toggle_marks ids (fi_flowId i) ''dependent'' (fi_dependents i) p)"

definition highlight :: "string list \<Rightarrow> flow_item \<Rightarrow> page \<Rightarrow> page" where
  "highlight ids i p = highlightJob ids i (remove_marks ids p)"

definition unhighlight :: "string list \<Rightarrow> page \<Rightarrow> page" where
  "unhighlight ids p = remove_marks ids p"

definition viewFlow :: "env \<Rightarrow> string option \<Rightarrow> effect list" where
  "viewFlow g flow = [Redirect (contextURL g @ ''/manager?project='' @ projectName g @ ''&flow='' @ text_of flow)]"

definition viewJob :: "env \<Rightarrow> string option \<Rightarrow> string option \<Rightarrow> effect list" where
  "viewJob g flow job =
     [Redirect (contextURL g @ ''/manager?project='' @ projectName g @ ''&flow='' @ text_of flow @ ''&job='' @ text_of job)]"

text \<open>What the execution dialog is opened with.\<close>

definition runJob :: "env \<Rightarrow> string \<Rightarrow> string \<Rightarrow> (string \<times> string) list" where
  "runJob g flow job = [(''project'', projectName g), (''ajax'', ''executeFlow''), (''flow'', flow), (''job'', job)]"

definition runWithDep :: "env \<Rightarrow> string \<Rightarrow> string \<Rightarrow> (string \<times> string) list" where
  "runWithDep g flow job =
     [(''project'', projectName g), (''ajax'', ''executeFlow''), (''flow'', flow), (''job'', job), (''withDep'', ''true'')]"

definition proj_executeFlow :: "env \<Rightarrow> string \<Rightarrow> (string \<times> string) list" where
  "proj_executeFlow g flow = [(''project'', projectName g), (''ajax'', ''executeFlow''), (''flow'', flow)]"

subsection \<open>The projects\<close>

record project_flows =
  pf_project :: string
  pf_flows :: "string list"

text \<open>\<open>localeCompare\<close> depends on the language of the browser: a parameter.\<close>

definition createFlowListTable :: "(string \<Rightarrow> string \<Rightarrow> jsnum) \<Rightarrow> env \<Rightarrow> project_flows \<Rightarrow> (string \<times> string) list" where
  "createFlowListTable localeCompare g d =
     map (\<lambda>i. (i, contextURL g @ ''/manager?project='' @ pf_project d @ ''&flow='' @ i)) (js_sort localeCompare (pf_flows d))"

definition project_icon :: "'i lazy_row \<Rightarrow> string" where
  "project_icon r = lr_id r @ '' .project-expander-icon''"

definition expandProject ::
  "env \<Rightarrow> string \<Rightarrow> (string \<times> string) lazy_row \<Rightarrow> (string \<times> string) lazy_row \<times> effect list" where
  "expandProject g tag r =
     (if tag = ''A'' then (r, [])
      else if lr_loading r then (r, [])
      else if lr_loaded r then
        (r\<lparr>lr_page :=
           (if pg_shown (lr_page r) (lr_id r @ ''-child'')
            then seq [jq_addClass (lr_id r) ''expanded'', jq_removeClass (lr_id r) ''collapsed'', up_down (project_icon r),
                   hide_el (lr_id r @ ''-child'')] (lr_page r)
            else seq [jq_addClass (lr_id r) ''collapsed'', jq_removeClass (lr_id r) ''expanded'', down_up (project_icon r),
                   show_el (lr_id r @ ''-child'')] (lr_page r))\<rparr>, [])
      else
        (r\<lparr>lr_loading := True, lr_page := seq [jq_addClass (lr_id r) ''wait'', jq_removeClass (lr_id r) ''collapsed'',
             jq_removeClass (lr_id r) ''expanded''] (lr_page r)\<rparr>,
         [Get (contextURL g @ ''/manager'') [(''project'', lr_id r), (''ajax'', ''fetchprojectflows'')]]))"

definition project_answer ::
  "(string \<Rightarrow> string \<Rightarrow> jsnum) \<Rightarrow> env \<Rightarrow> project_flows \<Rightarrow> (string \<times> string) lazy_row \<Rightarrow> (string \<times> string) lazy_row \<times> effect list" where
  "project_answer localeCompare g d r =
     (r\<lparr>lr_loaded := True, lr_loading := False, lr_items := lr_items r @ createFlowListTable localeCompare g d,
        lr_page := seq [jq_addClass (lr_id r) ''collapsed'', jq_removeClass (lr_id r) ''wait'', down_up (project_icon r),
          show_el (lr_id r @ ''-child'')] (lr_page r)\<rparr>, [])"

text \<open>The message above the list; the template passes the text "null" where there is none.\<close>

definition real_msg :: "string option \<Rightarrow> bool" where
  "real_msg m \<longleftrightarrow> truthy m \<and> m \<noteq> Some ''null''"

definition projectHeader_initialize :: "string option \<Rightarrow> string option \<Rightarrow> page \<Rightarrow> page" where
  "projectHeader_initialize errorMsg successMsg p =
     (if real_msg errorMsg then seq [jq_addClass ''#messaging'' ''alert-danger'', jq_removeClass ''#messaging'' ''alert-success'',
        set_text ''#messaging-message'' (text_of errorMsg)] p
      else if real_msg successMsg then seq [jq_addClass ''#messaging'' ''alert-success'', jq_removeClass ''#messaging'' ''alert-danger'',
        set_text ''#messaging-message'' (text_of successMsg)] p
      else seq [jq_removeClass ''#messaging'' ''alert-success'', jq_removeClass ''#messaging'' ''alert-danger''] p)"

definition handleCreateProjectJob :: "effect list" where
  "handleCreateProjectJob = [Modal ''#create-project-modal'']"

definition handleCreateProject :: "page \<Rightarrow> effect list" where
  "handleCreateProject p = [Post ''manager'' [(''action'', ''create''), (''name'', pg_val p ''#path''),
     (''description'', pg_val p ''#description'')]]"

record create_reply =
  cr_status :: string
  cr_action :: string
  cr_path :: string
  cr_message :: string

definition createProject_answer :: "create_reply \<Rightarrow> page \<Rightarrow> page \<times> effect list" where
  "createProject_answer d p =
     (if cr_status d = ''success'' then (p, if cr_action d = ''redirect'' then [Redirect (cr_path d)] else [])
      else if cr_action d = ''login'' then (p, [Redirect []])
      else (seq [set_text ''#modal-error-msg'' (''ERROR: '' @ cr_message d), show_el ''#modal-error-msg''] p, []))"

subsection \<open>The dialogs of a project\<close>

definition handleUploadProjectJob :: "effect list" where
  "handleUploadProjectJob = [Modal ''#upload-project-modal'']"

definition handleDeleteProject :: "effect list" where
  "handleDeleteProject = [Modal ''#delete-project-modal'']"

definition upload_submit :: "effect list" where
  "upload_submit = [Call ''submit'' [''#upload-project-form'']]"

definition delete_submit :: "effect list" where
  "delete_submit = [Call ''submit'' [''#delete-form'']]"

definition handleDescriptionEdit :: "page \<Rightarrow> page" where
  "handleDescriptionEdit p =
     (let placeholder = jq_hasClass ''#project-description'' ''editable-placeholder'' p;
          description = (if placeholder then [] else pg_text p ''#project-description'');
          p = (if placeholder then jq_removeClass ''#project-description'' ''editable-placeholder'' p else p)
      in seq [set_attr ''#project-description-edit'' ''value'' (Some description),
              hide_el ''#project-description'', show_el ''#project-description-form''] p)"

definition handleDescriptionSave :: "env \<Rightarrow> page \<Rightarrow> page \<times> effect list" where
  "handleDescriptionSave g p =
     (if jq_hasClass ''#project-description-edit'' ''has-error'' p
      then jq_removeClass ''#project-description-edit'' ''has-error'' p else p,
      [Get (contextURL g @ ''/manager'') [(''project'', projectName g), (''ajax'', ''changeDescription''),
         (''description'', pg_val p ''#project-description-edit'')]])"

definition description_answer :: "string \<Rightarrow> string option \<Rightarrow> page \<Rightarrow> page \<times> effect list" where
  "description_answer newText err p =
     (if truthy err then (jq_addClass ''#project-description-edit'' ''has-error'' p, [Alert (text_of err)])
      else (seq [hide_el ''#project-description-form'',
          (if newText \<noteq> [] then set_text ''#project-description'' newText
           else seq [set_text ''#project-description'' ''Add project description.'', jq_addClass ''#project-description'' ''editable-placeholder'']),
          show_el ''#project-description''] p, []))"

subsection \<open>What the lists hold\<close>

lemma requests_simps [simp]:
  "requests [] = 0" "requests (Get u fs # es) = Suc (requests es)" "requests (Call f xs # es) = requests es"
  by (simp_all add: requests_def)

interpretation flow_rows: lazy_list "expandFlowProject g" "flowProject_answer g execAccess" lr_loading lr_loaded lr_items
    "createJobListTable g execAccess" for g execAccess
  by unfold_locales (auto simp: expandFlowProject_def flowProject_answer_def split: if_splits)

interpretation project_rows: lazy_list "expandProject g" "project_answer localeCompare g" lr_loading lr_loaded lr_items
    "createFlowListTable localeCompare g" for g localeCompare
  by unfold_locales (auto simp: expandProject_def project_answer_def Let_def split: if_splits)

text \<open>
  C34. However often and wherever a row is clicked, and whenever the answer comes: a row asks the server at most
  once, and its list is empty until the answer and holds exactly the rows of that one answer from then on. The
  rows of flows and the rows of projects keep this alike.
\<close>

theorem rows_filled_once:
  assumes "lazy_run (expandFlowProject g) (flowProject_answer g execAccess) r0 r pending sent ds"
    "\<not> lr_loading r0" "\<not> lr_loaded r0" "lr_items r0 = []"
    "lazy_run (expandProject g) (project_answer localeCompare g) q0 q pending' sent' ds'"
    "\<not> lr_loading q0" "\<not> lr_loaded q0" "lr_items q0 = []"
  shows "sent \<le> 1 \<and> pending + length ds = sent \<and> lr_items r = concat (map (createJobListTable g execAccess) ds) \<and>
    sent' \<le> 1 \<and> pending' + length ds' = sent' \<and> lr_items q = concat (map (createFlowListTable localeCompare g) ds')"
  using flow_rows.filled_once[OF assms(1-4)] project_rows.filled_once[OF assms(5-8)] by simp

definition list_env :: env where
  "list_env = \<lparr>contextURL = [], projectName = ''dw'', projectId = ''3'', flowId = [], execId = [], jobId = []\<rparr>"

definition closed_row :: "'i lazy_row" where
  "closed_row = \<lparr>lr_id = ''etl'', lr_loading = False, lr_loaded = False, lr_items = [], lr_page = blank_page\<rparr>"

definition demo_jobs :: flow_jobs where
  "demo_jobs = \<lparr>fs_flowId = ''etl'', fs_project = ''dw'', fs_nodes = [\<lparr>fj_id = ''load'', fj_level = 1, fj_dependents = None, fj_dependencies = None\<rparr>]\<rparr>"

theorem rows_filled_once_witness:
  "lr_items (fst (expandFlowProject list_env ''TD'' (fst (flowProject_answer list_env True demo_jobs
     (fst (expandFlowProject list_env ''TD'' (fst (expandFlowProject list_env ''TD'' closed_row)))))))) =
   createJobListTable list_env True demo_jobs"
proof -
  let ?c = "expandFlowProject list_env" and ?a = "flowProject_answer list_env True"
  define s1 where "s1 = fst (?c ''TD'' closed_row)"
  define s2 where "s2 = fst (?c ''TD'' s1)"
  define s3 where "s3 = fst (?a demo_jobs s2)"
  define s4 where "s4 = fst (?c ''TD'' s3)"
  have q: "requests (snd (?c ''TD'' closed_row)) = 1" "requests (snd (?c ''TD'' s1)) = 0" "requests (snd (?c ''TD'' s3)) = 0"
    by (simp_all add: expandFlowProject_def closed_row_def s1_def s2_def s3_def flowProject_answer_def)
  have r1: "lazy_run ?c ?a closed_row s1 1 1 []"
    using run_click[OF run_start, of ?c "''TD''" closed_row s1 "snd (?c ''TD'' closed_row)"] q(1) by (simp add: s1_def)
  have r2: "lazy_run ?c ?a closed_row s2 (Suc 0) 1 []"
    using run_click[OF r1, of "''TD''" s2 "snd (?c ''TD'' s1)"] q(2) by (simp add: s2_def)
  have r3: "lazy_run ?c ?a closed_row s3 0 1 [demo_jobs]"
    using run_answer[OF r2, of demo_jobs s3 "snd (?a demo_jobs s2)"] by (simp add: s3_def)
  have r4: "lazy_run ?c ?a closed_row s4 0 1 [demo_jobs]"
    using run_click[OF r3, of "''TD''" s4 "snd (?c ''TD'' s3)"] q(3) by (simp add: s4_def)
  have "lr_items s4 = createJobListTable list_env True demo_jobs"
    using rows_filled_once[OF r4 _ _ _ run_start[of "expandProject list_env" "project_answer (\<lambda>_ _. Fin 0) list_env" closed_row]]
    by (simp add: closed_row_def)
  then show ?thesis by (simp add: s1_def s2_def s3_def s4_def)
qed

text \<open>A request without an answer leaves the row closed for good: every later click only finds it loading.\<close>

lemma unanswered_row_stuck:
  "lr_loading r \<Longrightarrow> expandFlowProject g tag r = (r, [])" "lr_loading q \<Longrightarrow> expandProject g tag q = (q, [])"
  by (simp_all add: expandFlowProject_def expandProject_def)

text \<open>The icon of a project points up exactly while its flows are shown.\<close>

definition icon_right :: "'i lazy_row \<Rightarrow> bool" where
  "icon_right r \<longleftrightarrow> (lr_loaded r \<longrightarrow>
     (jq_hasClass (project_icon r) ''glyphicon-chevron-up'' (lr_page r) \<longleftrightarrow> pg_shown (lr_page r) (lr_id r @ ''-child'')))"

lemma project_icon_right:
  "icon_right (fst (project_answer localeCompare g d r))" "icon_right r \<Longrightarrow> icon_right (fst (expandProject g tag r))"
  by (auto simp: icon_right_def project_answer_def expandProject_def project_icon_def down_up_def up_down_def jq_hasClass_def Let_def)

subsection \<open>Highlighting\<close>

lemma toggle_class [simp]:
  "(c \<in> set (pg_class (toggleClass el c p) e)) = ((c \<in> set (pg_class p e)) \<noteq> (e = el))"
  "c' \<noteq> c \<Longrightarrow> (c' \<in> set (pg_class (toggleClass el c p) e)) = (c' \<in> set (pg_class p e))"
  by (auto simp: toggleClass_def jq_hasClass_def)

lemma toggled:
  assumes "distinct ns"
  shows "c \<in> set (pg_class (toggle_marks ids flow c (Some ns) p) e) \<longleftrightarrow>
      ((c \<in> set (pg_class p e)) \<noteq> (e \<in> set ids \<and> (\<exists>n \<in> set ns. e = flow @ ''-'' @ n)))"
    "c' \<noteq> c \<Longrightarrow> c' \<in> set (pg_class (toggle_marks ids flow c (Some ns) p) e) \<longleftrightarrow> c' \<in> set (pg_class p e)"
  using assms unfolding toggle_marks_def option.case by (induction ns arbitrary: p) auto

lemma marks_removed:
  "c \<in> {''dependent'', ''dependency''} \<Longrightarrow> e \<in> set ids \<Longrightarrow> c \<notin> set (pg_class (remove_marks ids p) e)"
proof -
  assume c: "c \<in> {''dependent'', ''dependency''}" and e: "e \<in> set ids"
  have "(c \<notin> set (pg_class q e) \<or> e \<in> set js) \<Longrightarrow>
      c \<notin> set (pg_class (foldl (\<lambda>p i. jq_removeClass i ''dependency'' (jq_removeClass i ''dependent'' p)) q js) e)" for js q
    using c by (induction js arbitrary: q) auto
  with e show ?thesis by (simp add: remove_marks_def)
qed

text \<open>Pointing at a job marks exactly the items of the jobs it depends on and of those that depend on it.\<close>

lemma highlight_marks:
  assumes "e \<in> set ids" "fi_dependents i = Some ds" "fi_dependencies i = Some cs" "distinct ds" "distinct cs"
  shows "''dependent'' \<in> set (pg_class (highlight ids i p) e) \<longleftrightarrow> (\<exists>n \<in> set ds. e = fi_flowId i @ ''-'' @ n)"
    "''dependency'' \<in> set (pg_class (highlight ids i p) e) \<longleftrightarrow> (\<exists>n \<in> set cs. e = fi_flowId i @ ''-'' @ n)"
  using assms marks_removed[of _ e ids p]
  unfolding highlight_def highlightJob_def assms(2,3) by (simp_all add: toggled)

end
