(* ===== verification/TimeGraph.thy ===== *)
theory TimeGraph
  imports JsString
begin

text \<open>
  \<open>view/time-graph.js\<close>: the graph of the durations of earlier runs, also used by \<open>view/job-history.js\<close>. The
  library that draws it, Morris, sorts the points by time and calls back with the time of a point, for its colour,
  or with its position in ascending order, for the text shown when the mouse is over it.
\<close>

record run =
  rn_startTime :: "int option"
  rn_endTime :: "int option"
  rn_status :: string

type_synonym time_point = "int \<times> int"

text \<open>One round of the loop; None when it returns from the function.\<close>

definition point_step ::
  "int \<Rightarrow> run list \<Rightarrow> time_point list \<times> nat jsobj \<Rightarrow> nat \<Rightarrow> (time_point list \<times> nat jsobj) option" where
  "point_step now series st i = (case st of (data, indexMap) \<Rightarrow>
     (case (rn_startTime (series ! i), rn_endTime (series ! i)) of
        (Some startTime, Some endTime) \<Rightarrow>
          if startTime = -1 \<and> endTime = -1 then Some (data, indexMap)
          else
            let duration = (if endTime \<noteq> -1 \<and> startTime \<noteq> -1 then endTime - startTime else 0);
                endTime = (if endTime = -1 then now else endTime)
            in Some (data @ [(endTime, duration)], obj_set (show_int endTime) i indexMap)
      | _ \<Rightarrow> None))"

fun point_steps ::
  "int \<Rightarrow> run list \<Rightarrow> nat list \<Rightarrow> time_point list \<times> nat jsobj \<Rightarrow> (time_point list \<times> nat jsobj) option" where
  "point_steps now series [] st = Some st"
| "point_steps now series (i # is) st =
     (case point_step now series st i of None \<Rightarrow> None | Some st' \<Rightarrow> point_steps now series is st')"

datatype drawn = Untouched | Hidden | Drawn "time_point list" "nat jsobj"

definition tg_render :: "int \<Rightarrow> run list option \<Rightarrow> drawn" where
  "tg_render now field =
     (case field of
        None \<Rightarrow> Untouched
      | Some series \<Rightarrow>
          (case point_steps now series [0..<length series] ([], []) of
             None \<Rightarrow> Untouched
           | Some (data, indexMap) \<Rightarrow> if data = [] then Hidden else Drawn data indexMap))"

text \<open>The callbacks. A status that is looked up beyond the series is a TypeError.\<close>

definition status_colour :: "string \<Rightarrow> string" where
  "status_colour status =
     (if status = ''SKIPPED'' then ''#aaa''
      else if status = ''SUCCEEDED'' then ''#4e911e''
      else if status = ''RUNNING'' then ''#009fc9''
      else if status = ''PAUSED'' then ''#c92123''
      else if status = ''FAILED'' \<or> status = ''FAILED_FINISHING'' \<or> status = ''KILLED'' then ''#cc0000''
      else ''#ccc'')"

definition lineColorsCallback :: "run list \<Rightarrow> nat jsobj \<Rightarrow> int \<Rightarrow> string \<Rightarrow> string result" where
  "lineColorsCallback series indexMap x type =
     (if type \<noteq> ''point'' then Inr ''#000000''
      else (case obj_get indexMap (show_int x) of
              None \<Rightarrow> Inl TypeError
            | Some i \<Rightarrow> if i < length series then Inr (status_colour (rn_status (series ! i))) else Inl TypeError))"

definition hover_status :: "string \<Rightarrow> string" where
  "hover_status status =
     ''<div class='' @ [CHR 0x22] @ ''morris-hover-point'' @ [CHR 0x22] @ ''>Status: '' @ status @ ''</div>''"

definition hoverCallback :: "run list \<Rightarrow> nat \<Rightarrow> nat \<Rightarrow> string \<Rightarrow> string result" where
  "hoverCallback series points index content =
     (if index < points \<and> points - index - 1 < length series
      then Inr (content @ hover_status (rn_status (series ! (points - index - 1))))
      else Inl TypeError)"

text \<open>The position of the point in ascending order, with the points in descending order.\<close>

definition ascending :: "nat \<Rightarrow> nat \<Rightarrow> nat" where
  "ascending points i = points - 1 - i"

subsection \<open>Colours and texts\<close>

lemma show_int_inj: "show_int a = show_int b \<Longrightarrow> a = b"
proof -
  have n: "hd (show_nat n) \<noteq> CHR ''-''" for n
    using show_nat_digits[of n] is_digit_special[of "hd (show_nat n)"] by (cases "show_nat n") auto
  assume s: "show_int a = show_int b"
  show "a = b"
  proof (cases "a < 0"; cases "b < 0")
    assume "a < 0" "b < 0"
    with s have "show_nat (nat (- a)) = show_nat (nat (- b))" by (simp add: show_int_def)
    from show_nat_inj[OF this] \<open>a < 0\<close> \<open>b < 0\<close> show ?thesis by simp
  next
    assume "\<not> a < 0" "\<not> b < 0"
    with s have "show_nat (nat a) = show_nat (nat b)" by (simp add: show_int_def)
    from show_nat_inj[OF this] \<open>\<not> a < 0\<close> \<open>\<not> b < 0\<close> show ?thesis by simp
  next
    assume "a < 0" "\<not> b < 0"
    with s n[of "nat b"] show ?thesis by (auto simp: show_int_def dest: arg_cong[of _ _ hd])
  next
    assume "\<not> a < 0" "b < 0"
    with s[symmetric] n[of "nat a"] show ?thesis by (auto simp: show_int_def dest: arg_cong[of _ _ hd])
  qed
qed

text \<open>A series as the server sends it: descending in time, and no run is without both times.\<close>

definition point_time :: "int \<Rightarrow> run \<Rightarrow> int" where
  "point_time now r = (case rn_endTime r of Some e \<Rightarrow> if e = -1 then now else e | None \<Rightarrow> 0)"

definition full_series :: "int \<Rightarrow> run list \<Rightarrow> bool" where
  "full_series now series \<longleftrightarrow> (\<forall>r \<in> set series. rn_startTime r \<noteq> None \<and> rn_endTime r \<noteq> None \<and>
      (rn_startTime r \<noteq> Some (-1) \<or> rn_endTime r \<noteq> Some (-1))) \<and>
     sorted_wrt (\<lambda>a b. point_time now b < point_time now a) series"

lemma full_points:
  assumes "\<forall>r \<in> set series. rn_startTime r \<noteq> None \<and> rn_endTime r \<noteq> None \<and>
      (rn_startTime r \<noteq> Some (-1) \<or> rn_endTime r \<noteq> Some (-1))"
  shows "set is \<subseteq> {..<length series} \<Longrightarrow> \<exists>data m. point_steps now series is (d, m0) = Some (d @ data, m) \<and>
    map fst data = map (\<lambda>i. point_time now (series ! i)) is \<and>
    m = foldl (\<lambda>m i. obj_set (show_int (point_time now (series ! i))) i m) m0 is"
proof (induction "is" arbitrary: d m0)
  case (Cons i "is")
  have "series ! i \<in> set series" using Cons.prems by simp
  then obtain s e where se: "rn_startTime (series ! i) = Some s" "rn_endTime (series ! i) = Some e" "s \<noteq> -1 \<or> e \<noteq> -1"
    using assms by fastforce
  let ?t = "point_time now (series ! i)" and ?l = "if e \<noteq> -1 \<and> s \<noteq> -1 then e - s else 0"
  have p: "point_step now series (d, m0) i = Some (d @ [(?t, ?l)], obj_set (show_int ?t) i m0)"
    using se by (auto simp: point_step_def point_time_def Let_def)
  obtain data m where "point_steps now series is (d @ [(?t, ?l)], obj_set (show_int ?t) i m0) = Some ((d @ [(?t, ?l)]) @ data, m)"
    "map fst data = map (\<lambda>i. point_time now (series ! i)) is"
    "m = foldl (\<lambda>m i. obj_set (show_int (point_time now (series ! i))) i m) (obj_set (show_int ?t) i m0) is"
    using Cons.IH[of "d @ [(?t, ?l)]" "obj_set (show_int ?t) i m0"] Cons.prems by auto
  then show ?case by (intro exI[of _ "(?t, ?l) # data"] exI[of _ m]) (simp add: p)
qed simp

lemma index_of_point:
  assumes "inj_on t {..<n}" "i < n"
  shows "obj_get (foldl (\<lambda>m i. obj_set (show_int (t i)) i m) [] [0..<n]) (show_int (t i)) = Some i"
proof -
  have "obj_get (foldl (\<lambda>m i. obj_set (show_int (t i)) i m) [] [0..<k]) (show_int (t i)) = (if i < k then Some i else None)" if "k \<le> n" for k
    using that
  proof (induction k)
    case (Suc k)
    have "show_int (t i) = show_int (t k) \<longleftrightarrow> i = k"
      using assms Suc.prems show_int_inj by (metis inj_on_eq_iff lessThan_iff Suc_le_lessD)
    with Suc show ?case by (auto simp: less_Suc_eq)
  qed simp
  with assms(2) show ?thesis by simp
qed

lemma sorted_times:
  assumes "sorted_wrt (\<lambda>a b. point_time now b < point_time now a) series"
  shows "inj_on (\<lambda>i. point_time now (series ! i)) {..<length series}"
proof (rule inj_onI)
  fix i j
  assume "i \<in> {..<length series}" "j \<in> {..<length series}" "point_time now (series ! i) = point_time now (series ! j)"
  then show "i = j"
    using assms sorted_wrt_nth_less[OF assms, of i j] sorted_wrt_nth_less[OF assms, of j i] by (cases i j rule: linorder_cases) auto
qed


definition demo_run :: "int \<Rightarrow> string \<Rightarrow> run" where
  "demo_run t st = \<lparr>rn_startTime = Some (t - 5), rn_endTime = Some t, rn_status = st\<rparr>"


text \<open>
  A run that has not started makes no point, but the text under the mouse counts it: every older point then
  shows the status of a younger run.
\<close>

lemma time_graph_skipped:
  "let series = [\<lparr>rn_startTime = Some (-1), rn_endTime = Some (-1), rn_status = ''READY''\<rparr>, demo_run 60 ''FAILED'', demo_run 30 ''SUCCEEDED''] in
   (case tg_render 100 (Some series) of
      Drawn data indexMap \<Rightarrow> map fst data = [60, 30] \<and>
        lineColorsCallback series indexMap 30 ''point'' = Inr (status_colour ''SUCCEEDED'') \<and>
        hoverCallback series (length data) (ascending (length data) 1) [] =
          Inr (hover_status ''FAILED'')
    | _ \<Rightarrow> False)"
  by code_simp

end
