(* ===== verification/AdminSetup.thy ===== *)
theory AdminSetup
  imports Page
begin

text \<open>
  \<open>view/admin-setup.js\<close>: the pages on which an installation is set up: the upload of the database driver and the
  database settings.
\<close>

text \<open>\<open>lastIndexOf\<close> of a character, -1 if there is none; \<open>substring\<close> takes a negative start for 0.\<close>

definition last_index :: "char \<Rightarrow> string \<Rightarrow> int" where
  "last_index c s = int (length s) - 1 - int (length (takeWhile (\<lambda>d. d \<noteq> c) (rev s)))"

definition js_substring :: "string \<Rightarrow> int \<Rightarrow> int \<Rightarrow> string" where
  "js_substring s i j = substring s (nat i) (nat j)"

definition handleUpload :: "string \<Rightarrow> effect list" where
  "handleUpload filename =
     (if 4 < length filename
      then
        let lastIndexOf = last_index (CHR ''.'') filename;
            lastIndexOfForwardSlash = last_index (CHR 0x5C) filename;
            lastIndexOfBackwardSlash = last_index (CHR ''/'') filename;
            startIndex = max lastIndexOfForwardSlash lastIndexOfBackwardSlash + 1;
            subfilename = js_substring filename startIndex (int (length filename));
            ext = js_substring filename lastIndexOf (int (length filename))
        in if ext \<noteq> ''.jar''
           then [Alert (''File '' @ subfilename @ [CHR '' ''] @ ''doesn'' @ [CHR 0x27] @ ''t appear to be a jar. Looking for mysql-connector*.jar'')]
           else if take (length ''mysql-connector'') subfilename \<noteq> ''mysql-connector''
           then [Alert (''File '' @ subfilename @ [CHR '' ''] @ ''doesn'' @ [CHR 0x27] @ ''t appear to be a mysql connector jar. Looking for mysql-connector*.jar'')]
           else [Call ''xhr.send'' [''POST'', ''uploadServlet'']]
      else [Alert (''File doesn'' @ [CHR 0x27] @ ''t appear to be valid.'')])"

definition upload_answer :: "string option \<Rightarrow> string \<Rightarrow> page \<Rightarrow> page \<times> effect list" where
  "upload_answer err jarname p =
     (if truthy err then (p, [Alert (text_of err)])
      else (set_text ''#installed'' (''Uploaded <span class=bold>'' @ jarname @ ''</span>'') p, []))"

definition dbConnection_initialize :: "bool \<Rightarrow> string \<Rightarrow> page \<Rightarrow> page" where
  "dbConnection_initialize verified message p =
     (if verified then seq [set_text ''#save-results'' message, set_attr ''#save-results'' ''color'' (Some ''#00CC00'')] p
      else hide_el ''#save-results'' p)"

definition handleSaveConnection :: "env \<Rightarrow> page \<Rightarrow> effect list" where
  "handleSaveConnection g p = [Post (contextURL g) [(''ajax'', ''saveDbConnection''), (''host'', pg_val p ''#host''),
     (''port'', pg_val p ''#port''), (''database'', pg_val p ''#database''), (''username'', pg_val p ''#username''),
     (''password'', pg_val p ''#password'')]]"

text \<open>The flag is the global variable \<open>verified\<close>.\<close>

definition saveConnection_answer :: "string option \<Rightarrow> string option \<Rightarrow> bool \<times> page \<Rightarrow> bool \<times> page" where
  "saveConnection_answer err success vp = (case vp of (verified, p) \<Rightarrow>
     let (verified, p) =
       (if truthy err then (False, seq [set_text ''#save-results'' (text_of err), set_attr ''#save-results'' ''color'' (Some ''#FF0000'')] p)
        else if truthy success then (True, seq [set_text ''#save-results'' (text_of success), set_attr ''#save-results'' ''color'' (Some ''#00CC00'')] p)
        else (verified, p))
     in (verified, show_el ''#save-results'' p))"

definition saveAndContinue :: "bool \<Rightarrow> effect list" where
  "saveAndContinue verified =
     (if \<not> verified then [Alert (''The database connection hasn'' @ [CHR 0x27] @ ''t been verified.'')]
      else [Redirect ''/?usersetup''])"

subsection \<open>Which files are uploaded\<close>

text \<open>The name without the directories, which end at the last slash of either kind.\<close>

definition is_base :: "string \<Rightarrow> string \<Rightarrow> bool" where
  "is_base base filename \<longleftrightarrow> CHR ''/'' \<notin> set base \<and> CHR 0x5C \<notin> set base \<and>
     (filename = base \<or> (\<exists>dir. filename = dir @ CHR ''/'' # base \<or> filename = dir @ CHR 0x5C # base))"

lemma takeWhile_absent: "c \<notin> set s \<Longrightarrow> takeWhile (\<lambda>d. d \<noteq> c) s = s"
  by (induction s) auto

lemma last_index_append: "c \<notin> set b \<Longrightarrow> last_index c (a @ c # b) = int (length a)"
  by (simp add: last_index_def takeWhile_append takeWhile_absent)

lemma last_index_absent: "c \<notin> set s \<Longrightarrow> last_index c s = -1"
  by (simp add: last_index_def takeWhile_absent)

lemma last_index_bound: "c \<notin> set b \<Longrightarrow> last_index c (a @ b) < int (length a) \<or> a = [] \<and> last_index c (a @ b) = -1"
proof (cases "c \<in> set a")
  case True
  assume b: "c \<notin> set b"
  obtain a1 a2 where "a = a1 @ c # a2" "c \<notin> set a2" using split_list_last[OF True] by blast
  then show ?thesis using last_index_append[of c "a2 @ b" a1] b by simp
next
  case False
  assume "c \<notin> set b"
  with False last_index_absent[of c "a @ b"] show ?thesis by auto
qed

lemma base_start:
  assumes "is_base base filename"
  shows "js_substring filename (max (last_index (CHR 0x5C) filename) (last_index (CHR ''/'') filename) + 1) (int (length filename)) = base"
proof -
  let ?b = "CHR 0x5C" and ?s = "CHR ''/''"
  have n: "?s \<notin> set base" "?b \<notin> set base" using assms by (simp_all add: is_base_def)
  consider "filename = base" | dir where "filename = dir @ ?s # base" | dir where "filename = dir @ ?b # base"
    using assms by (auto simp: is_base_def)
  then show ?thesis
  proof cases
    case 1
    then show ?thesis using n by (simp add: last_index_absent js_substring_def substring_def)
  next
    case 2
    have "last_index ?b filename < int (length (dir @ [?s]))"
      using last_index_bound[of ?b base "dir @ [?s]"] n 2 by auto
    moreover have "last_index ?s filename = int (length dir)" using last_index_append n 2 by simp
    ultimately have "max (last_index ?b filename) (last_index ?s filename) = int (length dir)" by simp
    then show ?thesis using 2 by (simp add: js_substring_def substring_def nat_add_distrib)
  next
    case 3
    have "last_index ?s filename < int (length (dir @ [?b]))"
      using last_index_bound[of ?s base "dir @ [?b]"] n 3 by auto
    moreover have "last_index ?b filename = int (length dir)" using last_index_append n 3 by simp
    ultimately have "max (last_index ?b filename) (last_index ?s filename) = int (length dir)" by simp
    then show ?thesis using 3 by (simp add: js_substring_def substring_def nat_add_distrib)
  qed
qed

lemma ends_jar:
  "js_substring filename (last_index (CHR ''.'') filename) (int (length filename)) = ''.jar'' \<longleftrightarrow> (\<exists>a. filename = a @ ''.jar'')"
proof
  assume e: "js_substring filename (last_index (CHR ''.'') filename) (int (length filename)) = ''.jar''"
  then show "\<exists>a. filename = a @ ''.jar''"
    by (simp add: js_substring_def substring_def) (metis append_take_drop_id)
next
  assume "\<exists>a. filename = a @ ''.jar''"
  then obtain a where a: "filename = a @ CHR ''.'' # ''jar''" by auto
  then have "last_index (CHR ''.'') filename = int (length a)" using last_index_append[of "CHR ''.''" "''jar''" a] by simp
  then show "js_substring filename (last_index (CHR ''.'') filename) (int (length filename)) = ''.jar''"
    using a by (simp add: js_substring_def substring_def)
qed

text \<open>
  A file is uploaded exactly if its name, without the directories of either system, begins with
  "mysql-connector" and ends with ".jar"; every other file only raises one message.
\<close>

theorem handleUpload_iff:
  assumes "is_base base filename"
  shows "(handleUpload filename = [Call ''xhr.send'' [''POST'', ''uploadServlet'']] \<longleftrightarrow>
      (\<exists>v. base = ''mysql-connector'' @ v) \<and> (\<exists>a. filename = a @ ''.jar'') \<and> 4 < length filename) \<and>
    (handleUpload filename \<noteq> [Call ''xhr.send'' [''POST'', ''uploadServlet'']] \<longrightarrow> (\<exists>msg. handleUpload filename = [Alert msg]))"
proof -
  have "take (length ''mysql-connector'') base = ''mysql-connector'' \<longleftrightarrow> (\<exists>v. base = ''mysql-connector'' @ v)"
    by (metis append_eq_conv_conj append_take_drop_id)
  then show ?thesis
    unfolding handleUpload_def Let_def base_start[OF assms]
    using ends_jar[of filename] by auto
qed

text \<open>A name as the browser of Windows gives it.\<close>

definition demo_file :: string where
  "demo_file = ''C:'' @ [CHR 0x5C] @ ''fakepath'' @ [CHR 0x5C] @ ''mysql-connector-5.jar''"

theorem handleUpload_iff_witness:
  "handleUpload demo_file = [Call ''xhr.send'' [''POST'', ''uploadServlet'']]"
proof -
  have base: "is_base ''mysql-connector-5.jar'' demo_file"
    unfolding is_base_def demo_file_def by (intro conjI disjI2 exI[of _ "''C:'' @ [CHR 0x5C] @ ''fakepath''"]) simp_all
  have "\<exists>v. ''mysql-connector-5.jar'' = ''mysql-connector'' @ v" by (rule exI[of _ "''-5.jar''"]) simp
  moreover have "\<exists>a. demo_file = a @ ''.jar''"
    by (rule exI[of _ "''C:'' @ [CHR 0x5C] @ ''fakepath'' @ [CHR 0x5C] @ ''mysql-connector-5''"]) (simp add: demo_file_def)
  moreover have "4 < length demo_file" by (simp add: demo_file_def)
  ultimately show ?thesis using handleUpload_iff[OF base] by blast
qed

end
