(* ===== verification/LogText.thy ===== *)
theory LogText
  imports JobLog
begin

text \<open>
  \<open>view/job-details.js\<close>: the page of the log of a job. The log is put into the page as markup, after every
  address in it has been made a link by the regular expression
  \<open>(https?:\/\/(([-\w\.]+)+(:\d+)?(\/([\w/_\.]*(\?\S+)?)?)?))\<close>. Every part of the expression after the host is
  optional, and each is as long as possible, so a match is found without going back.
\<close>

definition word_char :: "char \<Rightarrow> bool" where
  "word_char c \<longleftrightarrow> is_digit c \<or> 65 \<le> char_code c \<and> char_code c \<le> 90 \<or> 97 \<le> char_code c \<and> char_code c \<le> 122 \<or> c = CHR ''_''"

definition host_char :: "char \<Rightarrow> bool" where
  "host_char c \<longleftrightarrow> c = CHR ''-'' \<or> word_char c \<or> c = CHR ''.''"

definition path_char :: "char \<Rightarrow> bool" where
  "path_char c \<longleftrightarrow> word_char c \<or> c = CHR ''/'' \<or> c = CHR ''.''"

text \<open>The length of a run of characters, and of an optional part that begins with a given one.\<close>

definition run_len :: "(char \<Rightarrow> bool) \<Rightarrow> string \<Rightarrow> nat" where
  "run_len P s = length (takeWhile P s)"

definition opt_len :: "char \<Rightarrow> (char \<Rightarrow> bool) \<Rightarrow> string \<Rightarrow> nat" where
  "opt_len d P s = (case s of [] \<Rightarrow> 0
     | c # r \<Rightarrow> if c = d \<and> run_len P r \<noteq> 0 then Suc (run_len P r) else 0)"

definition path_len :: "string \<Rightarrow> nat" where
  "path_len s = (case s of [] \<Rightarrow> 0
     | c # r \<Rightarrow> if c = CHR ''/'' then Suc (run_len path_char r + opt_len (CHR ''?'') (\<lambda>c. \<not> js_ws c) (drop (run_len path_char r) r))
               else 0)"

definition scheme_len :: "string \<Rightarrow> nat" where
  "scheme_len s = (if take 7 s = ''http://'' then 7 else if take 8 s = ''https://'' then 8 else 0)"

definition url_len :: "string \<Rightarrow> nat" where
  "url_len s =
     (let n = scheme_len s; h = run_len host_char (drop n s) in
      if n = 0 \<or> h = 0 then 0
      else let k = n + h + opt_len (CHR '':'') is_digit (drop (n + h) s) in k + path_len (drop k s))"

text \<open>\<open>replace\<close> with the flag g: from left to right, going on behind each match.\<close>

definition anchor :: "string \<Rightarrow> string" where
  "anchor u = ''<a href='' @ [CHR 0x22] @ u @ [CHR 0x22] @ '' title='' @ [CHR 0x22, CHR 0x22] @ ''>'' @ u @ ''</a>''"

function link_urls :: "string \<Rightarrow> string" where
  "link_urls [] = []"
| "link_urls (c # s) =
     (if url_len (c # s) = 0 then c # link_urls s
      else anchor (take (url_len (c # s)) (c # s)) @ link_urls (drop (url_len (c # s)) (c # s)))"
  by pat_completeness auto

termination by (relation "measure length") auto

definition log_render :: "string \<Rightarrow> page \<Rightarrow> page" where
  "log_render data = set_text ''#logSection'' (link_urls data)"

text \<open>
  The button asks the model for the rest of the log; each piece that comes in changes \<open>logData\<close>, and the view
  renders the whole anew. The page is that of the last change.
\<close>

definition log_refresh :: "nat \<Rightarrow> (nat \<Rightarrow> log_reply) \<Rightarrow> job_log \<times> page \<Rightarrow> (job_log \<times> page) result" where
  "log_refresh fuel srv mp = (case mp of (m, p) \<Rightarrow>
     and_then (joblog_refresh fuel srv m) (\<lambda>m'.
       Inr (m', if jl_logData m' = jl_logData m then p else log_render (jl_logData m') p)))"

subsection \<open>The text that is read\<close>

text \<open>What is left of markup without its tags.\<close>

function strip_tags :: "string \<Rightarrow> string" where
  "strip_tags [] = []"
| "strip_tags (c # s) =
     (if c = CHR ''<'' then strip_tags (drop 1 (dropWhile (\<lambda>d. d \<noteq> CHR ''>'') s)) else c # strip_tags s)"
  by pat_completeness auto

termination
proof (relation "measure length")
  show "(drop 1 (dropWhile (\<lambda>d. d \<noteq> CHR ''>'') s), c # s) \<in> measure length" for c s
    using length_dropWhile_le[of "\<lambda>d. d \<noteq> CHR ''>''" s] by simp
qed auto

definition plain :: "string \<Rightarrow> bool" where
  "plain s \<longleftrightarrow> CHR ''<'' \<notin> set s \<and> CHR ''>'' \<notin> set s"

lemma strip_plain: "plain u \<Longrightarrow> strip_tags (u @ s) = u @ strip_tags s"
  by (induction u) (auto simp: plain_def)

lemma strip_tag: "CHR ''>'' \<notin> set t \<Longrightarrow> strip_tags (''<'' @ t @ ''>'' @ s) = strip_tags s"
proof -
  assume t: "CHR ''>'' \<notin> set t"
  have "dropWhile (\<lambda>d. d \<noteq> CHR ''>'') (t @ CHR ''>'' # s) = dropWhile (\<lambda>d. d \<noteq> CHR ''>'') (CHR ''>'' # s)"
    using t by (intro dropWhile_append2) auto
  then show ?thesis by simp
qed

lemma strip_anchor:
  assumes "plain u"
  shows "strip_tags (anchor u @ s) = u @ strip_tags s"
proof -
  let ?t = "''a href='' @ [CHR 0x22] @ u @ [CHR 0x22] @ '' title='' @ [CHR 0x22, CHR 0x22]"
  have "anchor u @ s = ''<'' @ ?t @ ''>'' @ (u @ (''<'' @ ''/a'' @ ''>'' @ s))" by (simp add: anchor_def)
  then have "strip_tags (anchor u @ s) = strip_tags (u @ (''<'' @ ''/a'' @ ''>'' @ s))"
    using strip_tag[of ?t "u @ (''<'' @ ''/a'' @ ''>'' @ s)"] assms by (simp add: plain_def)
  also have "\<dots> = u @ strip_tags (''<'' @ ''/a'' @ ''>'' @ s)" using assms by (rule strip_plain)
  also have "strip_tags (''<'' @ ''/a'' @ ''>'' @ s) = strip_tags s" by (rule strip_tag) simp
  finally show ?thesis .
qed

lemma plain_parts: "plain s \<Longrightarrow> plain (take n s)" "plain s \<Longrightarrow> plain (drop n s)"
  by (auto simp: plain_def dest: in_set_takeD in_set_dropD)

lemma strip_links: "plain s \<Longrightarrow> strip_tags (link_urls s) = s"
proof (induction s rule: link_urls.induct)
  case (2 c s)
  show ?case
  proof (cases "url_len (c # s) = 0")
    case True
    with 2(1)[OF True] 2(3) show ?thesis by (auto simp: plain_def)
  next
    case False
    then show ?thesis
      using 2(2)[OF False] plain_parts[OF 2(3)] strip_anchor by (simp del: take_Cons' drop_Cons')
  qed
qed simp


definition demo_log_server :: "nat \<Rightarrow> log_reply" where
  "demo_log_server off = LogChunk off (min 50000 (length ''see http://a.b:80/c?d e'' - off)) (take 50000 (drop off ''see http://a.b:80/c?d e''))"


subsection \<open>Links\<close>

text \<open>A link leads where its text says, the port and the query included; the blank ends it.\<close>

lemma link_example: "link_urls ''see http://a.b:80/c?d e'' = ''see '' @ anchor ''http://a.b:80/c?d'' @ '' e''"
  by code_simp

lemma url_scheme: "url_len s \<noteq> 0 \<Longrightarrow> (\<exists>r. s = ''http://'' @ r) \<or> (\<exists>r. s = ''https://'' @ r)"
proof -
  assume "url_len s \<noteq> 0"
  then have "take 7 s = ''http://'' \<or> take 8 s = ''https://''"
    by (auto simp: url_len_def scheme_len_def Let_def split: if_splits)
  then show ?thesis by (metis append_take_drop_id)
qed

text \<open>Markup in a log is not escaped, and a quote in a query ends the attribute that holds it.\<close>

lemma markup_survives: "link_urls ''<b>'' = ''<b>''"
  by code_simp

lemma quote_ends_href:
  "link_urls (''http://a/?'' @ [CHR 0x22] @ ''x'') = anchor (''http://a/?'' @ [CHR 0x22] @ ''x'')"
  by code_simp

end
