(* ===== verification/ServerTables.thy ===== *)
theory ServerTables
  imports Page Dates
begin

text \<open>
  Two pages that show tables the server sends as they come: the events of a project (\<open>view/project-logs.js\<close>
  with \<open>ajaxFetchProjectLogEvents\<close> in \<open>ProjectManagerServlet.java\<close>) and the attributes of the management beans
  (\<open>view/jmx.js\<close>). What a browser makes of a text as a date is a parameter: a time, or None for no date.
\<close>

text \<open>A value of an answer; the last kind is any value that is neither text, nor a number, nor null, as text.\<close>

datatype json = JText string | JWhole int | JNull | JOther string

definition js_text :: "json \<Rightarrow> string" where
  "js_text v = (case v of JText s \<Rightarrow> s | JWhole i \<Rightarrow> show_int i | JNull \<Rightarrow> ''null'' | JOther s \<Rightarrow> s)"

definition new_date :: "(string \<Rightarrow> int option) \<Rightarrow> json \<Rightarrow> int option" where
  "new_date parse v = (case v of JText s \<Rightarrow> parse s | JWhole i \<Rightarrow> Some i | JNull \<Rightarrow> Some 0 | JOther s \<Rightarrow> parse s)"

subsection \<open>The events of a project\<close>

definition typeMapping :: "string jsobj" where
  "typeMapping = [(''ERROR'', ''Error''), (''CREATED'', ''Project Created''), (''DELETED'', ''Project Deleted''),
     (''USER_PERMISSION'', ''User Permission''), (''GROUP_PERMISSION'', ''Group Permission''),
     (''DESCRIPTION'', ''Description Set''), (''SCHEDULE'', ''Schedule''), (''UPLOADED'', ''Uploaded'')]"

record log_row =
  lr_time :: string
  lr_user :: string
  lr_type_class :: "string list"
  lr_type :: string
  lr_message :: string

definition column_map :: "string list \<Rightarrow> nat jsobj" where
  "column_map columns = foldl (\<lambda>m i. obj_set (columns ! i) i m) [] [0..<length columns]"

text \<open>A column that is missing, or an event that is too short, gives undefined, which \<open>text\<close> does not write.\<close>

definition event_field :: "nat jsobj \<Rightarrow> json list \<Rightarrow> string \<Rightarrow> json option" where
  "event_field columnMap event name =
     (case obj_get columnMap name of
        None \<Rightarrow> None
      | Some i \<Rightarrow> if i < length event then Some (event ! i) else None)"

definition date_text :: "calendar \<Rightarrow> int option \<Rightarrow> string" where
  "date_text c t = (case t of Some ms \<Rightarrow> getDateFormat c ms | None \<Rightarrow> ''NaN-NaN-NaN  NaN:NaN NaNs'')"

definition written :: "json option \<Rightarrow> string" where
  "written v = (case v of None \<Rightarrow> [] | Some w \<Rightarrow> js_text w)"

definition type_label :: "string \<Rightarrow> string" where
  "type_label type = (case obj_get typeMapping type of Some l \<Rightarrow> l | None \<Rightarrow> type)"

definition event_row :: "calendar \<Rightarrow> (string \<Rightarrow> int option) \<Rightarrow> (string \<Rightarrow> json option) \<Rightarrow> log_row" where
  "event_row c parse field =
     \<lparr>lr_time = date_text c (case field ''time'' of None \<Rightarrow> None | Some v \<Rightarrow> new_date parse v),
      lr_user = written (field ''user''),
      lr_type_class = ''type'' # (case field ''type'' of Some (JText t) \<Rightarrow> [t] | _ \<Rightarrow> []),
      lr_type = (case field ''type'' of None \<Rightarrow> [] | Some v \<Rightarrow> type_label (js_text v)),
      lr_message = written (field ''message'')\<rparr>"

definition project_log_table ::
  "calendar \<Rightarrow> (string \<Rightarrow> int option) \<Rightarrow> string list \<Rightarrow> json list list \<Rightarrow> log_row list" where
  "project_log_table c parse columns logData =
     (let columnMap = column_map columns in map (\<lambda>event. event_row c parse (event_field columnMap event)) logData)"

definition projectlog_request :: "env \<Rightarrow> effect list" where
  "projectlog_request g = [Get (contextURL g @ ''/manager'')
     [(''project'', projectName g), (''ajax'', ''fetchProjectLogs''), (''size'', ''1000''), (''skip'', ''0'')]]"

definition project_log_answer ::
  "calendar \<Rightarrow> (string \<Rightarrow> int option) \<Rightarrow> string option \<Rightarrow> string list \<Rightarrow> json list list \<Rightarrow> log_row list \<Rightarrow> log_row list \<times> effect list" where
  "project_log_answer c parse err columns logData shown =
     (if truthy err then (shown, [Dialog ''Error'' (text_of err)])
      else (project_log_table c parse columns logData, []))"

text \<open>What the server sends.\<close>

record log_event =
  le_user :: string
  le_time :: int
  le_type :: string
  le_message :: string

definition ajaxFetchProjectLogEvents :: "log_event list \<Rightarrow> string list \<times> json list list" where
  "ajaxFetchProjectLogEvents es =
     ([''user'', ''time'', ''type'', ''message''],
      map (\<lambda>e. [JText (le_user e), JWhole (le_time e), JText (le_type e), JText (le_message e)]) es)"

lemma column_map_get:
  "obj_get (column_map columns) name =
     (if name \<in> set columns then Some (GREATEST i. i < length columns \<and> columns ! i = name) else None)"
proof -
  have "obj_get (foldl (\<lambda>m i. obj_set (columns ! i) i m) [] [0..<k]) name =
      (if \<exists>i<k. columns ! i = name then Some (GREATEST i. i < k \<and> columns ! i = name) else None)" for k
  proof (induction k)
    case (Suc k)
    show ?case
    proof (cases "columns ! k = name")
      case True
      then have "(GREATEST i. i < Suc k \<and> columns ! i = name) = k" by (intro Greatest_equality) auto
      with True show ?thesis by auto
    next
      case False
      then have "(i < Suc k \<and> columns ! i = name) = (i < k \<and> columns ! i = name)" for i by (metis less_Suc_eq)
      with False Suc show ?thesis by simp
    qed
  qed simp
  then show ?thesis by (simp add: column_map_def in_set_conv_nth)
qed

lemma event_field_by_name:
  assumes "name \<in> set columns"
  shows "event_field (column_map columns) (map f columns) name = Some (f name)"
proof -
  let ?P = "\<lambda>i. i < length columns \<and> columns ! i = name"
  obtain i where "?P i" using assms by (auto simp: in_set_conv_nth)
  then have "?P (Greatest ?P)" by (rule GreatestI_nat[where b = "length columns"]) auto
  then show ?thesis using assms by (simp add: event_field_def column_map_get)
qed

text \<open>
  The page of the events goes by the names of the columns: whatever columns the server sends, in whatever
  order, if the four that are shown are among them then every event is shown with its own time, user, type and
  message, in the order of the events.
\<close>

theorem project_log_by_name:
  assumes "set [''user'', ''time'', ''type'', ''message''] \<subseteq> set columns"
  shows "project_log_table c parse columns (map (\<lambda>f. map f columns) events) =
    map (\<lambda>f. event_row c parse (\<lambda>name. Some (f name))) events"
  using assms by (simp add: project_log_table_def Let_def event_row_def event_field_by_name)

text \<open>What the page shows of an event of the server.\<close>

lemma server_fields:
  assumes "columns = [''user'', ''time'', ''type'', ''message'']"
  shows "event_field (column_map columns) [a, b, d, e] ''user'' = Some a"
    "event_field (column_map columns) [a, b, d, e] ''time'' = Some b"
    "event_field (column_map columns) [a, b, d, e] ''type'' = Some d"
    "event_field (column_map columns) [a, b, d, e] ''message'' = Some e"
proof -
  have "column_map columns = [(''user'', 0), (''time'', 1), (''type'', 2), (''message'', 3)]"
    unfolding assms by code_simp
  then show "event_field (column_map columns) [a, b, d, e] ''user'' = Some a"
    "event_field (column_map columns) [a, b, d, e] ''time'' = Some b"
    "event_field (column_map columns) [a, b, d, e] ''type'' = Some d"
    "event_field (column_map columns) [a, b, d, e] ''message'' = Some e"
    by (simp_all add: event_field_def obj_get_def)
qed

lemma server_events_shown:
  "case_prod (project_log_table c parse) (ajaxFetchProjectLogEvents es) =
     map (\<lambda>e. \<lparr>lr_time = getDateFormat c (le_time e), lr_user = le_user e, lr_type_class = [''type'', le_type e],
       lr_type = type_label (le_type e), lr_message = le_message e\<rparr>) es"
  by (simp add: project_log_table_def Let_def ajaxFetchProjectLogEvents_def event_row_def server_fields
      date_text_def new_date_def written_def js_text_def)

theorem project_log_by_name_witness:
  "map lr_user (project_log_table (zone 0) (\<lambda>_. None) [''message'', ''type'', ''id'', ''time'', ''user'']
     [map (\<lambda>n. JText n) [''message'', ''type'', ''id'', ''time'', ''user'']]) = [''user'']"
  using project_log_by_name[of "[''message'', ''type'', ''id'', ''time'', ''user'']" "zone 0" "\<lambda>_. None" "[JText]"]
  by (simp add: event_row_def written_def js_text_def)

text \<open>Three of the types of events that the server has are not in the table and are shown as they are.\<close>

lemma unmapped_types: "map type_label [''SLA'', ''PROXY_USER'', ''PURGE''] = [''SLA'', ''PROXY_USER'', ''PURGE'']"
  by code_simp

subsection \<open>Management beans\<close>

definition TIMESTAMP_LENGTH :: nat where
  "TIMESTAMP_LENGTH = 13"

definition pad :: "nat \<Rightarrow> int \<Rightarrow> string" where
  "pad k i = replicate (k - length (show_nat (nat i))) (CHR ''0'') @ show_nat (nat i)"

text \<open>\<open>toISOString\<close>, in the calendar of Greenwich.\<close>

definition toISOString :: "int \<Rightarrow> string" where
  "toISOString t = (let c = zone 0; y = year_of c t in
     (if 0 \<le> y \<and> y \<le> 9999 then pad 4 y else (if y < 0 then ''-'' else ''+'') @ pad 6 \<bar>y\<bar>) @ ''-'' @
     pad 2 (month_of c t + 1) @ ''-'' @ pad 2 (date_of c t) @ ''T'' @ pad 2 (hours_of c t) @ '':'' @
     pad 2 (minutes_of c t) @ '':'' @ pad 2 (seconds_of c t) @ ''.'' @ pad 3 (t mod 1000) @ ''Z'')"

definition formatValue :: "(string \<Rightarrow> int option) \<Rightarrow> json \<Rightarrow> string result" where
  "formatValue parse v =
     (if length (js_text v) \<noteq> TIMESTAMP_LENGTH then Inr (js_text v)
      else if parseInt (js_text v) = NaN then Inr (js_text v)
      else (case new_date parse v of
              None \<Rightarrow> Inl RangeError
            | Some t \<Rightarrow> if t \<le> 0 then Inr (js_text v) else Inr (js_text v @ '' ('' @ toISOString t @ '')'')))"

text \<open>The rows are appended one by one, so those before an exception stay; the flag is whether the table is faded in.\<close>

fun jmx_rows :: "(string \<Rightarrow> int option) \<Rightarrow> (string \<times> json) list \<Rightarrow> (string \<times> string) list \<times> bool" where
  "jmx_rows parse [] = ([], True)"
| "jmx_rows parse ((key, v) # attributes) =
     (case formatValue parse v of
        Inl e \<Rightarrow> ([], False)
      | Inr s \<Rightarrow> (case jmx_rows parse attributes of (rows, shown) \<Rightarrow> ((key, s) # rows, shown)))"

definition queryJMX :: "env \<Rightarrow> string \<Rightarrow> string \<Rightarrow> string \<Rightarrow> effect list" where
  "queryJMX g domain name hostPort =
     [Get (contextURL g @ ''/jmx'')
       ((''ajax'', if hostPort \<noteq> [] then ''getAllExecutorAttributes'' else ''getAllMBeanAttributes'') #
        (''mBean'', domain @ '':name='' @ name) # (if hostPort \<noteq> [] then [(''hostPort'', hostPort)] else []))]"

definition queryRemote :: "env \<Rightarrow> string \<Rightarrow> string \<Rightarrow> string \<Rightarrow> effect list" where
  "queryRemote g domain name hostPort =
     [Get (contextURL g @ ''/jmx'') [(''ajax'', ''getAllExecutorAttributes''), (''mBean'', domain @ '':name='' @ name), (''hostPort'', hostPort)]]"

definition queryJMX_answer ::
  "(string \<Rightarrow> int option) \<Rightarrow> string \<Rightarrow> (string \<times> json) list \<Rightarrow> page \<Rightarrow> page \<times> (string \<times> string) list" where
  "queryJMX_answer parse el attributes p =
     (case jmx_rows parse attributes of (rows, shown) \<Rightarrow> (if shown then show_el (''#'' @ el @ ''-child'') p else p, rows))"

text \<open>A value that the code takes for a timestamp, and that is no date.\<close>

definition false_stamp :: "(string \<Rightarrow> int option) \<Rightarrow> json \<Rightarrow> bool" where
  "false_stamp parse v \<longleftrightarrow> length (js_text v) = 13 \<and> parseInt (js_text v) \<noteq> NaN \<and> new_date parse v = None"

lemma formatValue_throws: "formatValue parse v = Inl e \<longleftrightarrow> false_stamp parse v \<and> e = RangeError"
  by (auto simp: formatValue_def false_stamp_def TIMESTAMP_LENGTH_def split: option.splits)

lemma jmx_rows_spec:
  "map fst (fst (jmx_rows parse attributes)) = map fst (takeWhile (\<lambda>a. \<not> false_stamp parse (snd a)) attributes) \<and>
   (snd (jmx_rows parse attributes) \<longleftrightarrow> (\<forall>a \<in> set attributes. \<not> false_stamp parse (snd a)))"
proof (induction parse attributes rule: jmx_rows.induct)
  case (2 parse key v attributes)
  show ?case
  proof (cases "formatValue parse v")
    case (Inl e)
    then show ?thesis using formatValue_throws[of parse v e] by simp
  next
    case (Inr s)
    then have "\<not> false_stamp parse v" using formatValue_throws[of parse v RangeError] by auto
    then show ?thesis using Inr 2(1)[OF Inr] by (auto split: prod.splits)
  qed
qed simp

text \<open>
  The table of a bean is shown, and has a row for each attribute, exactly if no attribute is a text of 13
  characters that begins like a number and is not a date; otherwise it ends before the first one and is not shown.
\<close>

theorem jmx_table_complete:
  assumes "\<not> pg_shown p (''#'' @ el @ ''-child'')"
  shows "(pg_shown (fst (queryJMX_answer parse el attributes p)) (''#'' @ el @ ''-child'') \<longleftrightarrow>
      (\<forall>a \<in> set attributes. \<not> false_stamp parse (snd a))) \<and>
    map fst (snd (queryJMX_answer parse el attributes p)) = map fst (takeWhile (\<lambda>a. \<not> false_stamp parse (snd a)) attributes)"
  using jmx_rows_spec[of parse attributes] assms
  by (cases "jmx_rows parse attributes") (simp add: queryJMX_answer_def)

theorem jmx_table_complete_witness:
  "\<not> pg_shown (fst (queryJMX_answer (\<lambda>_. None) ''m'' [(''Up'', JWhole 1369181234567), (''State'', JText ''3 active jobs'')]
      (hide_el ''#m-child'' blank_page))) ''#m-child''"
proof -
  have "false_stamp (\<lambda>_. None) (JText ''3 active jobs'')" by code_simp
  then show ?thesis
    using jmx_table_complete[of "hide_el ''#m-child'' blank_page" "''m''" "\<lambda>_. None"
      "[(''Up'', JWhole 1369181234567), (''State'', JText ''3 active jobs'')]"] by simp
qed

lemma iso_example: "toISOString 1369181234567 = ''2013-05-22T00:07:14.567Z''"
  by code_simp

end
