(* ===== verification/SmallViews.thy ===== *)
theory SmallViews
  imports ExecDialog LocalTime
begin

text \<open>
  The small views: the message dialog (\<open>view/message-dialog.js\<close>) and the panel that uses it
  (\<open>view/schedule-panel.js\<close>), the login (\<open>view/login.js\<close>), the tabs of the executions
  (\<open>view/executions.js\<close>), the filter of the history (\<open>view/history.js\<close>), the history by day
  (\<open>view/history-day.js\<close>) and the panel of the properties of a node (\<open>view/flow-extended.js\<close>).
\<close>

subsection \<open>The message dialog\<close>

text \<open>A callback is what it does to the page. Every \<open>show\<close> adds a handler to the event of the closed dialog.\<close>

record message_dialog =
  md_title :: string
  md_text :: string
  md_callback :: "effect list option"
  md_handlers :: "effect list option list"

definition md_show :: "string \<Rightarrow> string \<Rightarrow> effect list option \<Rightarrow> message_dialog \<Rightarrow> message_dialog \<times> effect list" where
  "md_show title message callback d =
     (d\<lparr>md_title := title, md_text := message, md_callback := callback, md_handlers := md_handlers d @ [callback]\<rparr>,
      [Modal ''#azkaban-message-dialog''])"

definition md_hidden :: "message_dialog \<Rightarrow> effect list" where
  "md_hidden d = concat (map (\<lambda>h. case h of None \<Rightarrow> [] | Some fx \<Rightarrow> fx) (md_handlers d))"

definition fresh_dialog :: message_dialog where
  "fresh_dialog = \<lparr>md_title = [], md_text = [], md_callback = None, md_handlers = []\<rparr>"

text \<open>
  A session of a page: dialogs are shown and closed, one at a time; a callback leaves the page. The list has, for
  each dialog that was closed, its callback and what happened.
\<close>

inductive md_session :: "message_dialog \<Rightarrow> bool \<Rightarrow> (effect list option \<times> effect list) list \<Rightarrow> bool" where
  md_start: "md_session fresh_dialog False []"
| md_shown: "md_session d False gone \<Longrightarrow> md_callback d = None \<Longrightarrow> md_session (fst (md_show t m cb d)) True gone"
| md_closed: "md_session d True gone \<Longrightarrow> md_session d False (gone @ [(md_callback d, md_hidden d)])"

inductive_cases md_sessionE: "md_session d up gone"

definition earlier_handlers :: "message_dialog \<Rightarrow> effect list option list" where
  "earlier_handlers d = butlast (md_handlers d)"

lemma md_session_handlers:
  "md_session d up gone \<Longrightarrow> (\<forall>h \<in> set (earlier_handlers d). h = None) \<and>
     (md_handlers d = [] \<and> md_callback d = None \<or> md_handlers d \<noteq> [] \<and> last (md_handlers d) = md_callback d)"
proof (induction rule: md_session.induct)
  case (md_shown d gone t m cb)
  have "\<forall>h \<in> set (md_handlers d). h = None"
  proof (cases "md_handlers d = []")
    case False
    then have "md_handlers d = earlier_handlers d @ [None]"
      using md_shown.IH md_shown.hyps(2) append_butlast_last_id[OF False] by (simp add: earlier_handlers_def)
    then show ?thesis using md_shown.IH by (metis Un_iff empty_iff list.set(1) set_append set_ConsD)
  qed simp
  then show ?case by (simp add: md_show_def earlier_handlers_def)
qed (auto simp: fresh_dialog_def earlier_handlers_def)

lemma quiet_handlers: "\<forall>h \<in> set hs. h = None \<Longrightarrow> concat (map (\<lambda>h. case h of None \<Rightarrow> [] | Some fx \<Rightarrow> fx) hs) = []"
  by (induction hs) auto

lemma md_hidden_own:
  assumes "md_session d True gone"
  shows "md_hidden d = (case md_callback d of None \<Rightarrow> [] | Some fx \<Rightarrow> fx)"
proof -
  have up: "md_handlers d \<noteq> []" using assms by (cases rule: md_session.cases) (auto simp: md_show_def)
  then have "md_handlers d = earlier_handlers d @ [md_callback d]"
    using md_session_handlers[OF assms] append_butlast_last_id[OF up] by (simp add: earlier_handlers_def)
  then show ?thesis
    unfolding md_hidden_def using md_session_handlers[OF assms] by (simp add: quiet_handlers split: option.splits)
qed

text \<open>
  Although the handlers of a message dialog pile up, closing it runs the callback of that dialog and of no
  other, as long as one dialog is shown at a time and a callback leaves the page, as all callbacks here do.
\<close>

theorem dialog_runs_own_callback:
  assumes "md_session d up gone"
  shows "list_all (\<lambda>(cb, fx). fx = (case cb of None \<Rightarrow> [] | Some e \<Rightarrow> e)) gone"
  using assms by induction (auto simp: md_hidden_own)

theorem dialog_runs_own_callback_witness:
  "list_all (\<lambda>(cb, fx). fx = (case cb of None \<Rightarrow> [] | Some e \<Rightarrow> e))
     (let d = fst (md_show ''Error'' ''busy'' None fresh_dialog); d' = fst (md_show ''Done'' ''ok'' (Some [Reload]) d)
      in [(md_callback d, md_hidden d), (md_callback d', md_hidden d')])"
proof -
  define d where "d = fst (md_show ''Error'' ''busy'' None fresh_dialog)"
  define d' where "d' = fst (md_show ''Done'' ''ok'' (Some [Reload]) d)"
  have "md_session d True []"
    unfolding d_def by (rule md_shown[OF md_start]) (simp add: fresh_dialog_def)
  then have s: "md_session d False ([] @ [(md_callback d, md_hidden d)])" by (rule md_closed)
  have "md_session d' True ([] @ [(md_callback d, md_hidden d)])"
    unfolding d'_def by (rule md_shown[OF s]) (simp add: d_def md_show_def)
  from dialog_runs_own_callback[OF md_closed[OF this]]
  show ?thesis by (simp add: Let_def d_def d'_def)
qed

text \<open>Two dialogs that are open at once, as after two answers: closing runs both callbacks.\<close>

lemma both_callbacks:
  "md_hidden (fst (md_show t2 m2 (Some b) (fst (md_show t1 m1 (Some a) fresh_dialog)))) = a @ b"
  by (simp add: md_show_def md_hidden_def fresh_dialog_def)

subsection \<open>The panel of a schedule\<close>

text \<open>\<open>moment\<close>, the library that turns the time of the picker into hour, minute and half of the day, is a parameter.\<close>

definition showSchedulePanel :: "effect list" where
  "showSchedulePanel = [Modal ''#schedule-modal'']"

definition hideSchedulePanel :: "effect list" where
  "hideSchedulePanel = [CloseModal ''#schedule-modal'']"

definition scheduleFlow ::
  "(string \<Rightarrow> string) \<Rightarrow> env \<Rightarrow> string \<Rightarrow> string \<Rightarrow> jnode \<Rightarrow> edit_row list \<Rightarrow> page \<Rightarrow> effect list" where
  "scheduleFlow moment g project flow data rows p =
     (let scheduleData = getExecutionOptionData g project flow data rows p;
          scheduleTime = moment (pg_val p ''#timepicker'') @ pg_val p ''#timezone'';
          is_recurring = (if is_checked ''#is_recurring'' p then ''on'' else ''off'');
          period = pg_val p ''#period'' @ pg_val p ''#period_units''
      in [Post (contextURL g @ ''/schedule'')
            (seq [obj_set ''ajax'' ''scheduleFlow'', obj_set ''projectName'' (projectName g), obj_set ''scheduleTime'' scheduleTime,
                  obj_set ''scheduleDate'' (pg_val p ''#datepicker''), obj_set ''is_recurring'' is_recurring,
                  obj_set ''period'' period] scheduleData)])"

definition schedule_panel_answer ::
  "env \<Rightarrow> string option \<Rightarrow> string \<Rightarrow> message_dialog \<Rightarrow> message_dialog \<times> effect list" where
  "schedule_panel_answer g err message d =
     (case (if truthy err then md_show ''Error Scheduling Flow'' message None d
            else md_show ''Flow Scheduled'' message (Some [Redirect (contextURL g @ ''/schedule'')]) d) of
        (d, fx) \<Rightarrow> (d, hideSchedulePanel @ fx))"

text \<open>The request has what the execution dialog would send, under another action, and the time.\<close>

lemma scheduleFlow_fields:
  assumes "scheduleFlow moment g project flow data rows p = [Post url sent]"
  shows "obj_get sent ''ajax'' = Some ''scheduleFlow''"
    "k \<notin> {''ajax'', ''projectName'', ''scheduleTime'', ''scheduleDate'', ''is_recurring'', ''period''} \<Longrightarrow>
     obj_get sent k = obj_get (getExecutionOptionData g project flow data rows p) k"
  using assms by (auto simp: scheduleFlow_def Let_def)

subsection \<open>Login\<close>

definition login_initialize :: "page \<Rightarrow> page" where
  "login_initialize = hide_el ''#error-msg''"

definition handleLogin :: "env \<Rightarrow> page \<Rightarrow> effect list" where
  "handleLogin g p = [Post (contextURL g)
     [(''action'', ''login''), (''username'', pg_val p ''#username''), (''password'', pg_val p ''#password'')]]"

definition login_answer :: "string option \<Rightarrow> page \<Rightarrow> page \<times> effect list" where
  "login_answer err p =
     (if truthy err then (seq [set_text ''#error-msg'' (text_of err), show_el ''#error-msg''] p, []) else (p, [Reload]))"

definition handleKeyPress :: "env \<Rightarrow> int \<Rightarrow> int \<Rightarrow> page \<Rightarrow> effect list" where
  "handleKeyPress g charCode keyCode p = (if charCode = 13 \<or> keyCode = 13 then handleLogin g p else [])"

subsection \<open>The tabs of the executions\<close>

definition handleCurrentlyRunningViewLinkClick :: "page \<Rightarrow> page" where
  "handleCurrentlyRunningViewLinkClick = seq
     [jq_removeClass ''#recently-finished-view-link'' ''active'', hide_el ''#recently-finished-view'',
      jq_addClass ''#currently-running-view-link'' ''active'', show_el ''#currently-running-view'']"

definition handleRecentlyFinishedViewLinkClick :: "page \<Rightarrow> page" where
  "handleRecentlyFinishedViewLinkClick = seq
     [jq_removeClass ''#currently-running-view-link'' ''active'', hide_el ''#currently-running-view'',
      jq_addClass ''#recently-finished-view-link'' ''active'', show_el ''#recently-finished-view'']"

definition executions_initialize :: "string \<Rightarrow> page \<Rightarrow> page" where
  "executions_initialize selectedView p =
     (if selectedView = ''recently-finished'' then handleRecentlyFinishedViewLinkClick p
      else handleCurrentlyRunningViewLinkClick p)"

text \<open>The page calls a method that the view does not have. The view is made without a selected view.\<close>

definition executions_ready :: "string \<Rightarrow> page \<Rightarrow> page result" where
  "executions_ready hash p =
     (let p = executions_initialize ''undefined'' p
      in if hash = ''#recently-finished'' then Inl TypeError else Inr p)"

lemma executions_tabs:
  "only_active [''#recently-finished-view-link'', ''#currently-running-view-link''] (handleRecentlyFinishedViewLinkClick p) ''#recently-finished-view-link''"
  "only_shown [''#recently-finished-view'', ''#currently-running-view''] (handleRecentlyFinishedViewLinkClick p) ''#recently-finished-view''"
  "only_active [''#recently-finished-view-link'', ''#currently-running-view-link''] (handleCurrentlyRunningViewLinkClick p) ''#currently-running-view-link''"
  "only_shown [''#recently-finished-view'', ''#currently-running-view''] (handleCurrentlyRunningViewLinkClick p) ''#currently-running-view''"
  by (simp_all add: only_active_def only_shown_def handleRecentlyFinishedViewLinkClick_def handleCurrentlyRunningViewLinkClick_def)

subsection \<open>The filter of the history\<close>

definition handleAdvFilter :: "env \<Rightarrow> page \<Rightarrow> effect list" where
  "handleAdvFilter g p = [Redirect (contextURL g @ ''/history'' @ ''?advfilter=true'' @
     ''&projcontain='' @ pg_val p ''#projcontain'' @ ''&flowcontain='' @ pg_val p ''#flowcontain'' @
     ''&usercontain='' @ pg_val p ''#usercontain'' @ ''&status='' @ pg_val p ''#status'' @
     ''&begin='' @ pg_val p ''#datetimebegin'' @ ''&end='' @ pg_val p ''#datetimeend'')]"

definition filter_fields :: "string list" where
  "filter_fields = [''#projcontain'', ''#flowcontain'', ''#usercontain'', ''#status'', ''#datetimebegin'', ''#datetimeend'']"

text \<open>The fields are not encoded: the address tells two filters apart if no field has the separator, and else not always.\<close>

lemma filter_address_injective:
  assumes "handleAdvFilter g p = handleAdvFilter g q"
    "\<forall>f \<in> set filter_fields. CHR ''&'' \<notin> set (pg_val p f) \<and> CHR ''&'' \<notin> set (pg_val q f)" "f \<in> set filter_fields"
  shows "pg_val p f = pg_val q f"
proof -
  let ?a = "\<lambda>r. [''projcontain='' @ pg_val r ''#projcontain'', ''flowcontain='' @ pg_val r ''#flowcontain'',
     ''usercontain='' @ pg_val r ''#usercontain'', ''status='' @ pg_val r ''#status'',
     ''begin='' @ pg_val r ''#datetimebegin'', ''end='' @ pg_val r ''#datetimeend'']"
  have "join ''&'' (?a p) = join ''&'' (?a q)" using assms(1) by (simp add: handleAdvFilter_def)
  then have "?a p = ?a q" by (rule join_inj) (use assms(2) in \<open>simp_all add: filter_fields_def\<close>)
  then show ?thesis using assms(3) by (auto simp: filter_fields_def)
qed

lemma filter_address_ambiguous:
  "handleAdvFilter g (set_val ''#projcontain'' ''a&flowcontain=b'' (set_val ''#flowcontain'' ''c'' blank_page)) =
   handleAdvFilter g (set_val ''#projcontain'' ''a'' (set_val ''#flowcontain'' ''b&flowcontain=c'' blank_page))"
  by (simp add: handleAdvFilter_def blank_page_def)

subsection \<open>The history by day\<close>

text \<open>\<open>move\<close> is the date at the same time of day some days later, as \<open>setDate\<close> finds it.\<close>

definition day_request :: "env \<Rightarrow> calendar \<Rightarrow> (int \<Rightarrow> int \<Rightarrow> int) \<Rightarrow> int \<Rightarrow> effect list" where
  "day_request g c move now =
     (let start = midnight c now; end = start; start = move start (- 7); end = move end 1
      in [Get (contextURL g @ ''/history'') [(''ajax'', ''fetch''), (''start'', show_int start), (''end'', show_int end)]])"

subsection \<open>The panel of a node\<close>

definition extended_render :: "string \<Rightarrow> string \<Rightarrow> string jsobj \<Rightarrow> page \<times> (string \<times> string) list \<Rightarrow> (page \<times> (string \<times> string) list) \<times> effect list" where
  "extended_render nodeid type props pr = (case pr of (p, rows) \<Rightarrow>
     let p = seq [set_text ''.nodeId'' nodeid, set_text ''.nodeType'' type] p; rows = rows @ props
     in if type = ''flow'' then ((p, rows), [Call ''new SvgGraphView'' [''.dataFlow'']]) else ((hide_el ''.dataFlow'' p, rows), []))"

end
