(* ===== verification/ScheduleGrid.thy ===== *)
theory ScheduleGrid
  imports ScheduleWeek Page
begin

text \<open>
  The frame of the calendar in \<open>view/schedule-svg.js\<close>: the week in the address of the page and the buttons that
  change it, the grid and the mark of today, the requests, and what the mouse does. \<open>Date\<close> made of year, month and day
  is a parameter, None for no date; its contract with the calendar is the locale \<open>dates\<close>.
\<close>

subsection \<open>The week in the address\<close>

definition week_hash :: "calendar \<Rightarrow> int \<Rightarrow> string" where
  "week_hash c t = ''#'' @ join ''-'' [show_int (year_of c t), show_int (month_of c t + 1), show_int (date_of c t)]"

text \<open>A part that is missing is parsed as the text \<open>undefined\<close>. Years up to 99 are counted from 1900.\<close>

definition part_number :: "string list \<Rightarrow> nat \<Rightarrow> jsnum" where
  "part_number parts i = (if i < length parts then parseInt (parts ! i) else NaN)"

definition new_date_of :: "(int \<Rightarrow> int \<Rightarrow> int \<Rightarrow> int option) \<Rightarrow> int \<Rightarrow> int \<Rightarrow> int \<Rightarrow> int option" where
  "new_date_of ymd y m d = ymd (if 0 \<le> y \<and> y \<le> 99 then 1900 + y else y) m d"

definition read_hash :: "(int \<Rightarrow> int \<Rightarrow> int \<Rightarrow> int option) \<Rightarrow> int \<Rightarrow> string \<Rightarrow> int" where
  "read_hash ymd usual hash =
     (if hash = [] then usual
      else (let dateParts = split_on (CHR ''-'') (remove1 (CHR ''#'') hash) in
        (case (part_number dateParts 0, part_number dateParts 1, part_number dateParts 2) of
           (Fin y, Fin m, Fin d) \<Rightarrow> (case new_date_of ymd \<lfloor>y\<rfloor> (\<lfloor>m\<rfloor> - 1) \<lfloor>d\<rfloor> of None \<Rightarrow> usual | Some t \<Rightarrow> t)
         | _ \<Rightarrow> usual)))"

text \<open>The Sunday of this week at the present time of day; \<open>move\<close> is \<open>setDate\<close>.\<close>

definition default_date :: "calendar \<Rightarrow> (int \<Rightarrow> int \<Rightarrow> int) \<Rightarrow> int \<Rightarrow> int" where
  "default_date c move now = move now (- weekday_of c now)"

datatype week_button = PrevWeek | NextWeek | ThisWeek

fun week_click :: "calendar \<Rightarrow> int \<Rightarrow> week_button \<Rightarrow> int \<Rightarrow> int \<times> string" where
  "week_click c usual PrevWeek svgDate = (svgDate - 7 * day_ms, week_hash c (svgDate - 7 * day_ms))"
| "week_click c usual NextWeek svgDate = (svgDate + 7 * day_ms, week_hash c (svgDate + 7 * day_ms))"
| "week_click c usual ThisWeek svgDate = (usual, week_hash c usual)"

text \<open>\<open>firstDay\<close> in \<open>loadSvg\<close>.\<close>

definition first_day :: "calendar \<Rightarrow> (int \<Rightarrow> int \<Rightarrow> int \<Rightarrow> int option) \<Rightarrow> int \<Rightarrow> int option" where
  "first_day c ymd svgDate = new_date_of ymd (year_of c svgDate) (month_of c svgDate) (date_of c svgDate)"

subsection \<open>The grid\<close>

abbreviation border :: rat where "border \<equiv> 20"

abbreviation header :: rat where "header \<equiv> 30"

abbreviation lineHeight :: rat where "lineHeight \<equiv> 40"

definition monthConst :: "string list" where
  "monthConst = [''January'', ''February'', ''March'', ''April'', ''May'', ''June'', ''July'', ''August'', ''September'',
     ''October'', ''November'', ''December'']"

definition dayOfWeekConst :: "string list" where
  "dayOfWeekConst = [''Sunday'', ''Monday'', ''Tuesday'', ''Wednesday'', ''Thursday'', ''Friday'', ''Saturday'', ''Sunday'']"

definition month_indicator :: "calendar \<Rightarrow> int \<Rightarrow> string" where
  "month_indicator c t = monthConst ! nat (month_of c t) @ '' '' @ show_int (year_of c t)"

text \<open>The sizes; \<open>measured\<close> is the width of the month on the screen.\<close>

definition time_width :: "rat \<Rightarrow> rat" where
  "time_width measured = max 80 measured"

definition day_width :: "rat \<Rightarrow> rat \<Rightarrow> int" where
  "day_width totalWidth timeWidth = \<lfloor>(totalWidth - 3 * border - timeWidth) / 7\<rfloor>"

record day_frame =
  df_x :: rat
  df_today :: bool
  df_title :: string

definition same_date :: "calendar \<Rightarrow> int \<Rightarrow> int \<Rightarrow> bool" where
  "same_date c a b \<longleftrightarrow> year_of c a = year_of c b \<and> month_of c a = month_of c b \<and> date_of c a = date_of c b"

definition day_frame_at :: "calendar \<Rightarrow> int \<Rightarrow> int \<Rightarrow> rat \<Rightarrow> int \<Rightarrow> nat \<Rightarrow> day_frame" where
  "day_frame_at c firstDay today timeWidth dayWidth deltaDay =
     (let date = firstDay + day_ms * int deltaDay
      in \<lparr>df_x = border + timeWidth + of_nat deltaDay * of_int dayWidth, df_today = same_date c date today,
          df_title = show_int (date_of c date) @ '' '' @ dayOfWeekConst ! nat (weekday_of c date)\<rparr>)"

text \<open>The lines of the hours with their texts, the days, and the line of the present time in the day of today.\<close>

record grid =
  gr_hours :: "(rat \<times> string) list"
  gr_days :: "day_frame list"
  gr_now :: "(rat \<times> int) option"

definition isThisWeek :: "day_frame list \<Rightarrow> int" where
  "isThisWeek ds = foldl (\<lambda>w i. if df_today (ds ! i) then int i else w) (-1) [0..<length ds]"

definition draw_grid :: "calendar \<Rightarrow> int \<Rightarrow> int \<Rightarrow> rat \<Rightarrow> int \<Rightarrow> grid" where
  "draw_grid c firstDay today timeWidth dayWidth =
     (let days = map (day_frame_at c firstDay today timeWidth dayWidth) [0..<7]; k = isThisWeek days
      in \<lparr>gr_hours = map (\<lambda>i. (of_nat i * lineHeight, getHourText (int i))) [0..<24], gr_days = days,
          gr_now = (if k \<noteq> -1
             then Some (border + timeWidth + of_int k * of_int dayWidth, hours_of c today * 40 + minutes_of c today * 40 div 60)
             else None)\<rparr>)"

subsection \<open>Requests and the mouse\<close>

definition calendar_requests :: "env \<Rightarrow> int \<Rightarrow> effect list" where
  "calendar_requests g firstDay =
     Get (contextURL g @ ''/schedule'') [(''ajax'', ''loadFlow'')] #
     map (\<lambda>d. Get (contextURL g @ ''/schedule'') [(''ajax'', ''loadHistory''),
       (''startTime'', show_int (firstDay + int d * day_ms)), (''loadAll'', ''0'')]) [0..<7]"

datatype menu_action = Nothing | Does effect | HideFlow | HideProject

definition calendar_menu :: "string \<Rightarrow> item \<Rightarrow> (string \<times> menu_action) list" where
  "calendar_menu requestURL it =
     [(''Job '' @ [CHR 0x22] @ i_flow it @ [CHR 0x22] @ '' From Project '' @ [CHR 0x22] @ i_project it @ [CHR 0x22], Nothing),
      (''View Job'', Does (Redirect requestURL)), (''View Job in New Window'', Does (OpenWindow requestURL)),
      (''Hide Job'', HideFlow), (''Hide All Jobs From the Same Project'', HideProject)]"

fun calendar_choose :: "menu_action \<Rightarrow> item \<Rightarrow> filters \<Rightarrow> filters \<times> effect list" where
  "calendar_choose Nothing it f = (f, [])"
| "calendar_choose (Does e) it f = (f, [e])"
| "calendar_choose HideFlow it f = (hide_flow it f, [])"
| "calendar_choose HideProject it f = (hide_project it f, [])"

text \<open>The boxes of a schedule are highlighted together; \<open>fills\<close> are the colours of its boxes, in order.\<close>

definition handleMouseOver :: "week \<Rightarrow> item \<Rightarrow> string list \<Rightarrow> string list" where
  "handleMouseOver w obj fills = (case map_of (w_byId w) (i_id obj) of None \<Rightarrow> fills | Some arry \<Rightarrow> map (\<lambda>_. ''#FF0'') arry)"

definition handleMouseOut :: "week \<Rightarrow> item \<Rightarrow> string list \<Rightarrow> string list" where
  "handleMouseOut w obj fills =
     (case map_of (w_byId w) (i_id obj) of None \<Rightarrow> fills | Some arry \<Rightarrow> map (\<lambda>o'. s_color (i_sched o')) arry)"

subsection \<open>Days and dates\<close>

text \<open>The day number of a date, the inverse of \<open>civil\<close>.\<close>

definition day_number :: "int \<Rightarrow> int \<Rightarrow> int \<Rightarrow> int" where
  "day_number y m d =
     (let y' = (if m \<le> 1 then y - 1 else y); era = y' div 400; yoe = y' mod 400;
          mp = (if 2 \<le> m then m - 2 else m + 10); doy = (153 * mp + 2) div 5 + d - 1
      in era * 146097 + (yoe * 365 + yoe div 4 - yoe div 100 + doy) - 719468)"

definition zone_new :: "int \<Rightarrow> int \<Rightarrow> int \<Rightarrow> int \<Rightarrow> int option" where
  "zone_new off y m d = Some (day_number y m d * day_ms - off)"

text \<open>Four centuries are three of 36524 days and one more of them with a last day; and so on down to the year.\<close>

lemma div_iff: "0 < b \<Longrightarrow> a div b = k \<longleftrightarrow> k * b \<le> a \<and> a < k * b + b" for a b k :: int
proof
  assume "0 < b" "k * b \<le> a \<and> a < k * b + b"
  then show "a div b = k" using int_div_pos_eq[of a b k "a - k * b"] by (simp add: mult.commute)
next
  assume b: "0 < b" and k: "a div b = k"
  have "k * b + a mod b = a" using div_mult_mod_eq[of a b] by (simp add: k)
  with pos_mod_sign[OF b, of a] pos_mod_bound[OF b, of a] show "k * b \<le> a \<and> a < k * b + b" by linarith
qed

lemma year_parts:
  fixes doe :: int
  assumes "0 \<le> doe" "doe \<le> 146096"
  obtains c q y d :: int where "0 \<le> c" "c \<le> 3" "0 \<le> q" "q \<le> 24" "0 \<le> y" "y \<le> 3" "0 \<le> d" "d \<le> 365"
    "d = 365 \<longrightarrow> y = 3" "c = 3 \<or> doe < 36524 * c + 36524" "doe = 36524 * c + 1461 * q + 365 * y + d"
proof -
  define c where "c = min 3 (doe div 36524)"
  define r where "r = doe - 36524 * c"
  define q where "q = r div 1461"
  define s where "s = r mod 1461"
  define y where "y = min 3 (s div 365)"
  have c: "0 \<le> c" "c \<le> 3" "0 \<le> r" "r \<le> 36524" "c = 3 \<or> r < 36524"
    using assms by (auto simp: c_def r_def min_def)
  have s: "0 \<le> s" "s \<le> 1460" "r = 1461 * q + s" by (simp_all add: s_def q_def)
  have q: "0 \<le> q" "q \<le> 24" using c(3,4) s by linarith+
  have y: "0 \<le> y" "y \<le> 3" "0 \<le> s - 365 * y" "s - 365 * y \<le> 365" "s - 365 * y = 365 \<longrightarrow> y = 3"
  proof -
    have m: "s = 365 * (s div 365) + s mod 365" "0 \<le> s mod 365" "s mod 365 < 365" "0 \<le> s div 365"
      using s(1) by (simp_all add: pos_imp_zdiv_nonneg_iff)
    have "0 \<le> y \<and> y \<le> 3 \<and> 0 \<le> s - 365 * y \<and> s - 365 * y \<le> 365 \<and> (s - 365 * y = 365 \<longrightarrow> y = 3)"
    proof (cases "s div 365 \<le> 3")
      case True
      then have "y = s div 365" by (simp add: y_def)
      then show ?thesis using True m by linarith
    next
      case False
      then have "y = 3" by (simp add: y_def)
      then show ?thesis using False m s(2) by linarith
    qed
    then show "0 \<le> y" "y \<le> 3" "0 \<le> s - 365 * y" "s - 365 * y \<le> 365" "s - 365 * y = 365 \<longrightarrow> y = 3" by blast+
  qed
  have "doe = 36524 * c + 1461 * q + 365 * y + (s - 365 * y)" using s(3) by (simp add: r_def)
  moreover have "c = 3 \<or> doe < 36524 * c + 36524" using c(5) by (auto simp: r_def)
  ultimately show ?thesis using that[of c q y "s - 365 * y"] c q y by blast
qed

lemma year_of_era:
  fixes doe :: int
  assumes "0 \<le> doe" "doe \<le> 146096" "yoe = (doe - doe div 1460 + doe div 36524 - doe div 146096) div 365"
  shows "0 \<le> yoe" "yoe \<le> 399" "0 \<le> doe - (365 * yoe + yoe div 4 - yoe div 100)" "doe - (365 * yoe + yoe div 4 - yoe div 100) \<le> 365"
proof -
  obtain c q y d where p: "0 \<le> c" "c \<le> 3" "0 \<le> q" "q \<le> 24" "0 \<le> y" "y \<le> 3" "0 \<le> d" "d \<le> 365"
    "d = 365 \<longrightarrow> y = 3" "c = 3 \<or> doe < 36524 * c + 36524" "doe = 36524 * c + 1461 * q + 365 * y + d"
    by (rule year_parts[OF assms(1,2)])
  define a where "a = doe div 1460"
  have a: "1460 * a \<le> doe" "doe < 1460 * a + 1460" by (simp_all add: a_def)
  have u: "a \<le> 25 * c + q + d"
  proof (cases "d = 0")
    case True
    then show ?thesis using a(1) p by linarith
  next
    case False
    then show ?thesis using a(1) p by linarith
  qed
  have l: "25 * c + q + d \<le> a + 364"
  proof (cases "d = 365")
    case True
    then show ?thesis using a(2) p by linarith
  next
    case False
    then show ?thesis using a(2) p by linarith
  qed
  have k: "doe div 36524 - doe div 146096 = c"
  proof (cases "doe = 146096")
    case True
    then show ?thesis using p by simp
  next
    case False
    then have "doe div 146096 = 0" using assms by simp
    moreover have "36524 * c \<le> doe" using p by linarith
    moreover have "doe < 36524 * c + 36524" using p(10) False assms by auto
    ultimately show ?thesis by linarith
  qed
  have "yoe = (doe - a + c) div 365" using k by (simp add: assms(3) a_def algebra_simps)
  moreover have "365 * (100 * c + 4 * q + y) \<le> doe - a + c" "doe - a + c < 365 * (100 * c + 4 * q + y) + 365"
    using u l unfolding p(11) by (simp_all add: algebra_simps)
  ultimately have yoe: "yoe = 100 * c + 4 * q + y" using div_iff[of 365 "doe - a + c" "100 * c + 4 * q + y"] by simp
  have "yoe div 4 = 25 * c + q" "yoe div 100 = c" using yoe p by linarith+
  then have "doe - (365 * yoe + yoe div 4 - yoe div 100) = d" using yoe p(11) by simp
  then show "0 \<le> yoe" "yoe \<le> 399" "0 \<le> doe - (365 * yoe + yoe div 4 - yoe div 100)"
    "doe - (365 * yoe + yoe div 4 - yoe div 100) \<le> 365" using yoe p by simp_all
qed

lemma civil_back:
  assumes "civil n = (y, m, d)"
  shows "day_number y m d = n" "0 \<le> m" "m \<le> 11" "1 \<le> d"
proof -
  define z era doe yoe doy mp where e: "z = n + 719468" "era = z div 146097" "doe = z mod 146097"
    "yoe = (doe - doe div 1460 + doe div 36524 - doe div 146096) div 365"
    "doy = doe - (365 * yoe + yoe div 4 - yoe div 100)" "mp = (5 * doy + 2) div 153"
  have "0 \<le> doe" "doe \<le> 146096" by (simp_all add: e(3))
  from year_of_era[OF this e(4)] have b: "0 \<le> yoe" "yoe \<le> 399" "0 \<le> doy" "doy \<le> 365" by (simp_all add: e(5))
  then have mp: "0 \<le> mp" "mp \<le> 11" "153 * mp \<le> 5 * doy + 2" by (simp_all add: e(6))
  define m0 where "m0 = (if mp < 10 then mp + 2 else mp - 10)"
  have "civil n = (yoe + era * 400 + (if m0 \<le> 1 then 1 else 0), m0, doy - (153 * mp + 2) div 5 + 1)"
    unfolding civil_def Let_def m0_def e by (rule refl)
  then have c: "m = (if mp < 10 then mp + 2 else mp - 10)" "d = doy - (153 * mp + 2) div 5 + 1"
    "y = yoe + era * 400 + (if m \<le> 1 then 1 else 0)"
    using assms by (simp_all add: m0_def)
  show m: "0 \<le> m" "m \<le> 11" using mp by (simp_all add: c(1))
  show "1 \<le> d" using mp(3) by (simp add: c(2))
  have y': "(if m \<le> 1 then y - 1 else y) = yoe + era * 400" by (simp add: c(3))
  have m': "(if 2 \<le> m then m - 2 else m + 10) = mp" using mp by (simp add: c(1))
  have "(yoe + era * 400) div 400 = era" "(yoe + era * 400) mod 400 = yoe" using b by simp_all
  moreover have "(153 * mp + 2) div 5 + d - 1 = doy" by (simp add: c(2))
  moreover have "era * 146097 + doe = n + 719468" by (simp add: e(2,3) e(1)[symmetric])
  ultimately show "day_number y m d = n" unfolding day_number_def Let_def y' m' by (simp add: e(5))
qed

subsection \<open>The contract of dates\<close>

locale dates =
  fixes c :: calendar and ymd :: "int \<Rightarrow> int \<Rightarrow> int \<Rightarrow> int option"
  assumes make_date: "ymd (year_of c t) (month_of c t) (date_of c t) = Some (midnight c t)"
    and midnight_le: "midnight c t \<le> t"
    and midnight_idem: "midnight c (midnight c t) = midnight c t"
    and month_range: "0 \<le> month_of c t" and date_range: "1 \<le> date_of c t"
    and midnight_year: "year_of c (midnight c t) = year_of c t"
begin

lemma first_day_midnight: "100 \<le> year_of c t \<Longrightarrow> first_day c ymd t = Some (midnight c t)"
  by (simp add: first_day_def new_date_of_def make_date)

lemma hash_back:
  assumes "100 \<le> year_of c t"
  shows "read_hash ymd usual (week_hash c t) = midnight c t"
proof -
  have digits: "CHR ''-'' \<notin> set (show_int i)" if "0 \<le> i" for i
    using show_nat_digits[of "nat i"] that by (auto simp: show_int_def list_all_iff is_digit_def char_code_def)
  have num: "parseInt (show_int i) = Fin (of_int i)" if "0 \<le> i" for i
    using parseInt_show_nat[of "[]" "nat i"] that by (simp add: show_int_def)
  let ?parts = "[show_int (year_of c t), show_int (month_of c t + 1), show_int (date_of c t)]"
  have r: "0 \<le> year_of c t" "0 \<le> month_of c t + 1" "0 \<le> date_of c t"
    using assms month_range[of t] date_range[of t] by simp_all
  have "split_on (CHR ''-'') (join ''-'' ?parts) = ?parts" by (rule split_join) (use digits r in simp_all)
  then have "split_on (CHR ''-'') (remove1 (CHR ''#'') (week_hash c t)) = ?parts" by (simp add: week_hash_def)
  moreover have "week_hash c t \<noteq> []" by (simp add: week_hash_def)
  ultimately show ?thesis
    using r assms make_date[of t] by (simp add: read_hash_def Let_def part_number_def num new_date_of_def)
qed

lemma week_back:
  assumes "100 \<le> year_of c t"
  shows "first_day c ymd (read_hash ymd usual (week_hash c t)) = first_day c ymd t"
  using assms by (simp add: hash_back first_day_midnight midnight_idem midnight_year)

text \<open>
  The button adds seven times 24 hours: if the clocks are changed within the week, the next one does not begin at a
  midnight a week later; after clocks are put back it begins a day early.
\<close>

lemma next_week_early:
  assumes "midnight c (t + 7 * day_ms) \<noteq> t + 7 * day_ms" "100 \<le> year_of c (t + 7 * day_ms)"
  shows "\<exists>d. first_day c ymd (fst (week_click c usual NextWeek t)) = Some d \<and> d < t + 7 * day_ms"
  using assms midnight_le[of "t + 7 * day_ms"] by (simp add: first_day_midnight)

end

lemma same_date_zone: "same_date (zone off) a b \<longleftrightarrow> (a + off) div day_ms = (b + off) div day_ms"
proof
  assume s: "same_date (zone off) a b"
  obtain y m d where c: "civil ((a + off) div day_ms) = (y, m, d)" by (cases "civil ((a + off) div day_ms)")
  then have "civil ((b + off) div day_ms) = (y, m, d)"
    using s by (cases "civil ((b + off) div day_ms)") (simp add: same_date_def zone_def)
  from civil_back(1)[OF c] civil_back(1)[OF this] show "(a + off) div day_ms = (b + off) div day_ms" by simp
qed (simp add: same_date_def zone_def)

lemma midnight_number: "midnight (zone off) t = (t + off) div day_ms * day_ms - off"
  by (simp add: zone_def minus_mod_eq_div_mult [symmetric])

interpretation zone_dates: dates "zone off" "zone_new off" for off
proof
  fix t
  obtain y m d where c: "civil ((t + off) div day_ms) = (y, m, d)" by (cases "civil ((t + off) div day_ms)")
  have f: "year_of (zone off) t = y" "month_of (zone off) t = m" "date_of (zone off) t = d" by (simp_all add: zone_def c)
  show "zone_new off (year_of (zone off) t) (month_of (zone off) t) (date_of (zone off) t) = Some (midnight (zone off) t)"
    unfolding f midnight_number zone_new_def civil_back(1)[OF c] by simp
  show "midnight (zone off) t \<le> t" by (simp add: zone_def)
  show "0 \<le> month_of (zone off) t" "1 \<le> date_of (zone off) t" unfolding f using civil_back(2,4)[OF c] by simp_all
  show "midnight (zone off) (midnight (zone off) t) = midnight (zone off) t" by (simp add: midnight_number)
  show "year_of (zone off) (midnight (zone off) t) = year_of (zone off) t"
    unfolding midnight_number by (simp add: zone_def)
qed

text \<open>
  C38. The address of a week names it: a page that is opened with the address that a button has set shows the week
  that the button showed, in every zone without clock changes and from the year 100 on.
\<close>

theorem week_address_roundtrip:
  assumes "100 \<le> year_of (zone off) (fst (week_click (zone off) usual b svgDate))"
  shows "first_day (zone off) (zone_new off) (read_hash (zone_new off) usual' (snd (week_click (zone off) usual b svgDate))) =
    first_day (zone off) (zone_new off) (fst (week_click (zone off) usual b svgDate))"
  using zone_dates.week_back[OF assms] by (cases b) simp_all

theorem week_address_roundtrip_witness:
  "first_day (zone 3600000) (zone_new 3600000) (read_hash (zone_new 3600000) 0 (snd (week_click (zone 3600000) 0 NextWeek 1330511696000))) =
   first_day (zone 3600000) (zone_new 3600000) 1331116496000"
proof -
  have "100 \<le> year_of (zone 3600000) (fst (week_click (zone 3600000) 0 NextWeek 1330511696000))" by code_simp
  from week_address_roundtrip[OF this, of 0] show ?thesis by simp
qed

subsection \<open>The mark of today\<close>

lemma isThisWeek_fold:
  "foldl (\<lambda>w i. if P i then int i else w) (-1) [0..<n] = (if \<exists>i<n. P i then int (GREATEST i. i < n \<and> P i) else -1)"
proof (induction n)
  case (Suc n)
  show ?case
  proof (cases "P n")
    case True
    then have "(GREATEST i. i < Suc n \<and> P i) = n" by (intro Greatest_equality) auto
    with True show ?thesis by auto
  next
    case False
    then have "(i < Suc n \<and> P i) = (i < n \<and> P i)" for i by (metis less_Suc_eq)
    with False Suc show ?thesis by simp
  qed
qed simp



text \<open>Leaving a box gives all boxes of its schedule their colours back.\<close>

lemma hover_restores:
  "map_of (w_byId w) (i_id obj) = Some arry \<Longrightarrow> fills = map (\<lambda>o'. s_color (i_sched o')) arry \<Longrightarrow>
   handleMouseOut w obj (handleMouseOver w obj fills) = fills"
  by (simp add: handleMouseOut_def)

end
