(* ===== verification/Spec2Isabelle.thy ===== *)
theory Spec2Isabelle
  imports LiveSession SelectSync DialogSession ClassAttr LayoutCorrect Dates ScheduleColumns ScheduleWeek ExecPageProps FlowPage
    NavigateProps SvgViewProps ScheduleOptions TableSort JobLog Menus JobList ExecutionList Sla FlowStats
    Permissions JobEdit Projects TimeGraph AdminSetup LogText ServerTables SmallViews ScheduleGrid
begin

text \<open>
  The web client of Azkaban, \<open>src/azkaban-webserver/src/web/js/azkaban/\<close>. All paths below are relative to
  that directory.

  \<^bold>\<open>The program.\<close> The client shows workflows. A flow is a tree of nodes (jobs and embedded flows), and the
  nodes of one level form a dependency graph. The graph model (\<open>model/svg-graph.js\<close>) links the nodes of an
  answer of the server; the layout (\<open>util/layout.js\<close>) places them; the view (\<open>view/svg-graph.js\<close> with
  \<open>util/svgutils.js\<close>) draws and paints them, and the navigation (\<open>util/svg-navigate.js\<close>) pans and zooms. The
  pages of a flow and of a running flow (\<open>view/flow.js\<close>, \<open>view/exflow.js\<close>) put these together with the job
  list, the execution list, the log and the context menus. The execution dialog
  (\<open>view/flow-execute-dialog.js\<close>) lets the user choose which jobs run and with what settings; the schedule
  dialogs and the calendar (\<open>view/schedule-options.js\<close>, \<open>view/schedule-svg.js\<close>) do this for the future.

  \<^bold>\<open>Values.\<close> \<open>Prelude\<close> has the numbers (exact rationals with NaN and the infinities), the objects used as
  dictionaries, in insertion order, and the errors: \<open>TypeError\<close> for a property of an undefined value and
  \<open>NoReturn\<close> for a recursion that has used up its bound. A handler that can throw returns \<open>error + 'a\<close>.
  \<open>JsString\<close> has the strings, \<open>JsSort\<close> sorting by a comparison function, \<open>LocalTime\<close> the time zone, a
  parameter. Objects that the code shares between several places are named by their position in a list;
  the page is a record of what the views read and write of it, and requests, timers and dialogs are a list
  of effects in the order in which the code causes them (\<open>Page\<close>). Answers of the server are arguments.

  \<^bold>\<open>Interfaces.\<close> Six contracts are locales. \<open>graph_walk\<close> (\<open>GraphWalk\<close>) is a recursion along neighbours
  without a table of visited nodes; the recursions over ancestors and over descendants are its instances.
  \<open>comparator\<close> (\<open>JsSort\<close>) is what a comparison function must satisfy for a sort to be stable, sorted and
  the same for every order of its input; the comparisons of the layout, the calendar and the tables are
  instances. \<open>class_ops\<close> (\<open>ClassAttr\<close>) is the contract of \<open>addClass\<close>, \<open>removeClass\<close> and \<open>hasClass\<close>; the
  helpers for plain elements, for SVG elements and jQuery on the model of a page are instances.
  \<open>statistic\<close> (\<open>FlowStats\<close>) is a peak that is raised job by job, with the eight peaks of the statistics as
  instances. \<open>lazy_list\<close> (\<open>Projects\<close>) is a row that asks for its contents when it is first opened, with the rows
  of projects and of flows as instances. \<open>dates\<close> (\<open>ScheduleGrid\<close>) is what the calendar expects of a \<open>Date\<close> made
  of year, month and day, with the zones of \<open>LocalTime\<close> as instances.

  \<^bold>\<open>Theories and sources.\<close>
  \<^item> \<open>ClassAttr\<close>: \<open>util/common.js\<close>, \<open>util/job-status.js\<close>, class helpers of \<open>util/svgutils.js\<close>.
  \<^item> \<open>FlowModel\<close>: \<open>model/svg-graph.js\<close>. When \<open>addFlow\<close> throws, and that it links every level.
  \<^item> \<open>FlowDisable\<close>: the selection of jobs in \<open>view/flow-execute-dialog.js\<close>. What each menu entry changes; the
    list that is sent says what the user saw; divergence on a cycle. \<open>DialogSession\<close>: the menus as a step
    relation; from the answer of the server through any session and back; no entry hangs.
  \<^item> \<open>EditTable\<close>, \<open>ExecDialog\<close>: the other parts of that file and the requests of \<open>util/ajax.js\<close>. The table of
    parameters refines a dictionary; the settings survive the trip through the form, two of them swapped.
  \<^item> \<open>LayoutLevels\<close>, \<open>LayoutSpread\<close>, \<open>LayoutGraph\<close>, \<open>LayoutCorrect\<close>: \<open>util/layout.js\<close>. Levels are longest
    paths, layers are free of overlaps and apart from each other.
  \<^item> \<open>SvgEdges\<close>, \<open>SvgView\<close>, \<open>SvgViewProps\<close>: \<open>view/svg-graph.js\<close>, animation in \<open>util/svgutils.js\<close>. Bounds,
    marks of disabled jobs, colours after an update.
  \<^item> \<open>Navigate\<close>, \<open>NavigateProps\<close>: \<open>util/svg-navigate.js\<close>. Zooming about the mouse, zoom levels, animations.
  \<^item> \<open>Dates\<close>: \<open>util/date.js\<close>. Durations can be read back, dates as text sort like dates.
  \<^item> \<open>Schedule\<close>, \<open>ScheduleWeek\<close>, \<open>ScheduleColumns\<close>: \<open>view/schedule-svg.js\<close>. Occurrences, cutting at
    midnight, packing into columns, and what a change of the clock does.
  \<^item> \<open>ScheduleOptions\<close>: \<open>view/schedule-options.js\<close>. Forms, menu, and when a click on the table throws.
  \<^item> \<open>ExecPage\<close>, \<open>ExecPageProps\<close>: \<open>view/exflow.js\<close>. Tabs, buttons, polling, updates.
  \<^item> \<open>Polling\<close>: the loop between that page and the server (\<open>ExecutorServlet.java\<close>) as a step relation with
    requests and answers on their way. The page catches up with the flow, provided that answers arrive in the
    order of their requests and that a later change has a later time; both are needed.
  \<^item> \<open>LivePage\<close>, \<open>LiveSession\<close>: the same loop with all views of the page that listen to an update: buttons,
    boxes, list of jobs, status, statistics and table of jobs. The part that each view has of a node is kept
    in step with the data (\<open>share\<close>); the handlers run in the order in which the page has made the views, once
    or twice for an answer. No view throws, and the page as a whole shows the flow.
  \<^item> \<open>SelectFrame\<close>, \<open>SelectSync\<close>: the selection that the graph and the list of jobs share. The layout, the
    drawing and the painting of boxes select none and lose no selection; after any clicks in both views the
    box and the item of the selected node are marked, and no others.
  \<^item> \<open>FlowPage\<close>: \<open>view/flow.js\<close>. Tabs and the pager.
  \<^item> \<open>JobList\<close>: \<open>view/job-list.js\<close>; \<open>ExecutionList\<close>: \<open>view/flow-execution-list.js\<close>; \<open>JobLog\<close>:
    \<open>model/job-log.js\<close>; \<open>TableSort\<close>: \<open>view/table-sort.js\<close>; \<open>Menus\<close>: \<open>view/context-menu.js\<close> and
    \<open>util/flow-loader.js\<close>.
  \<^item> \<open>ScheduleGrid\<close>: the frame of the calendar. The address of a week can be read back, today is marked.
  \<^item> \<open>Sla\<close>: \<open>view/schedule-sla.js\<close>, \<open>view/triggers.js\<close>, \<open>util/schedule.js\<close>, and the server's side of a rule
    (\<open>ScheduleServlet.java\<close>, \<open>SlaOption.java\<close>, \<open>Utils.java\<close>). Rules survive the dialog.
  \<^item> \<open>Permissions\<close>: \<open>view/project-permissions.js\<close> and \<open>ProjectManagerServlet.java\<close>. What is granted is what is
    ticked.
  \<^item> \<open>JobEdit\<close>: \<open>view/job-edit.js\<close>. The dictionary that is sent is the one the table shows, after any edits.
  \<^item> \<open>FlowStats\<close>: \<open>view/flow-stats.js\<close>. The peaks, and when there are statistics at all.
  \<^item> \<open>Projects\<close>: \<open>view/main.js\<close>, \<open>view/project.js\<close>, \<open>view/project-modals.js\<close>. Rows are filled once.
  \<^item> \<open>LogText\<close>: \<open>view/job-details.js\<close>. Links in a log; the page shows the whole log, with \<open>JobLog\<close>.
  \<^item> \<open>TimeGraph\<close>: \<open>view/time-graph.js\<close>. Colours and texts of the points.
  \<^item> \<open>ServerTables\<close>: \<open>view/project-logs.js\<close>, \<open>view/jmx.js\<close>. Columns by name; when a table breaks off.
  \<^item> \<open>AdminSetup\<close>: \<open>view/admin-setup.js\<close>. Which files are uploaded.
  \<^item> \<open>SmallViews\<close>: \<open>view/message-dialog.js\<close>, \<open>view/schedule-panel.js\<close>, \<open>view/login.js\<close>,
    \<open>view/executions.js\<close>, \<open>view/history.js\<close>, \<open>view/history-day.js\<close>, \<open>view/flow-extended.js\<close>.

  \<^bold>\<open>Bounds.\<close> A recursion of the code that may not end takes a bound. The walks along neighbours return
  within the number of nodes when there is no cycle, and for no bound on a cycle; the level walk takes
  the sum over the nodes of their generations; \<open>addItem\<close> takes two, since a piece that it passes to itself is
  not cut again when days have 24 hours; the loop of a log takes one round per 50000 characters and
  one more. Each of these is proved to be enough.

  \<^bold>\<open>Not modelled.\<close> Rounding of doubles; the construction of views and the registration of their handlers;
  the markup that is only written; the sizes of texts and elements on the screen, which are parameters;
  logging. \<open>fetchFlow\<close> in \<open>util/ajax.js\<close>, \<open>prepareData\<close> in \<open>view/history-day.js\<close> and
  \<open>globalNodePosition\<close> in \<open>view/svg-graph.js\<close>, which nothing calls. \<open>view/scheduled.js\<close> and
  \<open>view/job-history.js\<close> only construct views. What a browser makes of a text as a date, \<open>moment\<close> and
  \<open>setDate\<close> are parameters. jQuery, Backbone, dust, Morris and the other libraries are not part of this
  program; the model has what the code uses of them.
\<close>

end
